(* ===== verification/Wire_Prelude.thy ===== *)
theory Wire_Prelude
  imports Complex_Main "HOL-Library.Word" "HOL-Library.Sublist"
begin

text \<open>
  Shared vocabulary of the Wirewolf development: the machine types of the C++ sources, the
  operations of \<^verbatim>\<open>std::string\<close> and \<^verbatim>\<open>std::vector\<close> that the engine uses
  (substring search, trimming, splitting, case folding, decimal printing), and the byte-order
  helpers for IPv4 addresses and ports.  Reads that C++ leaves undefined outside the container are
  written with the option-valued \<open>rd\<close>.  Doubles and floats are modelled as real numbers
  with exact arithmetic; \<^verbatim>\<open>size_t\<close> counters are natural numbers.
\<close>

unbundle bit_operations_syntax

named_theorems wire_simps \<open>unfolding rules for the small helper definitions\<close>
named_theorems wire_split \<open>case splits of the model's result types\<close>

type_synonym byte = "8 word"
type_synonym u16 = "16 word"
type_synonym u32 = "32 word"
type_synonym u64 = "64 word"
type_synonym bytes = "byte list"

section \<open>Checked reads\<close>

definition rd :: "'a list \<Rightarrow> nat \<Rightarrow> 'a option" where
  "rd xs i = (if i < length xs then Some (xs ! i) else None)"

lemma rd_Some_iff [simp]: "rd xs i = Some x \<longleftrightarrow> i < length xs \<and> xs ! i = x"
  by (auto simp: rd_def)

lemma rd_None_iff [simp]: "rd xs i = None \<longleftrightarrow> length xs \<le> i"
  by (auto simp: rd_def)

lemma rd_lt: "i < length xs \<Longrightarrow> rd xs i = Some (xs ! i)"
  by simp

section \<open>Substring search\<close>

fun starts_with :: "'a list \<Rightarrow> 'a list \<Rightarrow> bool" where
  "starts_with [] s = True"
| "starts_with (p # ps) [] = False"
| "starts_with (p # ps) (c # cs) = (p = c \<and> starts_with ps cs)"

lemma starts_with_iff: "starts_with p s \<longleftrightarrow> (\<exists>r. s = p @ r)"
  by (induction p s rule: starts_with.induct) auto

lemma starts_with_append [simp]: "starts_with p (p @ r)"
  by (auto simp: starts_with_iff)

lemma starts_with_length: "starts_with p s \<Longrightarrow> length p \<le> length s"
  by (auto simp: starts_with_iff)

definition ends_with :: "'a list \<Rightarrow> 'a list \<Rightarrow> bool" where
  "ends_with suf s = (length suf \<le> length s \<and> drop (length s - length suf) s = suf)"

lemma ends_with_iff: "ends_with suf s \<longleftrightarrow> (\<exists>u. s = u @ suf)"
proof
  assume "ends_with suf s"
  then have "s = take (length s - length suf) s @ suf"
    by (metis append_take_drop_id ends_with_def)
  then show "\<exists>u. s = u @ suf" ..
qed (auto simp: ends_with_def)

fun find_sub :: "'a list \<Rightarrow> 'a list \<Rightarrow> nat option" where
  "find_sub pat [] = (if pat = [] then Some 0 else None)"
| "find_sub pat (c # cs) =
     (if starts_with pat (c # cs) then Some 0 else map_option Suc (find_sub pat cs))"

definition find_from :: "'a list \<Rightarrow> 'a list \<Rightarrow> nat \<Rightarrow> nat option" where
  "find_from pat s pos =
     (if pos \<le> length s then map_option ((+) pos) (find_sub pat (drop pos s)) else None)"

definition contains :: "'a list \<Rightarrow> 'a list \<Rightarrow> bool" where
  "contains s pat = (find_sub pat s \<noteq> None)"

lemma find_sub_Some:
  "find_sub pat s = Some i \<Longrightarrow> i \<le> length s \<and> starts_with pat (drop i s)"
proof (induction s arbitrary: i)
  case Nil
  then show ?case by (auto split: if_splits)
next
  case (Cons c cs)
  then show ?case by (auto split: if_splits)
qed

lemma find_sub_least: "find_sub pat s = Some i \<Longrightarrow> j < i \<Longrightarrow> \<not> starts_with pat (drop j s)"
proof (induction s arbitrary: i j)
  case Nil
  then show ?case by (auto split: if_splits)
next
  case (Cons c cs)
  then show ?case by (cases j) (auto split: if_splits)
qed

lemma find_sub_decomp:
  "find_sub pat s = Some i \<Longrightarrow> s = take i s @ pat @ drop (i + length pat) s"
proof -
  assume f: "find_sub pat s = Some i"
  then obtain r where r: "drop i s = pat @ r"
    by (auto dest!: find_sub_Some simp: starts_with_iff)
  then have "r = drop (i + length pat) s"
    by (metis add.commute append_eq_conv_conj drop_drop)
  with r show ?thesis by (metis append_take_drop_id)
qed

lemma find_sub_bound: "find_sub pat s = Some i \<Longrightarrow> i + length pat \<le> length s"
  using find_sub_Some[of pat s i] starts_with_length[of pat "drop i s"] by auto

lemma find_sub_None_iff: "find_sub pat s = None \<longleftrightarrow> \<not> (\<exists>u v. s = u @ pat @ v)"
proof (induction s)
  case Nil
  then show ?case by auto
next
  case (Cons c cs)
  have "(\<exists>u v. c # cs = u @ pat @ v) \<longleftrightarrow>
        starts_with pat (c # cs) \<or> (\<exists>u v. cs = u @ pat @ v)"
    by (auto simp: starts_with_iff Cons_eq_append_conv)
  with Cons show ?case by auto
qed

lemma contains_iff: "contains s pat \<longleftrightarrow> (\<exists>u v. s = u @ pat @ v)"
proof -
  have "contains s pat \<longleftrightarrow> \<not> (find_sub pat s = None)" by (simp add: contains_def)
  then show ?thesis by (simp add: find_sub_None_iff)
qed

lemma contains_sublist: "contains s pat \<longleftrightarrow> sublist pat s"
  by (auto simp: contains_iff sublist_def)

lemma contains_append: "contains s pat \<Longrightarrow> contains (u @ s @ v) pat"
  by (metis append.assoc contains_iff)

lemma not_contains_tl: "\<not> contains (c # cs) pat \<Longrightarrow> \<not> contains cs pat"
  using contains_append[of cs pat "[c]" "[]"] by auto

lemma contains_Cons: "contains (c # cs) pat \<longleftrightarrow> starts_with pat (c # cs) \<or> contains cs pat"
  by (simp add: contains_def)

lemma contains_Nil [simp]: "contains [] pat \<longleftrightarrow> pat = []"
  by (simp add: contains_def)

lemma find_from_Some:
  assumes "find_from pat s pos = Some i"
  shows "pos \<le> i \<and> i + length pat \<le> length s \<and> starts_with pat (drop i s)"
proof -
  from assms obtain j where j: "find_sub pat (drop pos s) = Some j" "i = pos + j" "pos \<le> length s"
    by (auto simp: find_from_def split: if_splits)
  with find_sub_Some[OF j(1)] find_sub_bound[OF j(1)] show ?thesis
    by (auto simp: add.commute)
qed

section \<open>Counting and replacing occurrences\<close>

text \<open>
  \<open>while ((pos = s.find(pat, pos)) != npos) \{ n++; pos += step; \}\<close>, and the same loop collecting
  the positions.
\<close>

function positions :: "'a list \<Rightarrow> nat \<Rightarrow> 'a list \<Rightarrow> nat \<Rightarrow> nat list" where
  "positions pat step s pos =
     (case find_from pat s pos of None \<Rightarrow> []
      | Some i \<Rightarrow> if step = 0 then [i] else i # positions pat step s (i + step))"
  by pat_completeness auto
termination
  by (relation "measure (\<lambda>(pat, step, s, pos). Suc (length s) - pos)")
     (auto dest!: find_from_Some)

declare positions.simps [simp del]

definition count_occ :: "'a list \<Rightarrow> nat \<Rightarrow> 'a list \<Rightarrow> nat" where
  "count_occ pat step s = length (positions pat step s 0)"

function replace_all :: "'a list \<Rightarrow> 'a list \<Rightarrow> 'a list \<Rightarrow> 'a list" where
  "replace_all old new s =
     (case find_sub old s of None \<Rightarrow> s
      | Some i \<Rightarrow> if old = [] then s
          else take i s @ new @ replace_all old new (drop (i + length old) s))"
  by pat_completeness auto
termination
  by (relation "measure (\<lambda>(old, new, s). length s)")
     (auto dest!: find_sub_bound simp flip: length_greater_0_conv)

declare replace_all.simps [simp del]

section \<open>Trimming, splitting, case folding\<close>

definition trim_chars :: "char list \<Rightarrow> string \<Rightarrow> string" where
  "trim_chars ws s =
     rev (dropWhile (\<lambda>c. c \<in> set ws) (rev (dropWhile (\<lambda>c. c \<in> set ws) s)))"

lemma trim_chars_set: "set (trim_chars ws s) \<subseteq> set s"
  by (auto simp: trim_chars_def dest!: set_dropWhileD)

lemma trim_chars_hd: "trim_chars ws s \<noteq> [] \<Longrightarrow> last (trim_chars ws s) \<notin> set ws"
proof -
  let ?t = "dropWhile (\<lambda>c. c \<in> set ws) (rev (dropWhile (\<lambda>c. c \<in> set ws) s))"
  assume "trim_chars ws s \<noteq> []"
  then have "?t \<noteq> []" by (simp add: trim_chars_def)
  then have "hd ?t \<notin> set ws" using hd_dropWhile by blast
  then show ?thesis by (simp add: trim_chars_def last_rev)
qed

text \<open>
  Repeated \<open>std::getline(ss, tok, d)\<close>: the tokens between delimiters; a trailing delimiter gives no
  empty last token and the empty string gives none at all.
\<close>

fun getline_split_acc :: "'a \<Rightarrow> 'a list \<Rightarrow> 'a list \<Rightarrow> 'a list list" where
  "getline_split_acc d acc [] = (if acc = [] then [] else [rev acc])"
| "getline_split_acc d acc (c # cs) =
     (if c = d then rev acc # getline_split_acc d [] cs
      else getline_split_acc d (c # acc) cs)"

definition getline_split :: "'a \<Rightarrow> 'a list \<Rightarrow> 'a list list" where
  "getline_split d s = getline_split_acc d [] s"

lemma getline_split_acc_no_delim:
  "d \<notin> set acc \<Longrightarrow> t \<in> set (getline_split_acc d acc s) \<Longrightarrow> d \<notin> set t"
  by (induction d acc s rule: getline_split_acc.induct) (auto split: if_splits)

lemma first_delim_unique:
  "x \<notin> set xs \<Longrightarrow> x \<notin> set ys \<Longrightarrow> xs @ x # xs' = ys @ x # ys' \<Longrightarrow> xs = ys \<and> xs' = ys'"
proof (induction xs arbitrary: ys)
  case Nil
  then show ?case by (cases ys) auto
next
  case (Cons a xs)
  then show ?case by (cases ys) auto
qed

definition lower_char :: "char \<Rightarrow> char" where
  "lower_char c =
     (let n = (of_char c :: nat) in if 65 \<le> n \<and> n \<le> 90 then char_of (n + 32) else c)"

definition to_lower :: "string \<Rightarrow> string" where
  "to_lower s = map lower_char s"

definition is_upper :: "char \<Rightarrow> bool" where
  "is_upper c = (let n = (of_char c :: nat) in 65 \<le> n \<and> n \<le> 90)"

definition is_digit :: "char \<Rightarrow> bool" where
  "is_digit c = (let n = (of_char c :: nat) in 48 \<le> n \<and> n \<le> 57)"

definition is_alpha :: "char \<Rightarrow> bool" where
  "is_alpha c = (let n = (of_char c :: nat) in (65 \<le> n \<and> n \<le> 90) \<or> (97 \<le> n \<and> n \<le> 122))"

lemma of_char_lt: "(of_char c :: nat) < 256"
  by (cases c) (simp add: of_char_def)

lemma of_char_char_of: "n < 256 \<Longrightarrow> of_char (char_of n :: char) = (n::nat)"
  by (simp add: of_char_of)

lemma lower_char_not_upper: "\<not> is_upper (lower_char c)"
  by (auto simp: is_upper_def lower_char_def Let_def)

lemma lower_char_idem [simp]: "lower_char (lower_char c) = lower_char c"
  by (auto simp: lower_char_def Let_def)

lemma to_lower_idem [simp]: "to_lower (to_lower s) = to_lower s"
  by (simp add: to_lower_def)

lemma length_to_lower [simp]: "length (to_lower s) = length s"
  by (simp add: to_lower_def)

section \<open>Decimal printing\<close>

fun nat_to_string :: "nat \<Rightarrow> string" where
  "nat_to_string n =
     (if n < 10 then [char_of (48 + n)]
      else nat_to_string (n div 10) @ [char_of (48 + n mod 10)])"

declare nat_to_string.simps [simp del]

definition int_to_string :: "int \<Rightarrow> string" where
  "int_to_string i = (if i < 0 then CHR ''-'' # nat_to_string (nat (- i)) else nat_to_string (nat i))"

lemma nat_to_string_digits: "c \<in> set (nat_to_string n) \<Longrightarrow> is_digit c"
proof (induction n rule: nat_to_string.induct)
  case (1 n)
  have d: "is_digit (char_of (48 + k :: nat))" if "k < 10" for k
    using that by (simp add: is_digit_def)
  show ?case
  proof (cases "n < 10")
    case True
    with "1.prems" d show ?thesis by (subst (asm) nat_to_string.simps) simp
  next
    case False
    with "1.prems" have "c \<in> set (nat_to_string (n div 10)) \<or> c = char_of (48 + n mod 10)"
      by (subst (asm) nat_to_string.simps) auto
    with "1.IH"[OF False] d[of "n mod 10"] show ?thesis by auto
  qed
qed

lemma nat_to_string_nonempty [simp]: "nat_to_string n \<noteq> []"
  by (subst nat_to_string.simps) simp

lemma takeWhile_digits [simp]: "takeWhile is_digit (nat_to_string n) = nat_to_string n"
  by (simp add: takeWhile_eq_all_conv nat_to_string_digits)

fun digits_value :: "nat \<Rightarrow> string \<Rightarrow> nat" where
  "digits_value acc [] = acc"
| "digits_value acc (c # cs) = digits_value (acc * 10 + (of_char c - 48)) cs"

lemma digits_value_append: "digits_value a (s @ t) = digits_value (digits_value a s) t"
  by (induction s arbitrary: a) auto

lemma digits_value_nat_to_string [simp]: "digits_value 0 (nat_to_string n) = n"
proof (induction n rule: nat_to_string.induct)
  case (1 n)
  show ?case
  proof (cases "n < 10")
    case True
    then show ?thesis by (subst nat_to_string.simps) simp
  next
    case False
    from "1.IH"[OF False] False show ?thesis
      by (subst nat_to_string.simps) (simp add: digits_value_append)
  qed
qed

lemma nat_to_string_inj: "nat_to_string m = nat_to_string n \<Longrightarrow> m = n"
  by (metis digits_value_nat_to_string)

section \<open>Byte order and addresses\<close>

text \<open>
  The engine keeps addresses and ports in network byte order and reads their bytes through a
  \<^verbatim>\<open>uint8_t*\<close>; the host is little-endian (the supported targets are Windows x86-64),
  so byte \<open>k\<close> of an address is its bits \<open>8k..8k+7\<close>.
\<close>

definition ip_byte :: "u32 \<Rightarrow> nat \<Rightarrow> nat" where
  "ip_byte ip k = unat (drop_bit (8 * k) ip AND 255)"

definition bswap16 :: "u16 \<Rightarrow> u16" where
  "bswap16 v = (drop_bit 8 v) OR (push_bit 8 v)"

definition bswap32 :: "u32 \<Rightarrow> u32" where
  "bswap32 v = (drop_bit 24 v) OR (drop_bit 8 v AND 0xFF00)
     OR (push_bit 8 v AND 0xFF0000) OR (push_bit 24 v)"

definition dotted_quad :: "u32 \<Rightarrow> string" where
  "dotted_quad ip = nat_to_string (ip_byte ip 0) @ ''.'' @ nat_to_string (ip_byte ip 1) @ ''.'' @
     nat_to_string (ip_byte ip 2) @ ''.'' @ nat_to_string (ip_byte ip 3)"

lemma ip_byte_lt: "ip_byte ip k < 256"
proof -
  have "drop_bit (8 * k) ip AND 255 \<le> (255 :: u32)" by (rule word_and_le1)
  then have "unat (drop_bit (8 * k) ip AND 255) \<le> unat (255 :: u32)"
    by (rule word_le_nat_alt[THEN iffD1])
  then show ?thesis by (simp add: ip_byte_def)
qed

lemma bswap16_bswap16 [simp]: "bswap16 (bswap16 v) = v"
proof (rule bit_word_eqI)
  fix n
  assume "n < LENGTH(16)"
  then show "bit (bswap16 (bswap16 v)) n = bit v n"
    by (cases "n < 8") (auto simp: bswap16_def bit_simps)
qed

section \<open>Bytes and text\<close>

definition byte_char :: "byte \<Rightarrow> char" where
  "byte_char b = char_of (unat b)"

definition text_of :: "bytes \<Rightarrow> string" where
  "text_of bs = map byte_char bs"

definition bytes_of :: "string \<Rightarrow> bytes" where
  "bytes_of s = map (\<lambda>c. word_of_nat (of_char c)) s"

definition printable_byte :: "byte \<Rightarrow> bool" where
  "printable_byte b =
     ((32 \<le> unat b \<and> unat b \<le> 126) \<or> unat b = 10 \<or> unat b = 13 \<or> unat b = 9)"

lemma length_text_of [simp]: "length (text_of bs) = length bs"
  by (simp add: text_of_def)

lemma text_of_bytes_of [simp]: "text_of (bytes_of s) = s"
proof -
  have "byte_char (word_of_nat (of_char c)) = c" for c
    using of_char_lt[of c] by (simp add: byte_char_def unat_of_nat)
  then show ?thesis by (simp add: text_of_def bytes_of_def o_def)
qed

text \<open>Two characters of the sources outside ASCII, as their UTF-8 bytes.\<close>

definition em_dash :: string where
  "em_dash = [CHR 0xE2, CHR 0x80, CHR 0x94]"

definition right_arrow :: string where
  "right_arrow = [CHR 0xE2, CHR 0x86, CHR 0x92]"

text \<open>What C reads from a character array: the characters before the first terminator.\<close>

definition c_string :: "string \<Rightarrow> string" where
  "c_string buf = takeWhile (\<lambda>c. c \<noteq> CHR 0x00) buf"

section \<open>Association lists as unordered maps\<close>

text \<open>
  The \<^verbatim>\<open>std::unordered_map\<close> members are association lists with distinct keys; their
  order stands for the unspecified iteration order of the container.
\<close>

fun al_put :: "'k \<Rightarrow> 'v \<Rightarrow> ('k \<times> 'v) list \<Rightarrow> ('k \<times> 'v) list" where
  "al_put k v [] = [(k, v)]"
| "al_put k v ((k', v') # m) = (if k = k' then (k, v) # m else (k', v') # al_put k v m)"

definition al_del :: "'k \<Rightarrow> ('k \<times> 'v) list \<Rightarrow> ('k \<times> 'v) list" where
  "al_del k m = filter (\<lambda>(k', _). k' \<noteq> k) m"

definition keys_distinct :: "('k \<times> 'v) list \<Rightarrow> bool" where
  "keys_distinct m = distinct (map fst m)"

lemma map_of_al_put [simp]: "map_of (al_put k v m) = (map_of m)(k \<mapsto> v)"
  by (induction k v m rule: al_put.induct) auto

lemma fst_al_put: "fst ` set (al_put k v m) = insert k (fst ` set m)"
  by (induction k v m rule: al_put.induct) auto

lemma keys_distinct_Cons [simp]:
  "keys_distinct ((k, v) # m) \<longleftrightarrow> k \<notin> fst ` set m \<and> keys_distinct m"
  by (simp add: keys_distinct_def)

lemma keys_distinct_Nil [simp]: "keys_distinct []"
  by (simp add: keys_distinct_def)

lemma keys_distinct_al_put: "keys_distinct m \<Longrightarrow> keys_distinct (al_put k v m)"
  by (induction k v m rule: al_put.induct) (auto simp: fst_al_put simp del: set_append)

lemma length_al_put:
  "length (al_put k v m) = (if map_of m k = None then Suc (length m) else length m)"
  by (induction k v m rule: al_put.induct) auto

lemma set_al_put_subset: "set (al_put k v m) \<subseteq> insert (k, v) (set m)"
  by (induction k v m rule: al_put.induct) auto

lemma set_al_put_distinct:
  "keys_distinct m \<Longrightarrow> set (al_put k v m) = insert (k, v) {(k', v') \<in> set m. k' \<noteq> k}"
  by (induction k v m rule: al_put.induct) (auto simp: rev_image_eqI)

lemma keys_distinct_filter: "keys_distinct m \<Longrightarrow> keys_distinct (filter P m)"
  by (simp add: keys_distinct_def distinct_map_filter)

section \<open>Worker loops\<close>

text \<open>
  A worker takes one item after the other from its queue and carries it through its loop body; \<open>None\<close> is
  undefined behaviour in the body.
\<close>

primrec run_stage :: "('f \<Rightarrow> 's \<Rightarrow> 's option) \<Rightarrow> 'f list \<Rightarrow> 's \<Rightarrow> 's option" where
  "run_stage body [] st = Some st"
| "run_stage body (f # fs) st = (case body f st of None \<Rightarrow> None | Some st' \<Rightarrow> run_stage body fs st')"

text \<open>The contract of a stage: its body handles every item it is meant for and keeps its books.\<close>

locale stage =
  fixes body :: "'f \<Rightarrow> 's \<Rightarrow> 's option"
    and handles :: "'f \<Rightarrow> bool"
    and booked :: "'f list \<Rightarrow> 's \<Rightarrow> bool"
  assumes handled: "handles f \<Longrightarrow> body f st \<noteq> None"
    and books: "booked fs st \<Longrightarrow> body f st = Some st' \<Longrightarrow> booked (fs @ [f]) st'"
begin

lemma run_books: "booked fs st \<Longrightarrow> run_stage body gs st = Some st' \<Longrightarrow> booked (fs @ gs) st'"
proof (induction gs arbitrary: fs st)
  case (Cons g gs)
  then obtain st1 where st1: "body g st = Some st1" "run_stage body gs st1 = Some st'" by (auto split: option.splits)
  from Cons.IH[OF books[OF Cons.prems(1) st1(1)] st1(2)] show ?case by simp
qed simp

lemma run_total: "list_all handles gs \<Longrightarrow> \<exists>st'. run_stage body gs st = Some st'"
proof (induction gs arbitrary: st)
  case (Cons g gs)
  then obtain st1 where "body g st = Some st1" using handled[of g st] by auto
  with Cons show ?case by simp
qed simp

lemma run_booked: "list_all handles gs \<Longrightarrow> booked [] st \<Longrightarrow> \<exists>st'. run_stage body gs st = Some st' \<and> booked gs st'"
  using run_total[of gs st] run_books[of "[]" st gs] by auto

end

end
