(* ===== verification/Wirewolf_Types.thy ===== *)
theory Wirewolf_Types
  imports Wire_Prelude
begin

text \<open>
  The shared value types: \<^verbatim>\<open>include/packet_types.hpp\<close> (connection identifiers, hashing, flows)
  and \<^verbatim>\<open>include/wirewolf_types.hpp\<close> (severities, the CVSS table, confidence, alerts, events and
  statistics).  The implementation-defined \<^verbatim>\<open>std::hash\<close> is the argument \<open>std_hash\<close> of the hashing
  operations.  Wall-clock stamps of alerts and events are not modelled.
\<close>

section \<open>Connections and flows\<close>

record connection_id =
  src_ip :: u32
  dst_ip :: u32
  src_port :: u16
  dst_port :: u16

record std_hash =
  h16 :: "u16 \<Rightarrow> u64"
  h32 :: "u32 \<Rightarrow> u64"
  h64 :: "u64 \<Rightarrow> u64"

definition hash_combine :: "u64 \<Rightarrow> u64 \<Rightarrow> u64" where
  "hash_combine seed hv = seed XOR (hv + 0x9e3779b9 + push_bit 6 seed + drop_bit 2 seed)"

definition hash_connection :: "std_hash \<Rightarrow> connection_id \<Rightarrow> u64" where
  "hash_connection H k =
     hash_combine (hash_combine (hash_combine (hash_combine 0 (h32 H (src_ip k)))
       (h32 H (dst_ip k))) (h16 H (src_port k))) (h16 H (dst_port k))"

record flow_data =
  flow_id :: connection_id
  payload :: bytes
  normalized :: string
  protocol_tag :: string
  tls_sni :: string
  tls_ja3 :: string
  timestamp :: real
  inter_arrival_time :: real
  length_variance :: real
  packet_count :: nat
  behavioral_suspect :: bool

definition empty_id :: connection_id where
  "empty_id = \<lparr>src_ip = 0, dst_ip = 0, src_port = 0, dst_port = 0\<rparr>"

definition make_flow_data :: flow_data where
  "make_flow_data = \<lparr>flow_id = empty_id, payload = [], normalized = [], protocol_tag = [],
     tls_sni = [], tls_ja3 = [], timestamp = 0, inter_arrival_time = 0, length_variance = 0,
     packet_count = 0, behavioral_suspect = False\<rparr>"

section \<open>Severity\<close>

datatype severity = Info | Low | Medium | High | Critical

fun severity_rank :: "severity \<Rightarrow> nat" where
  "severity_rank Info = 0"
| "severity_rank Low = 1"
| "severity_rank Medium = 2"
| "severity_rank High = 3"
| "severity_rank Critical = 4"

lemma severity_rank_inj: "severity_rank a = severity_rank b \<longleftrightarrow> a = b"
  by (cases a; cases b) simp_all

instantiation severity :: linorder
begin

definition less_eq_severity :: "severity \<Rightarrow> severity \<Rightarrow> bool" where
  "less_eq_severity a b = (severity_rank a \<le> severity_rank b)"

definition less_severity :: "severity \<Rightarrow> severity \<Rightarrow> bool" where
  "less_severity a b = (severity_rank a < severity_rank b)"

instance
  by standard (auto simp: less_eq_severity_def less_severity_def severity_rank_inj)

end

lemmas severity_order = less_eq_severity_def less_severity_def

record severity_info =
  level :: severity
  cvss :: real

fun severity_label :: "severity \<Rightarrow> string" where
  "severity_label Critical = ''Critical''"
| "severity_label High = ''High''"
| "severity_label Medium = ''Medium''"
| "severity_label Low = ''Low''"
| "severity_label Info = ''Info''"

definition cvss_rating :: "real \<Rightarrow> string" where
  "cvss_rating score =
     (if score \<ge> 9 then ''Critical''
      else if score \<ge> 7 then ''High''
      else if score \<ge> 4 then ''Medium''
      else if score \<ge> 1 / 10 then ''Low''
      else ''None'')"

text \<open>\<open>%.<d>f\<close> of a non-negative number: the nearest multiple of \<open>10 ^ -d\<close>, a tie to the even one.\<close>

definition zero_pad :: "nat \<Rightarrow> string \<Rightarrow> string" where
  "zero_pad d s = replicate (d - length s) (CHR ''0'') @ s"

definition round_even :: "real \<Rightarrow> nat" where
  "round_even x = (let n = nat \<lfloor>x\<rfloor>; r = x - real n in if 1 / 2 < r \<or> r = 1 / 2 \<and> odd n then n + 1 else n)"

definition fmt_fixed :: "nat \<Rightarrow> real \<Rightarrow> string" where
  "fmt_fixed d x =
     (let n = round_even (x * 10 ^ d)
      in if d = 0 then nat_to_string n
         else nat_to_string (n div 10 ^ d) @ ''.'' @ zero_pad d (nat_to_string (n mod 10 ^ d)))"

definition severity_format :: "severity_info \<Rightarrow> string" where
  "severity_format s =
     take 63 (severity_label (level s) @ '' (CVSS 4.0: '' @ fmt_fixed 1 (cvss s) @ ''/'' @
       cvss_rating (cvss s) @ '')'')"

definition confidence_for :: "severity_info \<Rightarrow> bool \<Rightarrow> real" where
  "confidence_for sev deterministic =
     (let base = (if deterministic then 78 / 100 else 55 / 100);
          c = base + (cvss sev / 10) * (if deterministic then 20 / 100 else 40 / 100);
          c = (if c > 99 / 100 then 99 / 100 else c)
      in if c < 5 / 100 then 5 / 100 else c)"

definition severity_table :: "(string \<times> severity \<times> real) list" where
  "severity_table =
  [(''SQLi'', Critical, 93 / 10),
   (''Command Injection'', Critical, 93 / 10),
   (''SSTI'', Critical, 93 / 10),
   (''Deserialization Attack'', Critical, 93 / 10),
   (''File Inclusion'', Critical, 93 / 10),
   (''LDAP Injection'', Critical, 93 / 10),
   (''XPath Injection'', Critical, 93 / 10),
   (''NoSQL Injection'', Critical, 93 / 10),
   (''Malicious File Upload'', Critical, 93 / 10),
   (''SSRF'', High, 87 / 10),
   (''XXE'', High, 87 / 10),
   (''Path Traversal'', High, 87 / 10),
   (''HTTP Request Smuggling'', High, 83 / 10),
   (''Prototype Pollution'', High, 83 / 10),
   (''CSRF'', Medium, 63 / 10),
   (''XSS'', Medium, 53 / 10),
   (''HTTP Response Splitting'', Medium, 53 / 10),
   (''CRLF Injection'', Medium, 53 / 10),
   (''Open Redirect'', Medium, 40 / 10),
   (''Log4Shell'', Critical, 100 / 10),
   (''SMB Exploit'', Critical, 94 / 10),
   (''Shellshock'', Critical, 93 / 10),
   (''Spring4Shell'', Critical, 93 / 10),
   (''Apache Struts RCE'', Critical, 93 / 10),
   (''Heartbleed'', High, 87 / 10),
   (''Worm Propagation Scan'', Critical, 100 / 10),
   (''Ransomware C2'', Critical, 100 / 10),
   (''Reverse Shell'', Critical, 93 / 10),
   (''Webshell'', Critical, 93 / 10),
   (''Malware Payload'', Critical, 93 / 10),
   (''RAT C2'', Critical, 93 / 10),
   (''C2 Beaconing'', Critical, 93 / 10),
   (''Botnet Communication'', Critical, 93 / 10),
   (''Spam Bot'', High, 81 / 10),
   (''Suspicious Transfer'', Medium, 53 / 10),
   (''Botnet Host'', Critical, 93 / 10),
   (''Dropper Download'', High, 86 / 10),
   (''Cryptominer Traffic'', High, 87 / 10),
   (''Data Exfiltration'', Critical, 93 / 10),
   (''Credential Theft'', Critical, 93 / 10),
   (''DNS Exfiltration'', High, 87 / 10),
   (''Session Hijacking'', High, 83 / 10),
   (''Brute Force'', High, 77 / 10),
   (''SSH Brute Force'', High, 77 / 10),
   (''Credential Stuffing'', High, 77 / 10),
   (''Password Spraying'', High, 77 / 10),
   (''Kerberoasting'', High, 71 / 10),
   (''DNS Amplification'', Critical, 92 / 10),
   (''DDoS'', High, 87 / 10),
   (''Slowloris'', High, 87 / 10),
   (''HTTP Flood'', High, 87 / 10),
   (''ReDoS'', High, 87 / 10),
   (''Port Scan'', Medium, 69 / 10),
   (''Directory Enumeration'', Medium, 69 / 10),
   (''Version Fingerprinting'', Medium, 69 / 10),
   (''Vulnerability Scanning'', Medium, 69 / 10),
   (''User Enumeration'', Medium, 69 / 10),
   (''DNS Tunneling'', High, 87 / 10),
   (''DNS Poisoning'', High, 83 / 10),
   (''TLS Downgrade'', High, 77 / 10),
   (''SMTP Relay Abuse'', Medium, 69 / 10),
   (''DNS Rebinding'', Medium, 60 / 10),
   (''IP Spoofing'', Medium, 53 / 10),
   (''TCP Evasion'', High, 75 / 10),
   (''Malicious TLS Client'', High, 81 / 10),
   (''Suspicious TLS'', Medium, 53 / 10)]"

definition severity_for_threat :: "string \<Rightarrow> severity_info" where
  "severity_for_threat t =
     (case map_of severity_table t of
        Some (s, c) \<Rightarrow> \<lparr>level = s, cvss = c\<rparr>
      | None \<Rightarrow> \<lparr>level = Medium, cvss = 5\<rparr>)"

definition severity_from_string :: "string \<Rightarrow> severity_info" where
  "severity_from_string s =
     (if s = ''Critical'' \<or> s = ''critical'' then \<lparr>level = Critical, cvss = 95 / 10\<rparr>
      else if s = ''High'' \<or> s = ''high'' then \<lparr>level = High, cvss = 8\<rparr>
      else if s = ''Medium'' \<or> s = ''medium'' then \<lparr>level = Medium, cvss = 55 / 10\<rparr>
      else if s = ''Low'' \<or> s = ''low'' then \<lparr>level = Low, cvss = 2\<rparr>
      else \<lparr>level = Medium, cvss = 55 / 10\<rparr>)"

definition wanted_level :: "string \<Rightarrow> severity option" where
  "wanted_level s =
     (if s = ''critical'' then Some Critical
      else if s = ''high'' then Some High
      else if s = ''medium'' then Some Medium
      else if s = ''low'' then Some Low
      else if s = ''info'' \<or> s = ''informational'' \<or> s = ''none'' then Some Info
      else None)"

definition resolve_severity :: "string \<Rightarrow> string \<Rightarrow> severity_info" where
  "resolve_severity threat_type llm_severity =
     (let base = severity_for_threat threat_type;
          s = to_lower llm_severity
      in case wanted_level s of
           None \<Rightarrow> base
         | Some want \<Rightarrow>
             if want < level base
             then (if want = Info then \<lparr>level = Info, cvss = 0\<rparr> else severity_from_string s)
             else base)"

section \<open>Pipeline states, statistics, alerts and events\<close>

datatype pipeline_state = Stopped | Starting | Running | Stopping | Error

record pipeline_stats =
  filter_passed :: nat
  filter_dropped :: nat
  filter_deduped :: nat
  filter_device :: string
  alerts_fired :: nat
  q1_depth :: nat
  q2_depth :: nat
  q1_drops :: nat
  q2_drops :: nat
  q1_capacity :: nat
  q2_capacity :: nat
  capture_finished :: bool
  blocked_packets :: nat
  blocked_sources :: nat

record threat_alert =
  al_connection :: connection_id
  al_threat_type :: string
  al_severity :: string
  al_severity_info :: severity_info
  al_snippet :: string
  al_raw_output :: string
  al_payload_text :: string
  al_confidence :: real

datatype flow_action = Filtered | PassedToLLM | LLMCleared

record flow_event =
  ev_connection :: connection_id
  ev_action :: flow_action
  ev_reason :: string
  ev_payload_size :: nat

section \<open>Lemmas\<close>

lemma map_of_all:
  assumes "list_all (\<lambda>(k, v). P v) xs" and "map_of xs k = Some v"
  shows "P v"
  using assms by (auto dest!: map_of_SomeD simp: list_all_iff)

definition rated :: "severity_info \<Rightarrow> bool" where
  "rated s = (severity_label (level s) = cvss_rating (cvss s) \<and> 4 \<le> cvss s \<and> cvss s \<le> 10)"

lemma severity_table_rated:
  "list_all (\<lambda>(t, s, c). rated \<lparr>level = s, cvss = c\<rparr>) severity_table"
  by (simp add: severity_table_def rated_def cvss_rating_def)

lemma severity_for_threat_rated: "rated (severity_for_threat t)"
proof (cases "map_of severity_table t")
  case None
  then show ?thesis by (simp add: severity_for_threat_def rated_def cvss_rating_def)
next
  case (Some sc)
  then have "(t, sc) \<in> set severity_table" by (rule map_of_SomeD)
  with severity_table_rated show ?thesis
    by (cases sc) (auto simp: severity_for_threat_def Some list_all_iff)
qed

lemma rated_level_bounds:
  assumes "rated s"
  shows "level s = Critical \<Longrightarrow> 9 \<le> cvss s"
    and "level s = High \<Longrightarrow> 7 \<le> cvss s \<and> cvss s < 9"
    and "level s = Medium \<Longrightarrow> 4 \<le> cvss s \<and> cvss s < 7"
    and "level s \<noteq> Low" and "level s \<noteq> Info"
  using assms by (auto simp: rated_def cvss_rating_def split: if_splits)

lemma severity_for_threat_at_least_medium: "Medium \<le> level (severity_for_threat t)"
  using rated_level_bounds(4,5)[OF severity_for_threat_rated[of t]]
  by (cases "level (severity_for_threat t)") (auto simp: severity_order)

fun tier_score :: "severity \<Rightarrow> real" where
  "tier_score Critical = 95 / 10"
| "tier_score High = 8"
| "tier_score Medium = 55 / 10"
| "tier_score Low = 2"
| "tier_score Info = 0"

lemma wanted_level_from_string:
  assumes "wanted_level s = Some w" and "w \<noteq> Info"
  shows "severity_from_string s = \<lparr>level = w, cvss = tier_score w\<rparr>"
  using assms by (auto simp: wanted_level_def severity_from_string_def split: if_splits)

lemma tier_score_below:
  assumes "rated b" and "w < level b"
  shows "tier_score w \<le> cvss b"
  using assms(2) rated_level_bounds[OF assms(1)] assms(1)
  by (cases w; cases "level b") (auto simp: severity_order rated_def)

lemmas resolve_simps = resolve_severity_def Let_def

lemma resolve_severity_le:
  "level (resolve_severity t s) \<le> level (severity_for_threat t) \<and>
   cvss (resolve_severity t s) \<le> cvss (severity_for_threat t) \<and>
   (\<forall>w. wanted_level (to_lower s) = Some w \<longrightarrow>
      level (resolve_severity t s) = min w (level (severity_for_threat t)))"
proof -
  let ?b = "severity_for_threat t"
  have r: "rated ?b" by (rule severity_for_threat_rated)
  show ?thesis
  proof (cases "wanted_level (to_lower s)")
    case None
    then show ?thesis by (simp add: resolve_simps)
  next
    case (Some w)
    show ?thesis
    proof (cases "w < level ?b")
      case False
      with Some show ?thesis by (auto simp: resolve_simps min_def)
    next
      case True
      with Some wanted_level_from_string[OF Some] tier_score_below[OF r True] r show ?thesis
        by (auto simp: resolve_simps min_def rated_def)
    qed
  qed
qed

section \<open>Properties\<close>

text \<open>
  every threat type, listed in the CVSS table or not, gets a severity whose label is the CVSS 4.0
  rating of its score, with a score between 4.0 and 10.0: no curated severity is Low or Info.
\<close>
theorem severity_for_threat_consistent:
  "severity_label (level (severity_for_threat t)) = cvss_rating (cvss (severity_for_threat t)) \<and>
   4 \<le> cvss (severity_for_threat t) \<and> cvss (severity_for_threat t) \<le> 10 \<and>
   Medium \<le> level (severity_for_threat t)"
  using severity_for_threat_rated[of t] severity_for_threat_at_least_medium[of t]
  by (simp add: rated_def)

text \<open>
  C14: the model's severity opinion can only lower a verdict: the resolved level and score never exceed
  the curated ones, and a recognised token strictly below the ceiling is taken over exactly.
\<close>
theorem resolve_severity_ceiling:
  "level (resolve_severity t s) \<le> level (severity_for_threat t) \<and>
   cvss (resolve_severity t s) \<le> cvss (severity_for_threat t) \<and>
   (\<forall>w. wanted_level (to_lower s) = Some w \<longrightarrow>
      level (resolve_severity t s) = min w (level (severity_for_threat t)))"
  by (rule resolve_severity_le)

theorem resolve_severity_ceiling_witness:
  "level (resolve_severity ''SQLi'' ''LOW'') = min Low (level (severity_for_threat ''SQLi''))"
proof -
  have "wanted_level (to_lower ''LOW'') = Some Low" by code_simp
  then show ?thesis using resolve_severity_ceiling[of "''SQLi''" "''LOW''"] by blast
qed

text \<open>
  a deterministic detection is always reported with more confidence than a model verdict of the
  same severity, and both confidences lie in [0.55, 0.99] for every CVSS score.
\<close>
theorem confidence_for_bounds:
  assumes "0 \<le> cvss s" and "cvss s \<le> 10"
  shows "55 / 100 \<le> confidence_for s det \<and> confidence_for s det \<le> 99 / 100 \<and>
    confidence_for s False < confidence_for s True"
  using assms by (auto simp: confidence_for_def Let_def field_simps)

theorem confidence_for_bounds_witness:
  "confidence_for \<lparr>level = High, cvss = 8\<rparr> False < confidence_for \<lparr>level = High, cvss = 8\<rparr> True"
  using confidence_for_bounds[of "\<lparr>level = High, cvss = 8\<rparr>"] by simp

end
