(* ===== verification/Alert_Json.thy ===== *)
theory Alert_Json
  imports Wirewolf_Types
begin

text \<open>
  \<^verbatim>\<open>src/alert_json.cpp\<close>, the one producer of the alert object, and the two identical parsers of it:
  \<open>extract_json_field\<close> of \<^verbatim>\<open>src/llm_inference.cpp\<close> and the \<open>extract\<close> lambda of the
  alert callback in \<^verbatim>\<open>src/pipeline_controller.cpp\<close>.  The lemmas relate what is written to what is
  read back.
\<close>

abbreviation dq :: char where "dq \<equiv> CHR 0x22"
abbreviation bsl :: char where "bsl \<equiv> CHR 0x5C"

section \<open>The producer\<close>

definition hex_digit :: "nat \<Rightarrow> char" where
  "hex_digit n = (if n < 10 then char_of (48 + n) else char_of (87 + n))"

definition esc_char :: "char \<Rightarrow> string" where
  "esc_char c =
     (if c = dq then [bsl, dq]
      else if c = bsl then [bsl, bsl]
      else if c = CHR 0x0A then [bsl, CHR ''n'']
      else if c = CHR 0x0D then [bsl, CHR ''r'']
      else if c = CHR 0x09 then [bsl, CHR ''t'']
      else if (of_char c :: nat) < 0x20
        then [bsl, CHR ''u'', CHR ''0'', CHR ''0'', hex_digit (of_char c div 16), hex_digit (of_char c mod 16)]
      else [c])"

definition json_escape :: "string \<Rightarrow> string" where
  "json_escape s = concat (map esc_char s)"

definition build_alert_json :: "string \<Rightarrow> severity_info \<Rightarrow> string \<Rightarrow> string" where
  "build_alert_json threat_type sev snippet =
     ''{'' @ [dq] @ ''threat_type'' @ [dq] @ '': '' @ [dq] @ json_escape threat_type @ [dq] @ '', '' @
     [dq] @ ''severity'' @ [dq] @ '': '' @ [dq] @ json_escape (severity_format sev) @ [dq] @ '', '' @
     [dq] @ ''cvss'' @ [dq] @ '': '' @ fmt_fixed 6 (cvss sev) @ '', '' @
     [dq] @ ''snippet'' @ [dq] @ '': '' @ [dq] @ json_escape snippet @ [dq] @ ''}''"

section \<open>The parser\<close>

definition unesc_char :: "char \<Rightarrow> char" where
  "unesc_char d =
     (if d = CHR ''n'' then CHR 0x0A
      else if d = CHR ''r'' then CHR 0x0D
      else if d = CHR ''t'' then CHR 0x09
      else d)"

text \<open>The scan from an opening quote; \<open>None\<close> is the end of the text without a closing quote.\<close>

fun read_quoted :: "string \<Rightarrow> string option" where
  "read_quoted [] = None"
| "read_quoted [c] = (if c = dq then Some [] else None)"
| "read_quoted (c # d # ds) =
     (if c = bsl then map_option ((#) (unesc_char d)) (read_quoted ds)
      else if c = dq then Some []
      else map_option ((#) c) (read_quoted (d # ds)))"

definition extract_json_field :: "string \<Rightarrow> string \<Rightarrow> string" where
  "extract_json_field json key =
     (case find_sub ([dq] @ key @ [dq]) json of None \<Rightarrow> []
      | Some pos \<Rightarrow>
        (case find_from '':'' json (pos + length key + 2) of None \<Rightarrow> []
         | Some col \<Rightarrow>
           (case find_from [dq] json (col + 1) of None \<Rightarrow> []
            | Some start \<Rightarrow>
              (case read_quoted (drop (start + 1) json) of None \<Rightarrow> [] | Some r \<Rightarrow> r))))"

section \<open>Reading back an escaped value\<close>

definition control_char :: "char \<Rightarrow> bool" where
  "control_char c =
     ((of_char c :: nat) < 0x20 \<and> c \<noteq> CHR 0x0A \<and> c \<noteq> CHR 0x0D \<and> c \<noteq> CHR 0x09)"

definition reread_char :: "char \<Rightarrow> string" where
  "reread_char c = (if control_char c then tl (esc_char c) else [c])"

lemma esc_char_cases:
  obtains (quote) "esc_char c = [bsl, dq]" "c = dq"
    | (backslash) "esc_char c = [bsl, bsl]" "c = bsl"
    | (named) d where "esc_char c = [bsl, d]" "unesc_char d = c" "d \<noteq> dq" "\<not> control_char c"
    | (ctrl) "esc_char c = bsl # tl (esc_char c)" "control_char c"
    | (plain) "esc_char c = [c]" "c \<noteq> dq" "c \<noteq> bsl" "\<not> control_char c"
  by (atomize_elim) (auto simp: esc_char_def control_char_def unesc_char_def)

lemma read_quoted_plain:
  "c \<noteq> bsl \<Longrightarrow> c \<noteq> dq \<Longrightarrow> read_quoted (c # s) = map_option ((#) c) (read_quoted s)"
  by (cases s) auto

lemma read_quoted_dq [simp]: "read_quoted (dq # s) = Some []"
  by (cases s) auto

lemma hex_digit_plain: "n < 16 \<Longrightarrow> hex_digit n \<noteq> dq \<and> hex_digit n \<noteq> bsl"
proof -
  have "\<forall>n \<in> set [0..<16]. hex_digit n \<noteq> dq \<and> hex_digit n \<noteq> bsl" by code_simp
  then show "n < 16 \<Longrightarrow> hex_digit n \<noteq> dq \<and> hex_digit n \<noteq> bsl" by auto
qed

lemma hex_digits_plain:
  "m < 32 \<Longrightarrow> hex_digit (m div 16) \<noteq> dq \<and> hex_digit (m div 16) \<noteq> bsl \<and>
    hex_digit (m mod 16) \<noteq> dq \<and> hex_digit (m mod 16) \<noteq> bsl"
  using hex_digit_plain[of "m div 16"] hex_digit_plain[of "m mod 16"] by simp

lemma ctrl_esc:
  "control_char c \<Longrightarrow> esc_char c = [bsl, CHR ''u'', CHR ''0'', CHR ''0'',
     hex_digit (of_char c div 16), hex_digit (of_char c mod 16)]"
  by (auto simp: control_char_def esc_char_def)

lemma read_quoted_ctrl:
  assumes "control_char c"
  shows "read_quoted (esc_char c @ s) = map_option ((@) (reread_char c)) (read_quoted s)"
proof -
  from assms have "(of_char c :: nat) < 32" by (simp add: control_char_def)
  then have h: "hex_digit (of_char c div 16) \<noteq> dq" "hex_digit (of_char c div 16) \<noteq> bsl"
    "hex_digit (of_char c mod 16) \<noteq> dq" "hex_digit (of_char c mod 16) \<noteq> bsl"
    using hex_digits_plain by blast+
  with assms show ?thesis
    by (cases "read_quoted s") (simp_all add: ctrl_esc reread_char_def read_quoted_plain unesc_char_def)
qed

lemma read_quoted_esc:
  "read_quoted (esc_char c @ s) = map_option ((@) (reread_char c)) (read_quoted s)"
proof (cases rule: esc_char_cases[of c])
  case quote
  then show ?thesis
    by (cases "read_quoted s") (simp_all add: reread_char_def control_char_def unesc_char_def)
next
  case backslash
  then show ?thesis
    by (cases "read_quoted s") (simp_all add: reread_char_def control_char_def unesc_char_def)
next
  case (named d)
  then show ?thesis by (cases "read_quoted s") (simp_all add: reread_char_def)
next
  case ctrl
  then show ?thesis by (simp only: read_quoted_ctrl)
next
  case plain
  then show ?thesis
    by (cases "read_quoted s") (simp_all add: reread_char_def read_quoted_plain)
qed

lemma read_quoted_json_escape:
  "read_quoted (json_escape s @ dq # rest) = Some (concat (map reread_char s))"
proof (induction s)
  case Nil
  show ?case by (simp add: json_escape_def)
next
  case (Cons c s)
  then show ?case by (simp add: json_escape_def read_quoted_esc)
qed

lemma reread_clean: "\<forall>c \<in> set s. \<not> control_char c \<Longrightarrow> concat (map reread_char s) = s"
  by (induction s) (auto simp: reread_char_def)

section \<open>Finding a key\<close>

definition plain_key :: "string \<Rightarrow> bool" where
  "plain_key w = (\<forall>c \<in> set w. c \<noteq> dq \<and> c \<noteq> bsl)"

lemma find_sub_step:
  "\<not> starts_with pat (c # s) \<Longrightarrow> find_sub pat (c # s) = map_option Suc (find_sub pat s)"
  by simp

lemma shift_Suc [simp]: "map_option Suc (map_option ((+) n) r) = map_option ((+) (Suc n)) r"
  by (cases r) simp_all

lemma shift_shift [simp]:
  "map_option ((+) m) (map_option ((+) n) r) = map_option ((+) (m + n :: nat)) r"
  by (cases r) simp_all

lemma shift_0 [simp]: "map_option ((+) (0::nat)) r = r" "map_option (\<lambda>a. a) r = r"
  by (cases r; simp)+

lemma find_sub_skip:
  "p \<notin> set x \<Longrightarrow> find_sub (p # ps) (x @ s) = map_option ((+) (length x)) (find_sub (p # ps) s)"
  by (induction x) simp_all

lemma starts_key_esc:
  assumes "plain_key w" and "starts_with (w @ [dq]) (json_escape t @ dq # y)"
  shows "t = w"
  using assms
proof (induction t arbitrary: w)
  case Nil
  then show ?case by (cases w) (auto simp: json_escape_def plain_key_def)
next
  case (Cons c t)
  note esc = json_escape_def
  show ?case
  proof (cases w)
    case Nil
    with Cons.prems show ?thesis
      by (cases rule: esc_char_cases[of c]) (auto simp: esc ctrl_esc)
  next
    case (Cons d v)
    with Cons.prems have "esc_char c = [c]" "d = c" "starts_with (v @ [dq]) (json_escape t @ dq # y)"
      by (cases rule: esc_char_cases[of c]; auto simp: esc plain_key_def ctrl_esc)+
    with Cons.IH[of v] Cons.prems Cons show ?thesis by (auto simp: plain_key_def)
  qed
qed

declare find_sub.simps(2) [simp del]

lemma find_sub_skip_esc:
  assumes "plain_key w" and "\<not> ends_with (dq # w) t"
  shows "find_sub (dq # w @ [dq]) (json_escape t @ dq # y) =
    map_option ((+) (length (json_escape t))) (find_sub (dq # w @ [dq]) (dq # y))"
  using assms(2)
proof (induction t)
  case Nil
  then show ?case by (simp add: json_escape_def)
next
  case (Cons c t)
  let ?K = "dq # w @ [dq]" and ?r = "json_escape t @ dq # y"
  have IH: "find_sub ?K ?r = map_option ((+) (length (json_escape t))) (find_sub ?K (dq # y))"
  proof (rule Cons.IH)
    show "\<not> ends_with (dq # w) t"
      using Cons.prems by (metis append_Cons ends_with_iff)
  qed
  have E: "json_escape (c # t) @ dq # y = esc_char c @ ?r"
    "length (json_escape (c # t)) = length (esc_char c) + length (json_escape t)"
    by (simp_all add: json_escape_def)
  have "find_sub ?K (esc_char c @ ?r) = map_option ((+) (length (esc_char c))) (find_sub ?K ?r)"
  proof (cases "c = dq")
    case True
    with Cons.prems have "t \<noteq> w" by (auto simp: ends_with_def)
    then have no: "\<not> starts_with ?K (dq # ?r)" using starts_key_esc[OF assms(1)] by auto
    have "find_sub ?K (bsl # dq # ?r) = map_option Suc (find_sub ?K (dq # ?r))"
      by (rule find_sub_step) simp
    also have "\<dots> = map_option Suc (map_option Suc (find_sub ?K ?r))"
      by (simp only: find_sub_step[OF no])
    finally show ?thesis by (cases "find_sub ?K ?r") (simp_all add: True esc_char_def)
  next
    case False
    then have "dq \<notin> set (esc_char c)"
    proof (cases rule: esc_char_cases[of c])
      case ctrl
      then have "(of_char c :: nat) < 32" by (simp add: control_char_def)
      then show ?thesis
        using hex_digits_plain[of "of_char c"] by (auto simp: ctrl_esc[OF ctrl(2)])
    qed auto
    then show ?thesis by (rule find_sub_skip)
  qed
  then show ?case by (simp only: E IH shift_shift)
qed

text \<open>A quoted value in front of a key is skipped unless the value ends in the key itself.\<close>

lemma find_sub_skip_value:
  assumes "plain_key w" and "\<not> ends_with (dq # w) (dq # t)"
  shows "find_sub (dq # w @ [dq]) (dq # json_escape t @ dq # y) =
    map_option ((+) (Suc (length (json_escape t)))) (find_sub (dq # w @ [dq]) (dq # y))"
proof -
  let ?K = "dq # w @ [dq]"
  from assms(2) have "t \<noteq> w" by (auto simp: ends_with_def)
  then have no: "\<not> starts_with ?K (dq # json_escape t @ dq # y)"
    using starts_key_esc[OF assms(1)] by auto
  from assms(2) have "\<not> ends_with (dq # w) t" by (metis append_Cons ends_with_iff)
  then show ?thesis
    by (simp only: find_sub_step[OF no] find_sub_skip_esc[OF assms(1), of t] shift_Suc not_False_eq_True)
qed

lemma find_sub_skip_key:
  assumes "dq \<notin> set w" and "dq \<notin> set k" and "k \<noteq> w"
  shows "find_sub (dq # w @ [dq]) (dq # k @ dq # y) =
    map_option ((+) (Suc (length k))) (find_sub (dq # w @ [dq]) (dq # y))"
proof -
  have no: "\<not> starts_with (dq # w @ [dq]) (dq # k @ dq # y)"
  proof
    assume "starts_with (dq # w @ [dq]) (dq # k @ dq # y)"
    then obtain r where "k @ dq # y = w @ dq # r" by (auto simp: starts_with_iff)
    with assms(3) first_delim_unique[OF assms(2,1)] show False by blast
  qed
  show ?thesis by (simp only: find_sub_step[OF no] find_sub_skip[OF assms(2)] shift_Suc)
qed


section \<open>The severity and score fields hold no quote\<close>

lemma fmt_fixed_no_dq: "dq \<notin> set (fmt_fixed d x)"
proof -
  have "dq \<notin> set (nat_to_string n)" for n
    using nat_to_string_digits[of dq n] by (auto simp: is_digit_def)
  then show ?thesis by (auto simp: fmt_fixed_def zero_pad_def Let_def)
qed

lemma severity_format_no_dq: "dq \<notin> set (severity_format sev)"
proof -
  have "dq \<notin> set (severity_label l)" for l by (cases l) auto
  moreover have "dq \<notin> set (cvss_rating c)" for c by (simp add: cvss_rating_def)
  ultimately show ?thesis
    using fmt_fixed_no_dq[of 1 "cvss sev"] by (auto simp: severity_format_def dest!: in_set_takeD)
qed

lemma severity_format_hd: "severity_format sev \<noteq> CHR ''s'' # r"
  by (cases "level sev") (simp_all add: severity_format_def)

lemma severity_format_not_key: "\<not> ends_with (dq # ''snippet'') (dq # severity_format sev)"
proof
  assume "ends_with (dq # ''snippet'') (dq # severity_format sev)"
  then obtain u where u: "dq # severity_format sev = u @ dq # ''snippet''"
    by (auto simp: ends_with_iff)
  with severity_format_no_dq[of sev] severity_format_hd[of sev] show False
    by (cases u) auto
qed

section \<open>What the producer writes, the parser reads\<close>

lemma build_alert_json_snippet_tail:
  "find_sub (dq # ''snippet'' @ [dq]) (build_alert_json t sev sn) = Some n \<Longrightarrow>
   drop n (build_alert_json t sev sn) =
     dq # ''snippet'' @ dq # '': '' @ dq # json_escape sn @ dq # ''}'' \<Longrightarrow>
   extract_json_field (build_alert_json t sev sn) ''snippet'' = concat (map reread_char sn)"
proof -
  let ?J = "build_alert_json t sev sn"
  let ?r = "dq # json_escape sn @ dq # ''}''"
  assume f: "find_sub (dq # ''snippet'' @ [dq]) ?J = Some n"
    and d: "drop n ?J = dq # ''snippet'' @ dq # '': '' @ ?r"
  then have n: "n + 9 \<le> length ?J"
    using find_sub_bound[OF f] by simp
  have d9: "drop (n + 9) ?J = '': '' @ ?r"
    using arg_cong[OF d, of "drop 9"] by (simp add: add.commute)
  have d10: "drop (n + 10) ?J = CHR '' '' # ?r"
    using arg_cong[OF d, of "drop 10"] by (simp add: add.commute)
  have d12: "drop (n + 12) ?J = json_escape sn @ dq # ''}''"
    using arg_cong[OF d, of "drop 12"] by (simp add: add.commute)
  have len: "n + 12 \<le> length ?J" using d12 by (metis Nil_is_append_conv drop_all list.distinct(1) nat_le_linear)
  have col: "find_from '':'' ?J (n + 9) = Some (n + 9)"
    using n d9 by (simp add: find_from_def find_sub.simps)
  have quo: "find_from [dq] ?J (n + 10) = Some (n + 11)"
    using len d10 by (simp add: find_from_def find_sub.simps)
  show ?thesis
    using f col quo d12 read_quoted_json_escape[of sn "''}''"]
    by (simp add: extract_json_field_def eval_nat_numeral)
qed

lemma find_snippet_key:
  assumes "\<not> ends_with (dq # ''snippet'') (dq # t)"
  shows "\<exists>n. find_sub (dq # ''snippet'' @ [dq]) (build_alert_json t sev sn) = Some n \<and>
    drop n (build_alert_json t sev sn) =
      dq # ''snippet'' @ dq # '': '' @ dq # json_escape sn @ dq # ''}''"
proof -
  let ?K = "dq # ''snippet'' @ [dq]"
  let ?sev = "json_escape (severity_format sev)" and ?cv = "fmt_fixed 6 (cvss sev)"
  let ?z = "dq # ''snippet'' @ dq # '': '' @ dq # json_escape sn @ dq # ''}''"
  have pk: "plain_key ''snippet''" by (simp add: plain_key_def)
  have key: "find_sub ?K (dq # k @ dq # y) = map_option ((+) (Suc (length k))) (find_sub ?K (dq # y))"
    if "dq \<notin> set k" "k \<noteq> ''snippet''" for k y
    using that by (intro find_sub_skip_key) auto
  have val: "find_sub ?K (dq # json_escape v @ dq # y) =
      map_option ((+) (Suc (length (json_escape v)))) (find_sub ?K (dq # y))"
    if "\<not> ends_with (dq # ''snippet'') (dq # v)" for v y
    using that by (intro find_sub_skip_value[OF pk]) auto
  have z: "find_sub ?K ?z = Some 0" by (simp add: find_sub.simps)
  \<comment> \<open>the text in front of the key, as quoted pieces and quote-free separators\<close>
  define a5 where "a5 = dq # ''cvss'' @ dq # ('': '' @ ?cv @ '', '') @ ?z"
  define a4 where "a4 = dq # ?sev @ dq # '', '' @ a5"
  define a3 where "a3 = dq # ''severity'' @ dq # '': '' @ a4"
  define a2 where "a2 = dq # json_escape t @ dq # '', '' @ a3"
  define a1 where "a1 = ''{'' @ dq # ''threat_type'' @ dq # '': '' @ a2"
  have J: "build_alert_json t sev sn = a1"
    by (simp add: build_alert_json_def a1_def a2_def a3_def a4_def a5_def)
  define sk where "sk x = (\<exists>n. find_sub ?K x = Some n \<and> drop n x = ?z)" for x
  have skI: "sk (x @ y)" if "sk y" "find_sub ?K (x @ y) = map_option ((+) (length x)) (find_sub ?K y)" for x y
    using that by (auto simp: sk_def)
  have sep: "sk (x @ y)" if "sk y" "dq \<notin> set x" for x y
    using that find_sub_skip[OF that(2)] by (intro skI) auto
  have piece: "sk (dq # k @ dq # x @ y)"
    if "sk y" "dq \<notin> set x" "\<And>y'. find_sub ?K (dq # k @ dq # y') = map_option ((+) (Suc (length k))) (find_sub ?K (dq # y'))"
      "\<And>y'. find_sub ?K (dq # x @ y') = map_option Suc (find_sub ?K (x @ y'))" for k x y
  proof -
    have "sk ((dq # x) @ y)"
      using that(1,2,4) find_sub_skip[OF that(2), of "''snippet'' @ [dq]" y]
      by (intro skI) simp_all
    with that(3)[of "x @ y"] show ?thesis by (intro skI[of "dq # x @ y" "dq # k", simplified]) simp_all
  qed
  have zs: "sk ?z" using z by (simp add: sk_def)
  have s5: "sk a5"
    unfolding a5_def
    by (rule piece[OF zs _ key]) (use fmt_fixed_no_dq[of 6 "cvss sev"] in \<open>auto simp: find_sub.simps\<close>)
  have s4: "sk a4"
    unfolding a4_def
    by (rule piece[OF s5 _ val[OF severity_format_not_key]]) (auto simp: find_sub.simps)
  have s3: "sk a3"
    unfolding a3_def by (rule piece[OF s4 _ key]) (auto simp: find_sub.simps)
  have s2: "sk a2"
    unfolding a2_def by (rule piece[OF s3 _ val[OF assms]]) (auto simp: find_sub.simps)
  have "sk (dq # ''threat_type'' @ dq # '': '' @ a2)"
    by (rule piece[OF s2 _ key]) (auto simp: find_sub.simps)
  then have "sk a1" unfolding a1_def by (intro sep) auto
  then show ?thesis by (simp add: J sk_def)
qed

lemma build_alert_json_threat_type:
  "extract_json_field (build_alert_json t sev sn) ''threat_type'' = concat (map reread_char t)"
proof -
  obtain y where J: "build_alert_json t sev sn =
      ''{'' @ dq # ''threat_type'' @ dq # '': '' @ dq # json_escape t @ dq # y"
    by (simp add: build_alert_json_def)
  have "find_sub (dq # ''threat_type'' @ [dq]) (build_alert_json t sev sn) = Some 1"
    by (simp add: J find_sub.simps)
  then show ?thesis
    using read_quoted_json_escape[of t y]
    by (simp add: extract_json_field_def J find_from_def find_sub.simps eval_nat_numeral)
qed

text \<open>
  C34: for every threat type that does not itself end in the quoted key, the parser reads the snippet of
  a built alert back as the snippet in which each control character other than newline, carriage
  return and tab is replaced by its escape without the backslash.
\<close>
theorem alert_snippet_reread:
  assumes "\<not> ends_with (dq # ''snippet'') (dq # t)"
  shows "extract_json_field (build_alert_json t sev sn) ''snippet'' = concat (map reread_char sn)"
  using find_snippet_key[OF assms] build_alert_json_snippet_tail by blast

theorem alert_snippet_reread_witness:
  "extract_json_field (build_alert_json ''SQLi'' \<lparr>level = High, cvss = 8\<rparr> ''a'') ''snippet'' = ''a''"
proof -
  have "\<not> ends_with (dq # ''snippet'') (dq # ''SQLi'')" by code_simp
  from alert_snippet_reread[OF this, of "\<lparr>level = High, cvss = 8\<rparr>" "''a''"] show ?thesis
    by (simp add: reread_char_def control_char_def)
qed

end
