(* ===== verification/Flow_Queue.thy ===== *)
theory Flow_Queue
  imports Wire_Prelude "HOL-Library.Multiset"
begin

text \<open>
  \<^verbatim>\<open>include/thread_safe_queue.hpp\<close>: the bounded queue between the pipeline stages.  The
  \<^verbatim>\<open>std::multimap<int, T, std::greater<int>>\<close> is the list of its entries in iteration order.  Each
  member function is one atomic step under the mutex; a wait on a condition variable is an outcome of
  its own, and the code after the wait is a second step.  The step relation interleaves any number of
  producers and consumers.
\<close>

record 'a flow_queue =
  q :: "(int \<times> 'a) list"
  finished :: bool
  blocking :: bool
  max_capacity :: nat
  dropped_count :: nat

definition new_queue :: "nat \<Rightarrow> 'a flow_queue" where
  "new_queue capacity =
     \<lparr>q = [], finished = False, blocking = False, max_capacity = capacity, dropped_count = 0\<rparr>"

section \<open>The multimap\<close>

fun emplace :: "int \<Rightarrow> 'a \<Rightarrow> (int \<times> 'a) list \<Rightarrow> (int \<times> 'a) list" where
  "emplace p x [] = [(p, x)]"
| "emplace p x ((k, y) # m) = (if p \<le> k then (k, y) # emplace p x m else (p, x) # (k, y) # m)"

definition first_entry :: "(int \<times> 'a) list \<Rightarrow> ((int \<times> 'a) \<times> (int \<times> 'a) list) option" where
  "first_entry m = (case m of [] \<Rightarrow> None | e # m' \<Rightarrow> Some (e, m'))"

definition prio_sorted :: "(int \<times> 'a) list \<Rightarrow> bool" where
  "prio_sorted m = sorted_wrt (\<lambda>a b. fst b \<le> fst a) m"

definition band :: "(int \<times> 'a) list \<Rightarrow> int \<Rightarrow> 'a list" where
  "band m p = map snd (filter (\<lambda>e. fst e = p) m)"

section \<open>Operations\<close>

text \<open>\<open>Undefined\<close> is \<open>std::prev(q.end())\<close> on an empty map, which a capacity of 0 would reach.\<close>

datatype 'a push_result = Pushed "'a flow_queue" | Push_waits | Undefined

definition count_drop :: "'a flow_queue \<Rightarrow> 'a flow_queue" where
  "count_drop s = s\<lparr>dropped_count := dropped_count s + 1\<rparr>"

definition push :: "'a \<Rightarrow> int \<Rightarrow> 'a flow_queue \<Rightarrow> 'a push_result" where
  "push item priority s =
     (if length (q s) \<ge> max_capacity s then
        (if \<not> blocking s then
           (if q s = [] then Undefined
            else if priority > fst (last (q s))
              then Pushed ((count_drop s)\<lparr>q := emplace priority item (butlast (q s))\<rparr>)
              else Pushed (count_drop s))
         else if length (q s) < max_capacity s \<or> finished s \<or> \<not> blocking s
           then Pushed (count_drop s)
         else Push_waits)
      else Pushed (s\<lparr>q := emplace priority item (q s)\<rparr>))"

text \<open>The rest of \<open>push\<close> after \<open>cv_push.wait\<close> returns.\<close>

definition push_ready :: "'a flow_queue \<Rightarrow> bool" where
  "push_ready s = (length (q s) < max_capacity s \<or> finished s \<or> \<not> blocking s)"

definition push_resume :: "'a \<Rightarrow> int \<Rightarrow> 'a flow_queue \<Rightarrow> 'a flow_queue" where
  "push_resume item priority s =
     (if length (q s) \<ge> max_capacity s then count_drop s
      else s\<lparr>q := emplace priority item (q s)\<rparr>)"

datatype 'a pop_result = Popped 'a "'a flow_queue" | Pop_closed | Pop_waits

definition pop :: "'a flow_queue \<Rightarrow> 'a pop_result" where
  "pop s =
     (case first_entry (q s) of
        None \<Rightarrow> if finished s then Pop_closed else Pop_waits
      | Some (e, m) \<Rightarrow> Popped (snd e) (s\<lparr>q := m\<rparr>))"

definition finish :: "'a flow_queue \<Rightarrow> 'a flow_queue" where
  "finish s = s\<lparr>finished := True\<rparr>"

definition set_blocking :: "bool \<Rightarrow> 'a flow_queue \<Rightarrow> 'a flow_queue" where
  "set_blocking enable s = s\<lparr>blocking := enable\<rparr>"

definition queue_size :: "'a flow_queue \<Rightarrow> nat" where
  "queue_size s = length (q s)"

lemmas queue_ops = push_def push_resume_def push_ready_def pop_def finish_def set_blocking_def
  count_drop_def first_entry_def

section \<open>Priority bands: the abstract queue\<close>

primrec drain :: "('s \<Rightarrow> ('e \<times> 's) option) \<Rightarrow> nat \<Rightarrow> 's \<Rightarrow> 'e list" where
  "drain deq 0 s = []"
| "drain deq (Suc n) s = (case deq s of None \<Rightarrow> [] | Some (e, s') \<Rightarrow> e # drain deq n s')"

text \<open>
  What a stage relies on: one FIFO list per priority, the highest non-empty one served first.
\<close>

locale priority_bands =
  fixes bands :: "'s \<Rightarrow> int \<Rightarrow> 'a list"
    and enq :: "int \<Rightarrow> 'a \<Rightarrow> 's \<Rightarrow> 's"
    and deq :: "'s \<Rightarrow> ((int \<times> 'a) \<times> 's) option"
    and invar :: "'s \<Rightarrow> bool"
  assumes bands_enq: "invar s \<Longrightarrow> bands (enq p x s) = (bands s)(p := bands s p @ [x])"
    and deq_None: "invar s \<Longrightarrow> deq s = None \<longleftrightarrow> (\<forall>p. bands s p = [])"
    and deq_Some: "invar s \<Longrightarrow> deq s = Some ((p, x), s') \<Longrightarrow>
      bands s = (bands s')(p := x # bands s' p) \<and> (\<forall>p' > p. bands s p' = [])"
    and invar_enq: "invar s \<Longrightarrow> invar (enq p x s)"
    and invar_deq: "invar s \<Longrightarrow> deq s = Some (e, s') \<Longrightarrow> invar s'"
begin

lemma drain_priorities:
  "invar s \<Longrightarrow> (\<forall>p' > p. bands s p' = []) \<Longrightarrow> e \<in> set (drain deq n s) \<Longrightarrow> fst e \<le> p"
proof (induction n arbitrary: s p)
  case 0
  then show ?case by simp
next
  case (Suc n)
  show ?case
  proof (cases "deq s")
    case None
    with Suc.prems show ?thesis by simp
  next
    case (Some es)
    obtain p1 x1 s' where es: "es = ((p1, x1), s')" by (metis prod.exhaust)
    note d = deq_Some[OF Suc.prems(1) Some[unfolded es]]
    have le: "p1 \<le> p" using d Suc.prems(2) by (metis fun_upd_same list.distinct(1) linorder_not_le)
    have "\<forall>p' > p. bands s' p' = []"
      using d le Suc.prems(2) by (metis fun_upd_other linorder_not_le)
    with Suc.IH[OF invar_deq[OF Suc.prems(1) Some[unfolded es]], of p] Suc.prems(3) le
    show ?thesis by (auto simp: Some es)
  qed
qed

lemma drain_sorted: "invar s \<Longrightarrow> sorted_wrt (\<lambda>a b. fst b \<le> fst a) (drain deq n s)"
proof (induction n arbitrary: s)
  case 0
  then show ?case by simp
next
  case (Suc n)
  show ?case
  proof (cases "deq s")
    case None
    then show ?thesis by simp
  next
    case (Some es)
    obtain p1 x1 s' where es: "es = ((p1, x1), s')" by (metis prod.exhaust)
    note d = deq_Some[OF Suc.prems Some[unfolded es]]
    have i: "invar s'" by (rule invar_deq[OF Suc.prems Some[unfolded es]])
    have top: "\<forall>p' > p1. bands s' p' = []" using d by (metis fun_upd_other less_irrefl)
    show ?thesis
      using drain_priorities[OF i top] Suc.IH[OF i] by (auto simp: Some es)
  qed
qed

lemma drain_fifo:
  "invar s \<Longrightarrow> \<exists>r. bands s p = map snd (filter (\<lambda>e. fst e = p) (drain deq n s)) @ r"
proof (induction n arbitrary: s)
  case 0
  then show ?case by simp
next
  case (Suc n)
  show ?case
  proof (cases "deq s")
    case None
    then show ?thesis by simp
  next
    case (Some es)
    obtain p1 x1 s' where es: "es = ((p1, x1), s')" by (metis prod.exhaust)
    note d = deq_Some[OF Suc.prems Some[unfolded es]]
    obtain r where "bands s' p = map snd (filter (\<lambda>e. fst e = p) (drain deq n s')) @ r"
      using Suc.IH[OF invar_deq[OF Suc.prems Some[unfolded es]]] by blast
    with d show ?thesis by (auto simp: Some es)
  qed
qed

end

section \<open>The multimap implements the bands\<close>

lemma set_emplace: "set (emplace p x m) = insert (p, x) (set m)"
  by (induction p x m rule: emplace.induct) auto

lemma mset_emplace: "mset (emplace p x m) = add_mset (p, x) (mset m)"
  by (induction p x m rule: emplace.induct) auto

lemma length_emplace [simp]: "length (emplace p x m) = Suc (length m)"
  by (induction p x m rule: emplace.induct) auto

lemma prio_sorted_Cons: "prio_sorted (e # m) \<longleftrightarrow> (\<forall>e' \<in> set m. fst e' \<le> fst e) \<and> prio_sorted m"
  by (simp add: prio_sorted_def)

lemma prio_sorted_Nil [simp]: "prio_sorted []"
  by (simp add: prio_sorted_def)

lemma prio_sorted_emplace: "prio_sorted m \<Longrightarrow> prio_sorted (emplace p x m)"
  by (induction p x m rule: emplace.induct) (auto simp: prio_sorted_Cons set_emplace)

lemma prio_sorted_butlast: "prio_sorted m \<Longrightarrow> prio_sorted (butlast m)"
  by (cases m rule: rev_cases) (auto simp: prio_sorted_def sorted_wrt_append)

lemma prio_sorted_last: "prio_sorted m \<Longrightarrow> e \<in> set m \<Longrightarrow> fst (last m) \<le> fst e"
  by (cases m rule: rev_cases) (auto simp: prio_sorted_def sorted_wrt_append)

lemma band_Nil [simp]: "band [] p = []"
  by (simp add: band_def)

lemma band_Cons: "band (e # m) p = (if fst e = p then [snd e] else []) @ band m p"
  by (simp add: band_def)

lemma band_empty_above: "(\<forall>e \<in> set m. fst e < p) \<Longrightarrow> band m p = []"
  by (induction m) (auto simp: band_def)

lemma band_emplace: "prio_sorted m \<Longrightarrow> band (emplace p x m) = (band m)(p := band m p @ [x])"
proof (induction p x m rule: emplace.induct)
  case (1 p x)
  show ?case by (auto simp: band_def)
next
  case (2 p x k y m)
  show ?case
  proof (cases "p \<le> k")
    case True
    with 2 show ?thesis by (auto simp: prio_sorted_Cons band_Cons fun_eq_iff)
  next
    case False
    with 2 have "band m p = []" by (intro band_empty_above) (auto simp: prio_sorted_Cons)
    with False show ?thesis by (auto simp: band_Cons fun_eq_iff)
  qed
qed

interpretation fq: priority_bands band emplace first_entry prio_sorted
proof
  fix m :: "(int \<times> 'a) list"
  show "first_entry m = None \<longleftrightarrow> (\<forall>p. band m p = [])"
    by (cases m) (auto simp: first_entry_def band_Cons)
next
  fix m m' :: "(int \<times> 'a) list" and p x
  assume "prio_sorted m" "first_entry m = Some ((p, x), m')"
  then have m: "m = (p, x) # m'" "\<forall>e \<in> set m'. fst e \<le> p"
    by (auto simp: first_entry_def prio_sorted_Cons split: list.splits)
  moreover have "band m p' = []" if "p < p'" for p'
    using m that by (intro band_empty_above) auto
  ultimately show "band m = (band m')(p := x # band m' p) \<and> (\<forall>p' > p. band m p' = [])"
    by (auto simp: band_Cons fun_eq_iff)
qed (auto simp: band_emplace prio_sorted_emplace first_entry_def prio_sorted_Cons split: list.splits)

section \<open>Producers and consumers\<close>

text \<open>
  The state of all parties: the queue, the pushers that wait for space, the items handed to consumers
  (in order) and, as history, every item ever offered.
\<close>

record 'a queue_sys =
  queue :: "'a flow_queue"
  waiting :: "(int \<times> 'a) multiset"
  taken :: "'a list"
  offered :: "'a multiset"

definition init_sys :: "nat \<Rightarrow> 'a queue_sys" where
  "init_sys capacity = \<lparr>queue = new_queue capacity, waiting = {#}, taken = [], offered = {#}\<rparr>"

inductive q_step :: "'a queue_sys \<Rightarrow> 'a queue_sys \<Rightarrow> bool" where
  push_now: "push x p (queue s) = Pushed q' \<Longrightarrow>
     q_step s (s\<lparr>queue := q', offered := add_mset x (offered s)\<rparr>)"
| push_block: "push x p (queue s) = Push_waits \<Longrightarrow>
     q_step s (s\<lparr>waiting := add_mset (p, x) (waiting s), offered := add_mset x (offered s)\<rparr>)"
| push_wake: "(p, x) \<in># waiting s \<Longrightarrow> push_ready (queue s) \<Longrightarrow>
     q_step s (s\<lparr>queue := push_resume x p (queue s), waiting := waiting s - {#(p, x)#}\<rparr>)"
| take: "pop (queue s) = Popped x q' \<Longrightarrow>
     q_step s (s\<lparr>queue := q', taken := taken s @ [x]\<rparr>)"
| close: "q_step s (s\<lparr>queue := finish (queue s)\<rparr>)"
| mode: "q_step s (s\<lparr>queue := set_blocking b (queue s)\<rparr>)"

inductive_cases q_stepE: "q_step s t"

inductive reachable :: "nat \<Rightarrow> 'a queue_sys \<Rightarrow> bool" for capacity where
  start: "reachable capacity (init_sys capacity)"
| step: "reachable capacity s \<Longrightarrow> q_step s t \<Longrightarrow> reachable capacity t"

definition queue_ok :: "nat \<Rightarrow> 'a flow_queue \<Rightarrow> bool" where
  "queue_ok capacity s \<longleftrightarrow>
     max_capacity s = capacity \<and> length (q s) \<le> capacity \<and> prio_sorted (q s)"

lemma push_ok:
  assumes "queue_ok c s" and "push x p s = Pushed s'"
  shows "queue_ok c s' \<and> length (q s') + dropped_count s' = Suc (length (q s) + dropped_count s)"
  using assms
  by (cases "q s = []")
     (auto simp: queue_ok_def queue_ops prio_sorted_emplace prio_sorted_butlast prio_sorted_Cons
       split: if_splits)

lemma push_resume_ok:
  assumes "queue_ok c s"
  shows "queue_ok c (push_resume x p s) \<and>
    length (q (push_resume x p s)) + dropped_count (push_resume x p s) =
      Suc (length (q s) + dropped_count s)"
  using assms by (auto simp: queue_ok_def queue_ops prio_sorted_emplace)

lemma pop_ok:
  assumes "queue_ok c s" and "pop s = Popped x s'"
  shows "queue_ok c s' \<and> dropped_count s' = dropped_count s \<and> length (q s) = Suc (length (q s'))"
  using assms
  by (auto simp: queue_ok_def queue_ops prio_sorted_Cons split: list.splits if_splits)

definition sys_ok :: "nat \<Rightarrow> 'a queue_sys \<Rightarrow> bool" where
  "sys_ok capacity s \<longleftrightarrow> queue_ok capacity (queue s) \<and>
     size (offered s) =
       length (taken s) + length (q (queue s)) + size (waiting s) + dropped_count (queue s)"

lemma q_step_ok: "q_step s t \<Longrightarrow> sys_ok c s \<Longrightarrow> sys_ok c t"
proof (induction rule: q_step.induct)
  case (push_now x p s q')
  then show ?case using push_ok[of c "queue s" x p q'] by (auto simp: sys_ok_def)
next
  case (push_wake p x s)
  then have "size (waiting s) = Suc (size (waiting s - {#(p, x)#}))"
    by (metis insert_DiffM size_add_mset)
  with push_wake show ?case using push_resume_ok[of c "queue s" x p] by (auto simp: sys_ok_def)
next
  case (take s x q')
  then show ?case using pop_ok[of c "queue s" x q'] by (auto simp: sys_ok_def)
qed (auto simp: sys_ok_def queue_ok_def finish_def set_blocking_def)

lemma reachable_ok: "reachable c s \<Longrightarrow> sys_ok c s"
proof (induction rule: reachable.induct)
  case start
  show ?case by (simp add: sys_ok_def queue_ok_def init_sys_def new_queue_def)
next
  case (step s t)
  then show ?case by (blast intro: q_step_ok)
qed

lemma queue_invariant_sorted: "reachable c s \<Longrightarrow> prio_sorted (q (queue s))"
  using reachable_ok by (auto simp: sys_ok_def queue_ok_def)

text \<open>Backpressure: the steps of a run in which the mode stays blocking and the queue stays open.\<close>

definition holding :: "'a queue_sys \<Rightarrow> bool" where
  "holding s = (blocking (queue s) \<and> \<not> finished (queue s))"

inductive held_run :: "'a queue_sys \<Rightarrow> 'a queue_sys \<Rightarrow> bool" where
  refl: "held_run s s"
| more: "held_run s t \<Longrightarrow> q_step t u \<Longrightarrow> holding u \<Longrightarrow> held_run s u"

definition accounted :: "'a queue_sys \<Rightarrow> bool" where
  "accounted s \<longleftrightarrow> dropped_count (queue s) = 0 \<and>
     offered s = mset (taken s) + image_mset snd (mset (q (queue s))) + image_mset snd (waiting s)"

lemma q_step_accounted:
  assumes "q_step s t" and "holding s" and "holding t" and "accounted s"
  shows "accounted t"
  using assms
proof (induction rule: q_step.induct)
  case (push_now x p s q')
  then show ?case
    by (auto simp: accounted_def holding_def queue_ops mset_emplace split: if_splits)
next
  case (push_block x p s)
  then show ?case by (simp add: accounted_def)
next
  case (push_wake p x s)
  from push_wake.hyps(1) have w: "waiting s = add_mset (p, x) (waiting s - {#(p, x)#})" by simp
  have "image_mset snd (waiting s) = add_mset x (image_mset snd (waiting s - {#(p, x)#}))"
    by (subst w) simp
  with push_wake show ?case
    by (auto simp: accounted_def holding_def queue_ops mset_emplace)
next
  case (take s x q')
  then show ?case by (auto simp: accounted_def queue_ops split: list.splits if_splits)
qed (auto simp: accounted_def holding_def finish_def set_blocking_def)

lemma held_run_accounted:
  "held_run s t \<Longrightarrow> holding s \<Longrightarrow> accounted s \<Longrightarrow> holding t \<and> accounted t"
  by (induction rule: held_run.induct) (auto intro: q_step_accounted)

section \<open>Properties\<close>


lemma reachable_push:
  "reachable 1 \<lparr>queue = \<lparr>q = [(2, 7::nat)], finished = False, blocking = False, max_capacity = 1,
     dropped_count = 0\<rparr>, waiting = {#}, taken = [], offered = {#7#}\<rparr>"
proof -
  have "q_step (init_sys 1 :: nat queue_sys) ((init_sys 1)\<lparr>queue := (new_queue 1)\<lparr>q := [(2, 7)]\<rparr>,
      offered := add_mset 7 {#}\<rparr>)"
    using q_step.push_now[of 7 2 "init_sys 1 :: nat queue_sys"]
    by (simp add: init_sys_def new_queue_def push_def)
  from reachable.step[OF reachable.start this] show ?thesis
    by (simp add: init_sys_def new_queue_def)
qed


text \<open>
  C16: the emergency drop of a full, non-blocking queue loses exactly one entry of the queue together
  with the new one, never one of higher priority than an entry that is kept, and counts it.
\<close>
theorem emergency_drop_keeps_most_suspicious:
  assumes "queue_ok c s" and "0 < c" and "length (q s) = c" and "\<not> blocking s"
  shows "\<exists>s' d. push x p s = Pushed s' \<and> d \<in># add_mset (p, x) (mset (q s)) \<and>
    mset (q s') = add_mset (p, x) (mset (q s)) - {#d#} \<and>
    (\<forall>e \<in> set (q s'). fst d \<le> fst e) \<and> dropped_count s' = Suc (dropped_count s)"
proof -
  from assms have ne: "q s \<noteq> []" by auto
  then have split: "mset (q s) = add_mset (last (q s)) (mset (butlast (q s)))"
    by (cases "q s" rule: rev_cases) auto
  have sorted: "prio_sorted (q s)" using assms(1) by (simp add: queue_ok_def)
  note low = prio_sorted_last[OF sorted]
  show ?thesis
  proof (cases "p > fst (last (q s))")
    case True
    let ?s' = "(count_drop s)\<lparr>q := emplace p x (butlast (q s))\<rparr>"
    have "push x p s = Pushed ?s'"
      using True ne assms by (simp add: push_def queue_ok_def)
    moreover have "mset (q ?s') = add_mset (p, x) (mset (q s)) - {#last (q s)#}"
      by (simp add: mset_emplace split)
    moreover have "\<forall>e \<in> set (q ?s'). fst (last (q s)) \<le> fst e"
      using True low by (auto simp: set_emplace dest: in_set_butlastD)
    ultimately show ?thesis
      using ne by (intro exI[of _ ?s'] exI[of _ "last (q s)"]) (auto simp: count_drop_def)
  next
    case False
    then have "push x p s = Pushed (count_drop s)"
      using ne assms by (simp add: push_def queue_ok_def)
    moreover have "\<forall>e \<in> set (q s). p \<le> fst e" using False low by fastforce
    ultimately show ?thesis
      by (intro exI[of _ "count_drop s"] exI[of _ "(p, x)"]) (auto simp: count_drop_def)
  qed
qed

theorem emergency_drop_keeps_most_suspicious_witness:
  "\<exists>s' d. push ''b'' 2 \<lparr>q = [(1, ''a'')], finished = False, blocking = False, max_capacity = 1,
     dropped_count = 0\<rparr> = Pushed s' \<and> d \<in># {#(2, ''b''), (1, ''a'')#} \<and>
     mset (q s') = {#(2, ''b''), (1, ''a'')#} - {#d#} \<and> (\<forall>e \<in> set (q s'). fst d \<le> fst e) \<and>
     dropped_count s' = 1"
  using emergency_drop_keeps_most_suspicious[of 1 "\<lparr>q = [(1, ''a'')], finished = False,
    blocking = False, max_capacity = 1, dropped_count = 0\<rparr>" "''b''" 2]
  by (simp add: queue_ok_def prio_sorted_def)

text \<open>
  whatever was pushed before, the entries served by any number of pops come in descending priority,
  and within one priority they are a prefix of that priority's items in the order of their insertion.
\<close>
theorem drain_order:
  assumes "reachable capacity s"
  shows "sorted_wrt (\<lambda>a b. fst b \<le> fst a) (drain first_entry n (q (queue s))) \<and>
    (\<exists>r. band (q (queue s)) p =
       map snd (filter (\<lambda>e. fst e = p) (drain first_entry n (q (queue s)))) @ r)"
  using queue_invariant_sorted[OF assms] fq.drain_sorted fq.drain_fifo by blast

theorem drain_order_witness:
  "\<exists>s :: nat queue_sys. reachable 1 s \<and> drain first_entry 5 (q (queue s)) = [(2, 7)] \<and>
     sorted_wrt (\<lambda>a b. fst b \<le> fst a) (drain first_entry 5 (q (queue s)))"
  using reachable_push drain_order[OF reachable_push, of 5 2]
  by (intro exI conjI) (auto simp: first_entry_def eval_nat_numeral)

text \<open>
  backpressure loses nothing: as long as the queue stays in blocking mode and open, no item is
  dropped, and every offered item has been taken, is queued, or is held by a waiting producer.
\<close>
theorem backpressure_lossless:
  assumes "held_run s t" and "holding s" and "accounted s"
  shows "dropped_count (queue t) = 0 \<and> offered t =
    mset (taken t) + image_mset snd (mset (q (queue t))) + image_mset snd (waiting t)"
  using held_run_accounted[OF assms] by (simp add: accounted_def)

theorem backpressure_lossless_witness:
  "\<exists>t. held_run ((init_sys 1)\<lparr>queue := set_blocking True (new_queue 1)\<rparr>) t \<and>
     offered t = {#''f''#} \<and> dropped_count (queue t) = 0"
proof -
  let ?s = "(init_sys 1)\<lparr>queue := set_blocking True (new_queue 1)\<rparr>"
  let ?t = "?s\<lparr>queue := (queue ?s)\<lparr>q := [(0, ''f'')]\<rparr>, offered := add_mset ''f'' {#}\<rparr>"
  have "q_step ?s ?t"
    using q_step.push_now[of "''f''" 0 ?s]
    by (simp add: init_sys_def new_queue_def set_blocking_def push_def)
  then have r: "held_run ?s ?t"
    by (intro held_run.more[OF held_run.refl]) (simp_all add: holding_def set_blocking_def new_queue_def)
  have h: "holding ?s" and a: "accounted ?s"
    by (simp_all add: holding_def accounted_def init_sys_def new_queue_def set_blocking_def)
  from r backpressure_lossless[OF r h a] show ?thesis by (intro exI[of _ ?t]) simp
qed

text \<open>
  with a capacity above zero the queue never runs into the undefined \<open>std::prev\<close> of an empty map,
  a push waits only in blocking mode, and a pop waits only on an empty queue that is still open.
\<close>
theorem queue_outcomes:
  assumes "queue_ok c s" and "0 < c"
  shows "push x p s \<noteq> Undefined \<and> (push x p s = Push_waits \<longrightarrow> blocking s \<and> length (q s) = c) \<and>
    (pop s = Pop_waits \<longleftrightarrow> q s = [] \<and> \<not> finished s) \<and>
    (pop s = Pop_closed \<longleftrightarrow> q s = [] \<and> finished s)"
  using assms by (auto simp: queue_ok_def queue_ops split: if_splits list.splits)

theorem queue_outcomes_witness: "push (0::nat) 1 (new_queue 3) \<noteq> Undefined"
  using queue_outcomes[of 3 "new_queue 3" "0::nat" 1] by (simp add: queue_ok_def new_queue_def)

end
