(* ===== verification/Payload_Normalizer.thy ===== *)
theory Payload_Normalizer
  imports Wire_Prelude
begin

text \<open>
  \<^verbatim>\<open>include/payload_normalizer.hpp\<close>: the anti-evasion canonicalisation of payloads.  The
  index loops over the string are recursions over its remaining suffix.  The lemmas show the canonical
  form of the result, its bound, and which depth of percent-encoding it sees through.
\<close>

definition hex_val :: "char \<Rightarrow> nat option" where
  "hex_val c =
     (let n = (of_char c :: nat) in
      if 48 \<le> n \<and> n \<le> 57 then Some (n - 48)
      else if 97 \<le> n \<and> n \<le> 102 then Some (n - 97 + 10)
      else if 65 \<le> n \<and> n \<le> 70 then Some (n - 65 + 10)
      else None)"

definition hex_pair :: "char \<Rightarrow> char \<Rightarrow> char option" where
  "hex_pair a b =
     (case hex_val a of None \<Rightarrow> None
      | Some h1 \<Rightarrow> (case hex_val b of None \<Rightarrow> None | Some h2 \<Rightarrow> Some (char_of (16 * h1 + h2))))"

text \<open>One pass; the flag is the \<open>changed\<close> out-parameter.\<close>

function percent_decode_once :: "string \<Rightarrow> string \<times> bool" where
  "percent_decode_once [] = ([], False)"
| "percent_decode_once (c # cs) =
     (let keep = (\<lambda>d ch. case percent_decode_once cs of (r, b) \<Rightarrow> (d # r, ch \<or> b));
          decoded = (\<lambda>d n. (d # fst (percent_decode_once (drop n cs)), True))
      in if c = CHR ''%'' \<and> cs \<noteq> [] \<and> (hd cs = CHR ''u'' \<or> hd cs = CHR ''U'')
         then (if 5 \<le> length cs
               then (case hex_pair (cs ! 3) (cs ! 4) of Some d \<Rightarrow> decoded d 5 | None \<Rightarrow> keep c False)
               else keep c False)
         else if c = CHR ''%'' \<and> 2 \<le> length cs
         then (case hex_pair (cs ! 0) (cs ! 1) of Some d \<Rightarrow> decoded d 2 | None \<Rightarrow> keep c False)
         else if c = CHR ''+'' then keep CHR '' '' True
         else keep c False)"
  by pat_completeness auto
termination by (relation "measure length") auto

definition max_norm :: nat where "max_norm = 65536"

text \<open>The pass loop: at most \<open>n\<close> passes, stopping after one that changes nothing.\<close>

fun percent_decode :: "nat \<Rightarrow> string \<Rightarrow> string" where
  "percent_decode 0 s = s"
| "percent_decode (Suc n) s =
     (case percent_decode_once s of (r, changed) \<Rightarrow> if changed then percent_decode n r else r)"

definition is_ws :: "char \<Rightarrow> bool" where
  "is_ws c = (c = CHR '' '' \<or> c = CHR 0x09 \<or> c = CHR 0x0A \<or> c = CHR 0x0D \<or> c = CHR 0x0B \<or> c = CHR 0x0C)"

function strip_fold :: "bool \<Rightarrow> string \<Rightarrow> string" where
  "strip_fold prev_space [] = []"
| "strip_fold prev_space (c # cs) =
     (if c = CHR ''/'' \<and> cs \<noteq> [] \<and> hd cs = CHR ''*''
      then (case find_sub ''*/'' (tl cs) of None \<Rightarrow> []
            | Some e \<Rightarrow> strip_fold prev_space (drop (e + 2) (tl cs)))
      else if c = CHR ''-'' \<and> cs \<noteq> [] \<and> hd cs = CHR ''-''
      then (case find_sub [CHR 0x0A] (c # cs) of None \<Rightarrow> []
            | Some e \<Rightarrow> strip_fold prev_space (drop (e + 1) (c # cs)))
      else if is_ws c
      then (if prev_space then strip_fold True cs else CHR '' '' # strip_fold True cs)
      else lower_char c # strip_fold False cs)"
  by pat_completeness auto
termination by (relation "measure (\<lambda>(p, s). length s)") auto

definition normalize_payload :: "bytes \<Rightarrow> string" where
  "normalize_payload raw = strip_fold False (percent_decode 3 (text_of (take max_norm raw)))"

section \<open>Length\<close>

lemma percent_decode_once_length: "length (fst (percent_decode_once s)) \<le> length s"
proof (induction s rule: percent_decode_once.induct)
  case 1
  show ?case by simp
next
  case (2 c cs)
  have "length (fst (percent_decode_once (drop n cs))) \<le> length cs"
    if "length (fst (percent_decode_once (drop n cs))) \<le> length (drop n cs)" for n
    using that by simp
  with 2 show ?case by (auto simp: Let_def split: prod.splits option.splits)
qed

lemma percent_decode_length: "length (percent_decode n s) \<le> length s"
proof (induction n arbitrary: s)
  case 0
  show ?case by simp
next
  case (Suc n)
  have "length (fst (percent_decode_once s)) \<le> length s" by (rule percent_decode_once_length)
  with Suc[of "fst (percent_decode_once s)"] show ?case by (simp add: case_prod_beta)
qed

lemma strip_fold_length: "length (strip_fold p s) \<le> length s"
  by (induction p s rule: strip_fold.induct) (auto split: option.splits intro: le_SucI)

section \<open>Canonical form\<close>

definition canonical_char :: "char \<Rightarrow> bool" where
  "canonical_char c = (\<not> is_upper c \<and> (is_ws c \<longrightarrow> c = CHR '' ''))"

fun single_spaced :: "bool \<Rightarrow> string \<Rightarrow> bool" where
  "single_spaced p [] = True"
| "single_spaced p (c # cs) = (\<not> (p \<and> c = CHR '' '') \<and> single_spaced (c = CHR '' '') cs)"

lemma is_ws_code: "is_ws c \<Longrightarrow> (of_char c :: nat) \<le> 32"
  by (auto simp: is_ws_def)

lemma lower_char_ws:
  assumes "is_ws (lower_char c)"
  shows "is_ws c"
proof (cases "is_upper c")
  case True
  then have "(of_char (lower_char c) :: nat) > 32" by (simp add: lower_char_def is_upper_def Let_def)
  with is_ws_code[OF assms] show ?thesis by simp
next
  case False
  then have "lower_char c = c" by (auto simp: lower_char_def is_upper_def Let_def)
  with assms show ?thesis by simp
qed

lemma canonical_space: "canonical_char CHR '' ''"
  by (simp add: canonical_char_def is_upper_def)

lemma canonical_lower: "\<not> is_ws c \<Longrightarrow> canonical_char (lower_char c)"
  using lower_char_ws[of c] lower_char_not_upper[of c] by (auto simp: canonical_char_def)

lemma strip_fold_canonical: "list_all canonical_char (strip_fold p s)"
  by (induction p s rule: strip_fold.induct)
     (simp_all add: canonical_space canonical_lower split: option.split)

lemma single_spaced_weaken: "single_spaced True s \<Longrightarrow> single_spaced p s"
  by (cases s) auto

lemma strip_fold_single_spaced: "single_spaced p (strip_fold p s)"
proof (induction p s rule: strip_fold.induct)
  case (1 p)
  show ?case by simp
next
  case (2 p c cs)
  have "lower_char c \<noteq> CHR '' ''" if "\<not> is_ws c"
    using that lower_char_ws[of c] by (auto simp: is_ws_def)
  with 2 show ?case by (auto split: option.splits)
qed

section \<open>Layers of percent-encoding\<close>

definition hex_upper :: "nat \<Rightarrow> char" where
  "hex_upper h = char_of (if h < 10 then 48 + h else 55 + h)"

definition pct_char :: "char \<Rightarrow> string" where
  "pct_char c = [CHR ''%'', hex_upper (of_char c div 16), hex_upper (of_char c mod 16)]"

definition pct_encode :: "string \<Rightarrow> string" where
  "pct_encode s = concat (map pct_char s)"

lemma of_char_hex_upper: "h < 16 \<Longrightarrow> of_char (hex_upper h) = (if h < 10 then 48 + h else 55 + h)"
  by (simp add: hex_upper_def)

lemma hex_upper_digit:
  assumes "h < 16"
  shows "hex_val (hex_upper h) = Some h" and "hex_upper h \<noteq> CHR ''u''" and "hex_upper h \<noteq> CHR ''U''"
proof -
  show "hex_val (hex_upper h) = Some h"
    using assms by (simp add: hex_val_def Let_def of_char_hex_upper)
  show "hex_upper h \<noteq> CHR ''u''"
    using of_char_hex_upper[OF assms] assms by (auto split: if_splits)
  show "hex_upper h \<noteq> CHR ''U''"
    using of_char_hex_upper[OF assms] assms by (auto split: if_splits)
qed

lemma percent_decode_once_pct: "percent_decode_once (pct_encode s) = (s, s \<noteq> [])"
proof (induction s)
  case Nil
  show ?case by (simp add: pct_encode_def)
next
  case (Cons c s)
  let ?h = "of_char c div 16 :: nat" and ?l = "of_char c mod 16 :: nat"
  have b: "?h < 16" "?l < 16" using of_char_lt[of c] by (simp_all add: less_mult_imp_div_less)
  have "char_of (16 * ?h + ?l) = c" by simp
  with Cons show ?case
    by (simp add: pct_encode_def pct_char_def hex_pair_def Let_def hex_upper_digit[OF b(1)] hex_upper_digit[OF b(2)])
qed

definition decode_stable :: "string \<Rightarrow> bool" where
  "decode_stable s = (\<forall>c \<in> set s. c \<noteq> CHR ''%'' \<and> c \<noteq> CHR ''+'')"

lemma percent_decode_once_stable: "decode_stable s \<Longrightarrow> percent_decode_once s = (s, False)"
  by (induction s) (auto simp: decode_stable_def Let_def)

lemma percent_decode_stable: "decode_stable s \<Longrightarrow> percent_decode n s = s"
  by (cases n) (auto simp: percent_decode_once_stable)

lemma length_pct_encode: "length (pct_encode s) = 3 * length s"
  by (induction s) (simp_all add: pct_encode_def pct_char_def)

lemma pct_encode_Nil_iff [simp]: "pct_encode s = [] \<longleftrightarrow> s = []"
  by (cases s) (simp_all add: pct_encode_def pct_char_def)

lemma percent_decode_3_pct:
  "s \<noteq> [] \<Longrightarrow> percent_decode 3 (pct_encode (pct_encode (pct_encode s))) = s"
  by (simp add: numeral_3_eq_3 percent_decode_once_pct)

lemma pct_layers_Nil [simp]: "(pct_encode ^^ k) [] = []"
  by (induction k) simp_all

lemma pct_layers_Nil_iff [simp]: "(pct_encode ^^ k) s = [] \<longleftrightarrow> s = []"
  by (induction k) simp_all

lemma percent_decode_layers:
  "decode_stable s \<Longrightarrow> k \<le> n \<Longrightarrow> percent_decode n ((pct_encode ^^ k) s) = s"
proof (induction n arbitrary: k)
  case 0
  then show ?case by simp
next
  case (Suc n)
  show ?case
  proof (cases k)
    case 0
    with Suc show ?thesis by (simp add: percent_decode_once_stable)
  next
    case (Suc k')
    with Suc.IH[of k'] Suc.prems show ?thesis by (cases "s = []") (auto simp: percent_decode_once_pct)
  qed
qed

lemma normalize_payload_short:
  "length x \<le> 65536 \<Longrightarrow> normalize_payload (bytes_of x) = strip_fold False (percent_decode 3 x)"
proof -
  assume "length x \<le> 65536"
  then have "take max_norm (bytes_of x) = bytes_of x" by (simp add: bytes_of_def max_norm_def)
  then show ?thesis by (simp add: normalize_payload_def)
qed

section \<open>Properties\<close>

text \<open>
  C35: for every payload the canonical form has no upper-case letter, no whitespace but single spaces,
  never two spaces in a row, and at most 65536 characters.
\<close>
theorem normalize_canonical:
  "list_all canonical_char (normalize_payload raw) \<and> single_spaced False (normalize_payload raw) \<and>
   length (normalize_payload raw) \<le> max_norm"
proof -
  have "length (normalize_payload raw) \<le> length (text_of (take max_norm raw))"
    unfolding normalize_payload_def
    by (rule order.trans[OF strip_fold_length percent_decode_length])
  then have "length (normalize_payload raw) \<le> max_norm" by simp
  then show ?thesis
    by (simp add: normalize_payload_def strip_fold_single_spaced strip_fold_canonical)
qed

text \<open>
  up to three layers of percent-encoding are invisible: the canonical form of an encoded text that
  fits the work cap is the canonical form of the text itself.
\<close>
theorem normalize_sees_through_three_layers:
  assumes "decode_stable s" and "k \<le> 3" and "length ((pct_encode ^^ k) s) \<le> max_norm"
    and "length s \<le> max_norm"
  shows "normalize_payload (bytes_of ((pct_encode ^^ k) s)) = normalize_payload (bytes_of s)"
proof -
  have t: "take max_norm (bytes_of x) = bytes_of x" if "length x \<le> max_norm" for x
    using that by (simp add: bytes_of_def)
  show ?thesis
    using assms percent_decode_layers[OF assms(1,2)]
    by (simp add: normalize_payload_def t percent_decode_stable)
qed

theorem normalize_sees_through_three_layers_witness:
  "normalize_payload (bytes_of ((pct_encode ^^ 2) ''<Svg'')) = normalize_payload (bytes_of ''<Svg'')"
proof (rule normalize_sees_through_three_layers)
  show "length ((pct_encode ^^ 2) ''<Svg'') \<le> max_norm" by (simp add: numeral_2_eq_2 length_pct_encode max_norm_def)
qed (simp_all add: decode_stable_def max_norm_def)

text \<open>
  a block comment is removed without leaving a separator, so a keyword pair split by one is
  joined: the canonical form of UNION/**/SELECT is one word and not the marker the detector looks for,
  and a fourth layer of encoding is not decoded.
\<close>
theorem normalize_comment_joins_words:
  "normalize_payload (bytes_of ''1 UNION/**/SELECT pw'') = ''1 unionselect pw'' \<and>
   \<not> contains (normalize_payload (bytes_of ''1 UNION/**/SELECT pw'')) ''union select'' \<and>
   normalize_payload (bytes_of ((pct_encode ^^ 4) ''<'')) = ''%3c''"
proof -
  have a: "normalize_payload (bytes_of ''1 UNION/**/SELECT pw'') = ''1 unionselect pw''"
    by (simp add: normalize_payload_short percent_decode_stable decode_stable_def) code_simp
  moreover have "\<not> contains ''1 unionselect pw'' ''union select''" by code_simp
  moreover have "normalize_payload (bytes_of ((pct_encode ^^ 4) ''<'')) = ''%3c''"
  proof -
    have e: "(pct_encode ^^ 4) ''<'' = pct_encode (pct_encode (pct_encode ''%3C''))" by code_simp
    show ?thesis
      unfolding e by (simp add: normalize_payload_short length_pct_encode percent_decode_3_pct) code_simp
  qed
  ultimately show ?thesis by simp
qed

end
