(* ===== verification/Md5.thy ===== *)
theory Md5
  imports Wire_Prelude
begin

unbundle bit_operations_syntax

text \<open>
  The MD5 of \<^verbatim>\<open>include/tls_inspector.hpp\<close> (namespace \<open>_md5\<close>): the compression function on
  32-bit words, the loop over the whole blocks and the hand-written tail buffer.  The lemmas show that
  the tail buffer is never overrun and that the two loops compute the fold of the compression function
  over the message padded as RFC 1321 prescribes.
\<close>

section \<open>The code\<close>

record md5_ctx =
  ctx_a :: u32
  ctx_b :: u32
  ctx_c :: u32
  ctx_d :: u32

definition rol :: "u32 \<Rightarrow> nat \<Rightarrow> u32" where
  "rol x s = push_bit s x OR drop_bit (32 - s) x"

definition md5_K :: "u32 list" where
  "md5_K =
     [0xd76aa478,0xe8c7b756,0x242070db,0xc1bdceee,0xf57c0faf,0x4787c62a,
      0xa8304613,0xfd469501,0x698098d8,0x8b44f7af,0xffff5bb1,0x895cd7be,
      0x6b901122,0xfd987193,0xa679438e,0x49b40821,0xf61e2562,0xc040b340,
      0x265e5a51,0xe9b6c7aa,0xd62f105d,0x02441453,0xd8a1e681,0xe7d3fbc8,
      0x21e1cde6,0xc33707d6,0xf4d50d87,0x455a14ed,0xa9e3e905,0xfcefa3f8,
      0x676f02d9,0x8d2a4c8a,0xfffa3942,0x8771f681,0x6d9d6122,0xfde5380c,
      0xa4beea44,0x4bdecfa9,0xf6bb4b60,0xbebfbc70,0x289b7ec6,0xeaa127fa,
      0xd4ef3085,0x04881d05,0xd9d4d039,0xe6db99e5,0x1fa27cf8,0xc4ac5665,
      0xf4292244,0x432aff97,0xab9423a7,0xfc93a039,0x655b59c3,0x8f0ccc92,
      0xffeff47d,0x85845dd1,0x6fa87e4f,0xfe2ce6e0,0xa3014314,0x4e0811a1,
      0xf7537e82,0xbd3af235,0x2ad7d2bb,0xeb86d391]"

definition md5_S :: "nat list" where
  "md5_S =
     [7,12,17,22,7,12,17,22,7,12,17,22,7,12,17,22,
      5,9,14,20,5,9,14,20,5,9,14,20,5,9,14,20,
      4,11,16,23,4,11,16,23,4,11,16,23,4,11,16,23,
      6,10,15,21,6,10,15,21,6,10,15,21,6,10,15,21]"

definition load_word :: "bytes \<Rightarrow> nat \<Rightarrow> u32" where
  "load_word p i =
     ucast (p ! (i * 4)) OR push_bit 8 (ucast (p ! (i * 4 + 1))) OR
     push_bit 16 (ucast (p ! (i * 4 + 2))) OR push_bit 24 (ucast (p ! (i * 4 + 3)))"

definition md5_round :: "u32 list \<Rightarrow> nat \<Rightarrow> u32 \<times> u32 \<times> u32 \<times> u32 \<Rightarrow> u32 \<times> u32 \<times> u32 \<times> u32" where
  "md5_round M i v =
     (case v of (A, B, C, D) \<Rightarrow>
        (case (if i < 16 then ((B AND C) OR (NOT B AND D), i)
               else if i < 32 then ((D AND B) OR (NOT D AND C), (5 * i + 1) mod 16)
               else if i < 48 then (B XOR C XOR D, (3 * i + 5) mod 16)
               else (C XOR (B OR NOT D), (7 * i) mod 16)) of
           (F, g) \<Rightarrow> (D, B + rol (F + A + md5_K ! i + M ! g) (md5_S ! i), B, C)))"

definition md5_process :: "md5_ctx \<Rightarrow> bytes \<Rightarrow> md5_ctx" where
  "md5_process ctx p =
     (case fold (md5_round (map (load_word p) [0..<16])) [0..<64] (ctx_a ctx, ctx_b ctx, ctx_c ctx, ctx_d ctx) of
        (A, B, C, D) \<Rightarrow>
          \<lparr>ctx_a = ctx_a ctx + A, ctx_b = ctx_b ctx + B, ctx_c = ctx_c ctx + C, ctx_d = ctx_d ctx + D\<rparr>)"

definition md5_init :: md5_ctx where
  "md5_init = \<lparr>ctx_a = 0x67452301, ctx_b = 0xefcdab89, ctx_c = 0x98badcfe, ctx_d = 0x10325476\<rparr>"

text \<open>The loop over the whole blocks, returning what is left of the data.\<close>

function md5_whole :: "md5_ctx \<Rightarrow> bytes \<Rightarrow> md5_ctx \<times> bytes" where
  "md5_whole ctx d =
     (if 64 \<le> length d then md5_whole (md5_process ctx (take 64 d)) (drop 64 d) else (ctx, d))"
  by pat_completeness auto
termination by (relation "measure (\<lambda>(c, d). length d)") auto

declare md5_whole.simps [simp del]

definition md5_padlen :: "nat \<Rightarrow> nat" where
  "md5_padlen rem = (if rem < 56 then 56 - rem else 120 - rem)"

definition length_bytes :: "u64 \<Rightarrow> bytes" where
  "length_bytes bits = map (\<lambda>i. ucast (drop_bit (8 * i) bits)) [0..<8]"

definition md5_tail :: "bytes \<Rightarrow> u64 \<Rightarrow> bytes" where
  "md5_tail rem bits = rem @ 0x80 # replicate (md5_padlen (length rem) - 1) 0 @ length_bytes bits"

function md5_blocks :: "md5_ctx \<Rightarrow> bytes \<Rightarrow> md5_ctx" where
  "md5_blocks ctx t =
     (if t = [] then ctx else md5_blocks (md5_process ctx (take 64 t)) (drop 64 t))"
  by pat_completeness auto
termination by (relation "measure (\<lambda>(c, t). length t)") auto

declare md5_blocks.simps [simp del]

definition md5_hex :: "byte \<Rightarrow> string" where
  "md5_hex b = [''0123456789abcdef'' ! unat (drop_bit 4 b), ''0123456789abcdef'' ! unat (b AND 15)]"

definition md5_out :: "md5_ctx \<Rightarrow> bytes" where
  "md5_out ctx =
     concat (map (\<lambda>v. map (\<lambda>j. ucast (drop_bit (8 * j) v)) [0..<4]) [ctx_a ctx, ctx_b ctx, ctx_c ctx, ctx_d ctx])"

definition md5_hash :: "string \<Rightarrow> string" where
  "md5_hash s =
     (case md5_whole md5_init (bytes_of s) of (ctx, rem) \<Rightarrow>
        concat (map md5_hex (md5_out (md5_blocks ctx (md5_tail rem (of_nat (length s) * 8))))))"

section \<open>The padded message of RFC 1321\<close>

definition rfc_pad :: "bytes \<Rightarrow> bytes" where
  "rfc_pad m =
     m @ 0x80 # replicate ((119 - length m mod 64) mod 64) 0 @ length_bytes (of_nat (length m) * 8)"

definition md5_reference :: "string \<Rightarrow> string" where
  "md5_reference s = concat (map md5_hex (md5_out (md5_blocks md5_init (rfc_pad (bytes_of s)))))"

lemma length_length_bytes [simp]: "length (length_bytes b) = 8"
  by (simp add: length_bytes_def)

lemma md5_blocks_step:
  "length b = 64 \<Longrightarrow> md5_blocks c (b @ x) = md5_blocks (md5_process c b) x"
  by (subst md5_blocks.simps) auto

lemma md5_whole_spec:
  "md5_whole c d = (md5_blocks c (take (64 * (length d div 64)) d), drop (64 * (length d div 64)) d)"
proof (induction c d rule: md5_whole.induct)
  case (1 c d)
  show ?case
  proof (cases "64 \<le> length d")
    case True
    define k where "k = (length d - 64) div 64"
    have k: "length d div 64 = Suc k" using True by (simp add: k_def le_div_geq)
    have "take (64 * Suc k) d = take 64 d @ take (64 * k) (drop 64 d)"
      by (simp add: take_add)
    then have "md5_blocks c (take (64 * Suc k) d) =
        md5_blocks (md5_process c (take 64 d)) (take (64 * k) (drop 64 d))"
      using True by (simp only: md5_blocks_step length_take min_absorb2)
    with True 1[OF True] show ?thesis
      by (simp add: md5_whole.simps[of c d] k k_def[symmetric] add.commute)
  next
    case False
    then show ?thesis by (simp add: md5_whole.simps[of c d] md5_blocks.simps[of c "[]"])
  qed
qed

lemma md5_blocks_append:
  "64 dvd length a \<Longrightarrow> md5_blocks c (a @ b) = md5_blocks (md5_blocks c a) b"
proof (induction c a rule: md5_blocks.induct)
  case (1 c a)
  show ?case
  proof (cases "a = []")
    case True
    then show ?thesis by (simp add: md5_blocks.simps[of c "[]"])
  next
    case False
    with "1.prems" have l: "64 \<le> length a" by (auto dest: dvd_imp_le)
    with "1.prems" have "64 dvd length (drop 64 a)" by (simp add: dvd_diff_nat)
    with 1(1)[OF False] False l show ?thesis
      by (simp add: md5_blocks.simps[of c a] md5_blocks.simps[of c "a @ b"])
  qed
qed

lemma md5_tail_length:
  "length rem < 64 \<Longrightarrow> length (md5_tail rem bits) = (if length rem < 56 then 64 else 128)"
  by (simp add: md5_tail_def md5_padlen_def)

lemma md5_padlen_rfc: "r < 64 \<Longrightarrow> md5_padlen r - 1 = (119 - r) mod 64"
  by (auto simp: md5_padlen_def mod_if)

lemma md5_hash_reference: "md5_hash s = md5_reference s"
proof -
  let ?m = "bytes_of s" and ?n = "64 * (length (bytes_of s) div 64)"
  have r: "length (drop ?n ?m) = length ?m mod 64" by (simp add: minus_mult_div_eq_mod)
  have l: "length ?m mod 64 < 64" by simp
  have p: "rfc_pad ?m = take ?n ?m @ md5_tail (drop ?n ?m) (of_nat (length s) * 8)"
    unfolding rfc_pad_def md5_tail_def r md5_padlen_rfc[OF l]
    by (simp add: bytes_of_def flip: append_assoc)
  have "?n \<le> length ?m" by simp
  then have "64 dvd length (take ?n ?m)" by (simp only: length_take min_absorb2) simp
  then show ?thesis
    by (simp add: md5_hash_def md5_reference_def md5_whole_spec p md5_blocks_append)
qed

section \<open>Shape of the result\<close>

lemma length_md5_out [simp]: "length (md5_out c) = 16"
  by (simp add: md5_out_def)

definition hex_lower :: "char \<Rightarrow> bool" where
  "hex_lower c = (c \<in> set ''0123456789abcdef'')"

lemma hex_lower_nth: "n < 16 \<Longrightarrow> hex_lower (''0123456789abcdef'' ! n)"
  unfolding hex_lower_def by (rule nth_mem) simp

lemma md5_hex_lower: "list_all hex_lower (md5_hex b)"
proof -
  have "unat b < 2 ^ LENGTH(8)" by (rule unsigned_less)
  then have "unat (drop_bit 4 b) < 16"
    by (simp add: drop_bit_eq_div unat_div_distrib less_mult_imp_div_less)
  moreover have "unat (b AND 15) < 16"
  proof -
    have "b AND 15 \<le> 15" by (rule word_and_le1)
    then show ?thesis by (simp add: word_le_nat_alt)
  qed
  ultimately show ?thesis unfolding md5_hex_def by (simp only: list.pred_inject hex_lower_nth simp_thms)
qed

lemma length_md5_hex [simp]: "length (md5_hex b) = 2"
  by (simp add: md5_hex_def)

lemma md5_hash_shape: "length (md5_hash s) = 32 \<and> list_all hex_lower (md5_hash s)"
proof -
  obtain o1 where o1: "md5_hash s = concat (map md5_hex o1)" "length o1 = 16"
    by (auto simp: md5_hash_reference md5_reference_def intro: length_md5_out)
  have "length (concat (map md5_hex o1)) = 2 * length o1" by (induction o1) simp_all
  moreover have "list_all hex_lower (concat (map md5_hex o1))"
    by (induction o1) (simp_all add: md5_hex_lower)
  ultimately show ?thesis using o1 by simp
qed

end
