(* ===== verification/Tls_Inspector.thy ===== *)
theory Tls_Inspector
  imports Md5 "HOL-Library.Monad_Syntax"
begin

text \<open>
  \<^verbatim>\<open>include/tls_inspector.hpp\<close>: the ClientHello parser.  Every \<open>p[i]\<close> of the source is a
  checked read; \<open>None\<close> is a read outside the payload, so that memory safety is a theorem about this
  model and not an assumption of it.  The lemmas follow the extension loop and show which payloads can
  make it read past the end.
\<close>

section \<open>The parser\<close>

record tls_info =
  is_client_hello :: bool
  tls_info_sni :: string
  ja3 :: string
  ja3_hash :: string

definition no_tls_info :: tls_info where
  "no_tls_info = \<lparr>is_client_hello = False, tls_info_sni = [], ja3 = [], ja3_hash = []\<rparr>"

definition is_grease :: "u16 \<Rightarrow> bool" where
  "is_grease v = (v AND 0x0f0f = 0x0a0a)"

text \<open>\<open>(p[i] << 8) | p[i + 1]\<close>\<close>

definition rd16 :: "bytes \<Rightarrow> nat \<Rightarrow> u16 option" where
  "rd16 p i = do { a \<leftarrow> rd p i; b \<leftarrow> rd p (i + 1); Some (push_bit 8 (ucast a) OR ucast b) }"

text \<open>\<open>read_list16 p base limit list_len i\<close>: the loops that collect 16-bit values, of the cipher suites
  (\<open>limit\<close> is the end of the list) and of the supported groups (also bounded by the extension).\<close>

function read_list16 :: "bytes \<Rightarrow> nat \<Rightarrow> nat \<Rightarrow> nat \<Rightarrow> nat \<Rightarrow> u16 list option" where
  "read_list16 p base limit list_len i =
     (if i + 1 < list_len \<and> base + i + 1 < limit then do {
        c \<leftarrow> rd16 p (base + i);
        cs \<leftarrow> read_list16 p base limit list_len (i + 2);
        Some (if is_grease c then cs else c # cs)
      } else Some [])"
  by pat_completeness auto
termination by (relation "measure (\<lambda>(p, b, l, n, i). n - i)") auto

declare read_list16.simps [simp del]

function read_list8 :: "bytes \<Rightarrow> nat \<Rightarrow> nat \<Rightarrow> nat \<Rightarrow> nat \<Rightarrow> u16 list option" where
  "read_list8 p base limit list_len i =
     (if i < list_len \<and> base + i < limit then do {
        c \<leftarrow> rd p (base + i);
        cs \<leftarrow> read_list8 p base limit list_len (i + 1);
        Some (ucast c # cs)
      } else Some [])"
  by pat_completeness auto
termination by (relation "measure (\<lambda>(p, b, l, n, i). n - i)") auto

declare read_list8.simps [simp del]

record ext_state =
  ext_sni :: string
  extensions :: "u16 list"
  curves :: "u16 list"
  formats :: "u16 list"

text \<open>The server-name extension; forming the reference \<open>p[sp]\<close> is a read.\<close>

definition ext_server_name :: "bytes \<Rightarrow> nat \<Rightarrow> nat \<Rightarrow> ext_state \<Rightarrow> ext_state option" where
  "ext_server_name p pos elen st =
     (if pos + 3 + 2 \<le> pos + elen then do {
        nl \<leftarrow> rd16 p (pos + 3);
        (if pos + 5 + unat nl \<le> pos + elen then do {
           _ \<leftarrow> rd p (pos + 5);
           Some (st\<lparr>ext_sni := text_of (take (unat nl) (drop (pos + 5) p))\<rparr>)
         } else Some st)
      } else Some st)"

definition ext_body :: "bytes \<Rightarrow> nat \<Rightarrow> u16 \<Rightarrow> nat \<Rightarrow> ext_state \<Rightarrow> ext_state option" where
  "ext_body p pos etype elen st =
     (if etype = 0x0000 \<and> 5 \<le> elen then ext_server_name p pos elen st
      else if etype = 0x000a then
        (if 2 \<le> elen then do {
           list_len \<leftarrow> rd16 p pos;
           cs \<leftarrow> read_list16 p (pos + 2) (pos + elen) (unat list_len) 0;
           Some (st\<lparr>curves := curves st @ cs\<rparr>)
         } else Some st)
      else if etype = 0x000b then
        (if 1 \<le> elen then do {
           list_len \<leftarrow> rd p pos;
           fs \<leftarrow> read_list8 p (pos + 1) (pos + elen) (unat list_len) 0;
           Some (st\<lparr>formats := formats st @ fs\<rparr>)
         } else Some st)
      else Some st)"

function ext_loop :: "bytes \<Rightarrow> nat \<Rightarrow> nat \<Rightarrow> ext_state \<Rightarrow> ext_state option" where
  "ext_loop p ext_end pos st =
     (if pos + 4 \<le> ext_end then do {
        etype \<leftarrow> rd16 p pos;
        elen \<leftarrow> rd16 p (pos + 2);
        (if ext_end < pos + 4 + unat elen then Some st
         else do {
           st' \<leftarrow> ext_body p (pos + 4) etype (unat elen)
                   (if is_grease etype then st else st\<lparr>extensions := extensions st @ [etype]\<rparr>);
           ext_loop p ext_end (pos + 4 + unat elen) st'
         })
      } else Some st)"
  by pat_completeness auto
termination by (relation "measure (\<lambda>(p, e, pos, st). e - pos)") auto

declare ext_loop.simps [simp del]

fun join_values :: "u16 list \<Rightarrow> string" where
  "join_values [] = []"
| "join_values [v] = nat_to_string (unat v)"
| "join_values (v # vs) = nat_to_string (unat v) @ ''-'' @ join_values vs"

definition ja3_string :: "u16 \<Rightarrow> u16 list \<Rightarrow> ext_state \<Rightarrow> string" where
  "ja3_string version ciphers st =
     nat_to_string (unat version) @ '','' @ join_values ciphers @ '','' @ join_values (extensions st) @
     '','' @ join_values (curves st) @ '','' @ join_values (formats st)"

definition no_ext_state :: "string \<Rightarrow> ext_state" where
  "no_ext_state s = \<lparr>ext_sni = s, extensions = [], curves = [], formats = []\<rparr>"

text \<open>From the extensions block at \<open>pos\<close> on.\<close>

definition parse_extensions :: "bytes \<Rightarrow> nat \<Rightarrow> u16 \<Rightarrow> u16 list \<Rightarrow> tls_info \<Rightarrow> (bool \<times> tls_info) option" where
  "parse_extensions p pos version ciphers out = do {
     ext_total \<leftarrow> rd16 p pos;
     st \<leftarrow> ext_loop p (min (pos + 2 + unat ext_total) (length p)) (pos + 2) (no_ext_state (tls_info_sni out));
     Some (True, \<lparr>is_client_hello = True, tls_info_sni = ext_sni st, ja3 = ja3_string version ciphers st,
                  ja3_hash = md5_hash (ja3_string version ciphers st)\<rparr>)
   }"

definition parse_tls_client_hello :: "bytes \<Rightarrow> tls_info \<Rightarrow> (bool \<times> tls_info) option" where
  "parse_tls_client_hello p out =
     (if length p < 6 then Some (False, out) else do {
      b0 \<leftarrow> rd p 0;
      if b0 \<noteq> 0x16 \<or> length p < 5 + 4 then Some (False, out) else do {
      b5 \<leftarrow> rd p 5;
      if b5 \<noteq> 0x01 \<or> length p < 9 + 2 then Some (False, out) else do {
      client_version \<leftarrow> rd16 p 9;
      if length p \<le> 11 + 32 then Some (False, out) else do {
      sid_len \<leftarrow> rd p 43;
      let pos = 44 + unat sid_len;
      if length p < pos + 2 then Some (False, out) else do {
      cs_len \<leftarrow> rd16 p pos;
      let pos = pos + 2;
      if length p < pos + unat cs_len then Some (False, out) else do {
      ciphers \<leftarrow> read_list16 p pos (pos + unat cs_len) (unat cs_len) 0;
      let pos = pos + unat cs_len;
      if length p \<le> pos then Some (False, out) else do {
      comp_len \<leftarrow> rd p pos;
      let pos = pos + 1 + unat comp_len;
      if length p < pos + 2 then Some (True, out\<lparr>is_client_hello := True\<rparr>)
      else parse_extensions p pos client_version ciphers out
      }}}}}}})"

section \<open>Reads stay inside the payload\<close>

lemma rd16_lt: "i + 1 < length p \<Longrightarrow> \<exists>v. rd16 p i = Some v"
  by (simp add: rd16_def rd_lt)

lemma read_list16_safe:
  "limit \<le> length p \<Longrightarrow> \<exists>cs. read_list16 p base limit n i = Some cs"
proof (induction p base limit n i rule: read_list16.induct)
  case (1 p base limit n i)
  show ?case
  proof (cases "i + 1 < n \<and> base + i + 1 < limit")
    case True
    with "1.prems" obtain c where c: "rd16 p (base + i) = Some c" using rd16_lt[of "base + i" p] by auto
    with 1(1)[OF True c "1.prems"] True show ?thesis
      by (auto simp: read_list16.simps[of p base limit n i])
  next
    case False
    then show ?thesis by (subst read_list16.simps) (simp only: if_False, simp)
  qed
qed

lemma read_list8_safe:
  "limit \<le> length p \<Longrightarrow> \<exists>cs. read_list8 p base limit n i = Some cs"
proof (induction p base limit n i rule: read_list8.induct)
  case (1 p base limit n i)
  show ?case
  proof (cases "i < n \<and> base + i < limit")
    case True
    with "1.prems" have c: "rd p (base + i) = Some (p ! (base + i))" by (simp add: rd_lt)
    with 1(1)[OF True c "1.prems"] True show ?thesis
      by (auto simp: read_list8.simps[of p base limit n i] c)
  next
    case False
    then show ?thesis by (subst read_list8.simps) (simp only: if_False, simp)
  qed
qed

lemma or_bytes: "b < 256 \<Longrightarrow> push_bit 8 a OR b = 256 * a + (b :: nat)"
proof -
  assume "b < 256"
  then have b: "b = take_bit 8 b" by (simp add: take_bit_nat_eq_self)
  have "push_bit 8 a AND take_bit 8 b = 0"
    by (rule bit_eqI) (auto simp: bit_simps)
  then have "push_bit 8 a + take_bit 8 b = push_bit 8 a OR take_bit 8 b"
    by (rule disjunctive_add_eq_or)
  with b show "push_bit 8 a OR b = 256 * a + b" by (simp add: push_bit_eq_mult)
qed

lemma rd16_value: "rd16 p i = Some v \<Longrightarrow> unat v = 256 * unat (p ! i) + unat (p ! (i + 1))"
proof -
  assume "rd16 p i = Some v"
  then have v: "v = push_bit 8 (ucast (p ! i)) OR ucast (p ! (i + 1))"
    by (auto simp: rd16_def split: bind_splits)
  have b: "unat (p ! i) < 2 ^ LENGTH(8)" "unat (p ! (i + 1)) < 2 ^ LENGTH(8)"
    by (rule unsigned_less)+
  have "unat v = push_bit 8 (unat (p ! i)) OR unat (p ! (i + 1))"
  proof -
    have "unat (push_bit 8 (ucast (p ! i)) :: u16) = push_bit 8 (unat (p ! i))"
      using b(1) by (simp add: unat_word_ariths push_bit_eq_mult unsigned_ucast_eq take_bit_nat_eq_self)
    moreover have "unat (ucast (p ! (i + 1)) :: u16) = unat (p ! (i + 1))"
      using b(2) by (simp add: unsigned_ucast_eq take_bit_nat_eq_self)
    ultimately show ?thesis unfolding v by (simp only: unsigned_or_eq)
  qed
  with b show "unat v = 256 * unat (p ! i) + unat (p ! (i + 1))" by (simp add: or_bytes)
qed

lemma rd16_zero: "rd16 p i = Some 0 \<Longrightarrow> p ! i = 0 \<and> p ! (i + 1) = 0"
  using rd16_value[of p i 0] by (simp add: unat_eq_0)

lemma rd16_small:
  "rd16 p i = Some v \<Longrightarrow> unat v = k \<Longrightarrow> k < 256 \<Longrightarrow> p ! i = 0 \<and> p ! (i + 1) = word_of_nat k"
proof -
  assume a: "rd16 p i = Some v" "unat v = k" "k < 256"
  then have "256 * unat (p ! i) + unat (p ! (i + 1)) = k" using rd16_value by auto
  with a(3) have "unat (p ! i) = 0" "unat (p ! (i + 1)) = k" by auto
  then show "p ! i = 0 \<and> p ! (i + 1) = word_of_nat k" by (auto simp: unat_eq_0)
qed

text \<open>The only payloads that can be read past: an empty server name is the last thing in them.\<close>

definition empty_name_at_end :: "bytes \<Rightarrow> bool" where
  "empty_name_at_end p =
     (9 \<le> length p \<and> take 4 (drop (length p - 9) p) = [0, 0, 0, 5] \<and> drop (length p - 2) p = [0, 0])"

lemma ext_server_name_None:
  assumes "pos + elen \<le> length p" and "ext_server_name p pos elen st = None"
  shows "elen = 5 \<and> pos + 5 = length p \<and> rd16 p (pos + 3) = Some 0"
proof -
  from assms(2) have l: "pos + 3 + 2 \<le> pos + elen" by (auto simp: ext_server_name_def split: if_splits)
  with assms(1) obtain nl where nl: "rd16 p (pos + 3) = Some nl" using rd16_lt[of "pos + 3" p] by auto
  with assms(2) l have r: "pos + 5 + unat nl \<le> pos + elen" "rd p (pos + 5) = None"
    by (auto simp: ext_server_name_def split: if_splits bind_splits)
  with l assms(1) have "elen = 5" "pos + 5 = length p" "unat nl = 0" by auto
  with nl show ?thesis by (simp add: unat_eq_0)
qed

lemma ext_body_None:
  assumes "pos + elen \<le> length p" and "ext_body p pos etype elen st = None"
  shows "etype = 0 \<and> elen = 5 \<and> pos + 5 = length p \<and> rd16 p (pos + 3) = Some 0"
proof (cases "etype = 0 \<and> 5 \<le> elen")
  case True
  with assms show ?thesis using ext_server_name_None[of pos elen p st] by (simp add: ext_body_def)
next
  case n: False
  show ?thesis
  proof (cases "etype = 0x000a")
    case True
    with assms(2) have "2 \<le> elen" by (auto simp: ext_body_def split: if_splits)
    with assms(1) obtain v where "rd16 p pos = Some v" using rd16_lt[of pos p] by auto
    with assms True \<open>2 \<le> elen\<close> show ?thesis
      using read_list16_safe[of "pos + elen" p "pos + 2" "unat v" 0] by (auto simp: ext_body_def)
  next
    case False
    with n assms(2) have e: "etype = 0x000b \<and> 1 \<le> elen" by (auto simp: ext_body_def split: if_splits)
    with assms(1) have "rd p pos = Some (p ! pos)" by (simp add: rd_lt)
    with assms e False n show ?thesis
      using read_list8_safe[of "pos + elen" p "pos + 1" "unat (p ! pos)" 0] by (auto simp: ext_body_def)
  qed
qed

lemma take4: "i + 4 \<le> length p \<Longrightarrow> take 4 (drop i p) = [p ! i, p ! (i + 1), p ! (i + 2), p ! (i + 3)]"
  by (simp add: Cons_nth_drop_Suc[symmetric] numeral_eq_Suc)

lemma drop2: "i + 2 = length p \<Longrightarrow> drop i p = [p ! i, p ! (i + 1)]"
  by (simp add: Cons_nth_drop_Suc[symmetric] numeral_eq_Suc)

lemma ext_loop_None:
  "ext_end \<le> length p \<Longrightarrow> ext_loop p ext_end pos st = None \<Longrightarrow> empty_name_at_end p"
proof (induction p ext_end pos st rule: ext_loop.induct)
  case (1 p ext_end pos st)
  from "1.prems"(2) have l: "pos + 4 \<le> ext_end" by (subst (asm) ext_loop.simps) (auto split: if_splits)
  with "1.prems"(1) obtain etype elen where r: "rd16 p pos = Some etype" "rd16 p (pos + 2) = Some elen"
    using rd16_lt[of pos p] rd16_lt[of "pos + 2" p] by auto
  let ?st = "if is_grease etype then st else st\<lparr>extensions := extensions st @ [etype]\<rparr>"
  from "1.prems"(2) l r have e: "\<not> ext_end < pos + 4 + unat elen"
    by (subst (asm) ext_loop.simps) (auto split: if_splits)
  show ?case
  proof (cases "ext_body p (pos + 4) etype (unat elen) ?st")
    case None
    with e "1.prems"(1) have "etype = 0 \<and> unat elen = 5 \<and> pos + 4 + 5 = length p \<and> rd16 p (pos + 4 + 3) = Some 0"
      by (intro ext_body_None) auto
    then have b: "etype = 0" "unat elen = 5" "pos + 9 = length p" "rd16 p (pos + 7) = Some 0"
      by (simp_all add: ac_simps)
    have "p ! pos = 0 \<and> p ! (pos + 1) = 0" using r(1) b(1) rd16_zero by auto
    moreover have "p ! (pos + 2) = 0 \<and> p ! (pos + 3) = 5" 
      using rd16_small[OF r(2) b(2)] by (simp add: add.assoc numeral_3_eq_3)
    moreover have "p ! (pos + 7) = 0 \<and> p ! (pos + 8) = 0" using rd16_zero[OF b(4)] by (simp add: ac_simps)
    moreover have "length p - 9 = pos" "length p - 2 = pos + 7" using b(3) by auto
    ultimately show ?thesis
      using b(3) take4[of pos p] drop2[of "pos + 7" p] by (simp add: empty_name_at_end_def ac_simps)
  next
    case (Some st')
    from "1.prems"(2) have "ext_loop p ext_end (pos + 4 + unat elen) st' = None"
      by (subst (asm) ext_loop.simps) (use l r e Some in simp)
    with 1(1)[OF l r e Some "1.prems"(1)] show ?thesis .
  qed
qed

lemma parse_extensions_None:
  "pos + 2 \<le> length p \<Longrightarrow> parse_extensions p pos v cs out = None \<Longrightarrow> empty_name_at_end p"
  using rd16_lt[of pos p]
  by (auto simp: parse_extensions_def split: bind_splits intro: ext_loop_None[OF min.cobounded2])


lemma rd16_None_iff [simp]: "rd16 p i = None \<longleftrightarrow> length p \<le> i + 1"
  by (auto simp: rd16_def bind_eq_None_conv)

lemma read_list16_None: "read_list16 p base limit n i = None \<Longrightarrow> length p < limit"
  using read_list16_safe[of limit p base n i] by (cases "limit \<le> length p") auto

lemma parse_extensions_None':
  "parse_extensions p pos v cs out = None \<Longrightarrow> length p < pos + 2 \<or> empty_name_at_end p"
  using parse_extensions_None[of pos p v cs out] by (cases "pos + 2 \<le> length p") auto

lemma parse_tls_None: "parse_tls_client_hello p out = None \<Longrightarrow> empty_name_at_end p"
  by (auto simp: parse_tls_client_hello_def Let_def split: if_splits bind_splits dest!: parse_extensions_None' read_list16_None)

section \<open>What is extracted\<close>

definition verbatim_in :: "bytes \<Rightarrow> string \<Rightarrow> bool" where
  "verbatim_in p s = (\<exists>k n. s = text_of (take n (drop k p)))"

lemma verbatim_in_Nil: "verbatim_in p []"
  unfolding verbatim_in_def by (rule exI[of _ 0], rule exI[of _ 0]) (simp add: text_of_def)

lemma verbatim_in_slice: "verbatim_in p (text_of (take n (drop k p)))"
  by (auto simp: verbatim_in_def)

lemma ext_server_name_sni:
  "ext_server_name p pos elen st = Some st' \<Longrightarrow> verbatim_in p (ext_sni st) \<Longrightarrow> verbatim_in p (ext_sni st')"
  by (auto simp: ext_server_name_def verbatim_in_slice split: if_splits bind_splits)

lemma ext_body_sni:
  "ext_body p pos etype elen st = Some st' \<Longrightarrow> verbatim_in p (ext_sni st) \<Longrightarrow> verbatim_in p (ext_sni st')"
  by (auto simp: ext_body_def split: if_splits bind_splits intro: ext_server_name_sni)

lemma ext_loop_sni:
  "ext_loop p e pos st = Some st' \<Longrightarrow> verbatim_in p (ext_sni st) \<Longrightarrow> verbatim_in p (ext_sni st')"
proof (induction p e pos st rule: ext_loop.induct)
  case (1 p e pos st)
  show ?case
  proof (cases "pos + 4 \<le> e")
    case False
    with "1.prems" show ?thesis by (subst (asm) ext_loop.simps) simp
  next
    case True
    with "1.prems"(1) obtain et el where r: "rd16 p pos = Some et" "rd16 p (pos + 2) = Some el"
      by (subst (asm) ext_loop.simps) (auto split: bind_splits)
    let ?st = "if is_grease et then st else st\<lparr>extensions := extensions st @ [et]\<rparr>"
    show ?thesis
    proof (cases "e < pos + 4 + unat el")
      case l: True
      have "st' = st" using "1.prems"(1) True r l by (subst (asm) ext_loop.simps) simp
      with "1.prems"(2) show ?thesis by simp
    next
      case False
      have *: "ext_body p (pos + 4) et (unat el) ?st \<bind> ext_loop p e (pos + 4 + unat el) = Some st'"
        using "1.prems"(1) by (subst (asm) ext_loop.simps) (use True r False in simp)
      then obtain st1 where b: "ext_body p (pos + 4) et (unat el) ?st = Some st1"
          "ext_loop p e (pos + 4 + unat el) st1 = Some st'"
        by (cases "ext_body p (pos + 4) et (unat el) ?st") auto
      have "verbatim_in p (ext_sni ?st)" using "1.prems"(2) by simp
      then have "verbatim_in p (ext_sni st1)" using b(1) ext_body_sni by blast
      with 1(1)[OF True r False b] show ?thesis .
    qed
  qed
qed

text \<open>The result for a parsed handshake.\<close>

definition tls_info_ok :: "bytes \<Rightarrow> tls_info \<Rightarrow> bool" where
  "tls_info_ok p t =
     (verbatim_in p (tls_info_sni t) \<and>
      (ja3 t = [] \<and> ja3_hash t = [] \<or>
       ja3_hash t = md5_reference (ja3 t) \<and> length (ja3_hash t) = 32 \<and> list_all hex_lower (ja3_hash t)))"

lemma parse_extensions_ok:
  "parse_extensions p pos v cs no_tls_info = Some (r, t) \<Longrightarrow> tls_info_ok p t \<and> r \<and> is_client_hello t"
  by (auto simp: parse_extensions_def tls_info_ok_def md5_hash_shape no_ext_state_def no_tls_info_def
        verbatim_in_Nil simp flip: md5_hash_reference split: bind_splits dest!: ext_loop_sni)

lemma parse_tls_ok:
  "parse_tls_client_hello p no_tls_info = Some (r, t) \<Longrightarrow> tls_info_ok p t \<and> is_client_hello t = r"
proof -
  have n: "tls_info_ok p (no_tls_info\<lparr>is_client_hello := b\<rparr>)" for b
    by (simp add: tls_info_ok_def no_tls_info_def verbatim_in_Nil)
  have n': "tls_info_ok p no_tls_info" "\<not> is_client_hello no_tls_info"
    by (simp_all add: tls_info_ok_def no_tls_info_def verbatim_in_Nil)
  assume "parse_tls_client_hello p no_tls_info = Some (r, t)"
  then show "tls_info_ok p t \<and> is_client_hello t = r"
    by (auto simp: parse_tls_client_hello_def Let_def n n' split: if_splits bind_splits
        dest!: parse_extensions_ok)
qed


section \<open>Properties\<close>

text \<open>
  C20: the parser reads outside the payload only when the payload ends in a server-name extension with an
  empty name, where forming \<open>&p[sp]\<close> indexes one past the end; every other payload, however
  truncated or inconsistent its length fields, is parsed within bounds.
\<close>
theorem tls_reads_in_bounds:
  assumes "parse_tls_client_hello p out = None"
  shows "empty_name_at_end p"
  using assms by (rule parse_tls_None)

definition hello_empty_name :: bytes where
  "hello_empty_name =
     [22, 3, 1, 0, 53, 1, 0, 0, 49, 3, 3] @ replicate 32 7 @ [0, 0, 0, 0, 0, 9, 0, 0, 0, 5, 0, 3, 0, 0, 0]"

theorem tls_reads_in_bounds_witness:
  "parse_tls_client_hello hello_empty_name no_tls_info = None \<and> empty_name_at_end hello_empty_name"
proof -
  have "parse_tls_client_hello hello_empty_name no_tls_info = None" by code_simp
  with tls_reads_in_bounds[OF this] show ?thesis by simp
qed

text \<open>
  what a successful parse reports is taken from the payload: the server name is a run of payload
  bytes, and the JA3 hash, when there is one, is the 32-digit RFC 1321 digest of the JA3 string.
\<close>
theorem tls_parse_result:
  assumes "parse_tls_client_hello p no_tls_info = Some (r, t)"
  shows "is_client_hello t = r \<and> (\<exists>k n. tls_info_sni t = text_of (take n (drop k p))) \<and>
    (ja3 t = [] \<and> ja3_hash t = [] \<or>
     ja3_hash t = md5_reference (ja3 t) \<and> length (ja3_hash t) = 32 \<and> list_all hex_lower (ja3_hash t))"
  using parse_tls_ok[OF assms] by (simp add: tls_info_ok_def verbatim_in_def)

definition hello_no_ext :: bytes where
  "hello_no_ext = [22, 3, 1, 0, 44, 1, 0, 0, 40, 3, 3] @ replicate 32 7 @ [0, 0, 2, 0x13, 0x01, 0]"

theorem tls_parse_result_witness:
  "parse_tls_client_hello hello_no_ext no_tls_info = Some (True, no_tls_info\<lparr>is_client_hello := True\<rparr>) \<and>
   (\<exists>k n. [] = text_of (take n (drop k hello_no_ext)))"
proof -
  have a: "parse_tls_client_hello hello_no_ext no_tls_info = Some (True, no_tls_info\<lparr>is_client_hello := True\<rparr>)"
    by code_simp
  with tls_parse_result[OF a] show ?thesis by (simp add: no_tls_info_def)
qed

end
