(* ===== verification/Config.thy ===== *)
theory Config
  imports Wire_Prelude
begin

text \<open>
  \<^verbatim>\<open>include/config.hpp\<close>: the configuration record, the command-line parser and the mode
  predicates.  The integer conversions of the standard library are modelled (leading blanks, a sign,
  the longest run of digits, the range check, and \<^verbatim>\<open>std::stoull\<close>'s negation modulo
  \<open>2\<^sup>64\<close>); conversions to floating point and the texts of \<^verbatim>\<open>what()\<close> are arguments.
\<close>

datatype analysis_mode = Auto | Live | Forensic

record wirewolf_config =
  queue_capacity :: nat
  max_flow_payload_bytes :: nat
  entropy_high_threshold :: real
  entropy_low_threshold :: real
  variance_threshold :: real
  inter_arrival_floor :: real
  min_packet_count_for_flood :: nat
  min_payload_for_low_entropy :: nat
  openvino_enabled :: bool
  npu_threshold :: real
  payload_char_limit :: nat
  max_tokens :: int
  max_llm_flows :: nat
  max_prompt_tokens :: int
  n_gpu_layers :: int
  context_size :: nat
  threat_proxy_db :: string
  promiscuous :: bool
  analysis_mode_of :: analysis_mode
  use_windivert :: bool
  inline_block :: bool
  windivert_filter :: string
  block_allowlist :: string
  rules_dir :: string
  behavioral_models_dir :: string
  behavioral_threshold :: real
  log_level :: int
  interface :: string
  openvino_model_path :: string
  llama_model_path :: string
  parse_error :: string

definition default_config :: wirewolf_config where
  "default_config =
     \<lparr>queue_capacity = 1024, max_flow_payload_bytes = 1048576, entropy_high_threshold = 7,
      entropy_low_threshold = 1, variance_threshold = 50000, inter_arrival_floor = 5 / 10000,
      min_packet_count_for_flood = 50, min_payload_for_low_entropy = 512, openvino_enabled = False,
      npu_threshold = 5 / 10, payload_char_limit = 2048, max_tokens = 512, max_llm_flows = 0,
      max_prompt_tokens = 7000, n_gpu_layers = 99, context_size = 8192, threat_proxy_db = [],
      promiscuous = True, analysis_mode_of = Auto, use_windivert = False, inline_block = False,
      windivert_filter = ''tcp'', block_allowlist = [], rules_dir = [], behavioral_models_dir = [],
      behavioral_threshold = 0, log_level = 1, interface = [], openvino_model_path = [],
      llama_model_path = [], parse_error = []\<rparr>"

section \<open>Conversions of the standard library\<close>

datatype conv_fail = No_conversion | Out_of_range

definition is_space :: "char \<Rightarrow> bool" where
  "is_space c = (let n = (of_char c :: nat) in n = 32 \<or> 9 \<le> n \<and> n \<le> 13)"

text \<open>The sign and the digits \<open>strtol\<close> and \<open>strtoull\<close> read in base 10.\<close>

definition scan_integer :: "string \<Rightarrow> (bool \<times> nat) option" where
  "scan_integer s =
     (let t = dropWhile is_space s;
          neg = (t \<noteq> [] \<and> hd t = CHR ''-'');
          u = (if t \<noteq> [] \<and> (hd t = CHR ''-'' \<or> hd t = CHR ''+'') then tl t else t);
          ds = takeWhile is_digit u
      in if ds = [] then None else Some (neg, digits_value 0 ds))"

definition stoi :: "string \<Rightarrow> conv_fail + int" where
  "stoi s =
     (case scan_integer s of None \<Rightarrow> Inl No_conversion
      | Some (neg, n) \<Rightarrow>
          (let v = (if neg then - int n else int n)
           in if - (2 ^ 31) \<le> v \<and> v < 2 ^ 31 then Inr v else Inl Out_of_range))"

definition stoull :: "string \<Rightarrow> conv_fail + nat" where
  "stoull s =
     (case scan_integer s of None \<Rightarrow> Inl No_conversion
      | Some (neg, n) \<Rightarrow>
          (if 2 ^ 64 \<le> n then Inl Out_of_range
           else Inr (if neg then (2 ^ 64 - n) mod 2 ^ 64 else n)))"

text \<open>What the parser takes from the library beyond that.\<close>

record conv_lib =
  stof :: "string \<Rightarrow> conv_fail + real"
  stod :: "string \<Rightarrow> conv_fail + real"
  what_text :: "conv_fail \<Rightarrow> string"

section \<open>The command line\<close>

text \<open>One option with its value: \<open>Inl\<close> an exception, \<open>Inr (cfg, ret)\<close> otherwise, where \<open>ret\<close> is an early
  return.  \<open>None\<close> when the name is not an option that takes a value.\<close>

definition option_with_value ::
    "conv_lib \<Rightarrow> string \<Rightarrow> string \<Rightarrow> wirewolf_config \<Rightarrow> (conv_fail + wirewolf_config \<times> bool) option" where
  "option_with_value lib arg v cfg =
     (if arg = ''--log-level'' then Some (case stoi v of Inl e \<Rightarrow> Inl e
        | Inr n \<Rightarrow> Inr (if n < 0 \<or> 3 < n then (cfg\<lparr>log_level := n, parse_error := ''log-level must be 0-3''\<rparr>, True)
                        else (cfg\<lparr>log_level := n\<rparr>, False)))
      else if arg = ''--queue-capacity'' then Some (case stoull v of Inl e \<Rightarrow> Inl e
        | Inr n \<Rightarrow> Inr (if n = 0 then (cfg\<lparr>queue_capacity := n, parse_error := ''queue-capacity must be > 0''\<rparr>, True)
                        else (cfg\<lparr>queue_capacity := n\<rparr>, False)))
      else if arg = ''--payload-limit'' then Some (case stoull v of Inl e \<Rightarrow> Inl e
        | Inr n \<Rightarrow> Inr (if n = 0 then (cfg\<lparr>payload_char_limit := n, parse_error := ''payload-limit must be > 0''\<rparr>, True)
                        else (cfg\<lparr>payload_char_limit := n\<rparr>, False)))
      else if arg = ''--max-tokens'' then Some (case stoi v of Inl e \<Rightarrow> Inl e
        | Inr n \<Rightarrow> Inr (if n \<le> 0 then (cfg\<lparr>max_tokens := n, parse_error := ''max-tokens must be > 0''\<rparr>, True)
                        else (cfg\<lparr>max_tokens := n\<rparr>, False)))
      else if arg = ''--max-llm-flows'' then Some (case stoull v of Inl e \<Rightarrow> Inl e
        | Inr n \<Rightarrow> Inr (cfg\<lparr>max_llm_flows := n\<rparr>, False))
      else if arg = ''--max-flow-size'' then Some (case stoull v of Inl e \<Rightarrow> Inl e
        | Inr n \<Rightarrow> Inr (if n = 0 then (cfg\<lparr>max_flow_payload_bytes := n, parse_error := ''max-flow-size must be > 0''\<rparr>, True)
                        else (cfg\<lparr>max_flow_payload_bytes := n\<rparr>, False)))
      else if arg = ''--entropy-high'' then Some (case stof lib v of Inl e \<Rightarrow> Inl e
        | Inr r \<Rightarrow> Inr (cfg\<lparr>entropy_high_threshold := r\<rparr>, False))
      else if arg = ''--entropy-low'' then Some (case stof lib v of Inl e \<Rightarrow> Inl e
        | Inr r \<Rightarrow> Inr (cfg\<lparr>entropy_low_threshold := r\<rparr>, False))
      else if arg = ''--behavioral-models'' then Some (Inr (cfg\<lparr>behavioral_models_dir := v\<rparr>, False))
      else if arg = ''--behavioral-threshold'' then Some (case stod lib v of Inl e \<Rightarrow> Inl e
        | Inr r \<Rightarrow> Inr (cfg\<lparr>behavioral_threshold := r\<rparr>, False))
      else if arg = ''--mode'' then Some (Inr
        (if v = ''live'' then (cfg\<lparr>analysis_mode_of := Live\<rparr>, False)
         else if v = ''forensic'' then (cfg\<lparr>analysis_mode_of := Forensic\<rparr>, False)
         else if v = ''auto'' then (cfg\<lparr>analysis_mode_of := Auto\<rparr>, False)
         else (cfg\<lparr>parse_error := ''mode must be live|forensic|auto''\<rparr>, True)))
      else None)"

definition flag_option :: "string \<Rightarrow> wirewolf_config \<Rightarrow> wirewolf_config" where
  "flag_option arg cfg =
     (if arg = ''--openvino'' then cfg\<lparr>openvino_enabled := True\<rparr>
      else if arg = ''--no-promisc'' then cfg\<lparr>promiscuous := False\<rparr>
      else cfg)"

text \<open>The loop over \<open>argv[4..]\<close>; an option that lacks its value falls through every branch.\<close>

function parse_options :: "conv_lib \<Rightarrow> string list \<Rightarrow> wirewolf_config \<Rightarrow> wirewolf_config" where
  "parse_options lib [] cfg = cfg"
| "parse_options lib [arg] cfg = flag_option arg cfg"
| "parse_options lib (arg # v # rest) cfg =
     (case option_with_value lib arg v cfg of
        None \<Rightarrow> parse_options lib (v # rest) (flag_option arg cfg)
      | Some (Inl e) \<Rightarrow> cfg\<lparr>parse_error := ''Invalid argument: '' @ what_text lib e\<rparr>
      | Some (Inr (cfg', ret)) \<Rightarrow> (if ret then cfg' else parse_options lib rest cfg'))"
  by pat_completeness auto
termination by (relation "measure (\<lambda>(l, args, c). length args)") auto

definition parse_config :: "conv_lib \<Rightarrow> string list \<Rightarrow> wirewolf_config" where
  "parse_config lib argv =
     (if length argv < 4 then default_config
      else parse_options lib (drop 4 argv)
             (default_config\<lparr>interface := argv ! 1, openvino_model_path := argv ! 2, llama_model_path := argv ! 3\<rparr>))"

definition config_valid :: "wirewolf_config \<Rightarrow> bool" where
  "config_valid cfg =
     (if parse_error cfg \<noteq> [] \<or> llama_model_path cfg = [] then False
      else if \<not> use_windivert cfg \<and> interface cfg = [] then False
      else if openvino_enabled cfg \<and> openvino_model_path cfg = [] then False
      else True)"

definition is_offline_capture :: "wirewolf_config \<Rightarrow> bool" where
  "is_offline_capture cfg = (ends_with (interface cfg) ''.pcap'' \<or> ends_with (interface cfg) ''.pcapng'')"

definition is_forensic :: "wirewolf_config \<Rightarrow> bool" where
  "is_forensic cfg =
     (if analysis_mode_of cfg = Forensic then True
      else if analysis_mode_of cfg = Live then False
      else is_offline_capture cfg)"

section \<open>Bounds of an accepted configuration\<close>

definition in_bounds :: "wirewolf_config \<Rightarrow> bool" where
  "in_bounds cfg =
     (0 < queue_capacity cfg \<and> 0 < payload_char_limit cfg \<and> 0 < max_flow_payload_bytes cfg \<and>
      0 < max_tokens cfg \<and> 0 \<le> log_level cfg \<and> log_level cfg \<le> 3)"

lemma option_with_value_bounds:
  assumes "option_with_value lib arg v cfg = Some (Inr (cfg', ret))" and "in_bounds cfg"
  shows "if ret then parse_error cfg' \<noteq> [] else in_bounds cfg'"
  using assms unfolding option_with_value_def
  by (simp add: in_bounds_def split: if_splits sum.splits) auto

lemma flag_option_bounds: "in_bounds cfg \<Longrightarrow> in_bounds (flag_option arg cfg)"
  by (simp add: flag_option_def in_bounds_def)

lemma parse_options_bounds:
  "in_bounds cfg \<Longrightarrow> parse_error (parse_options lib args cfg) = [] \<Longrightarrow>
   in_bounds (parse_options lib args cfg)"
proof (induction lib args cfg rule: parse_options.induct)
  case (3 lib arg v rest cfg)
  show ?case
  proof (cases "option_with_value lib arg v cfg")
    case None
    with 3 show ?thesis by (simp add: flag_option_bounds)
  next
    case (Some r)
    with 3 option_with_value_bounds[of lib arg v cfg] show ?thesis
      by (auto split: sum.splits prod.splits if_splits)
  qed
qed (auto simp: flag_option_bounds)

lemma default_in_bounds: "in_bounds default_config"
  by (simp add: in_bounds_def default_config_def)

text \<open>
  a configuration the pipeline accepts has a positive queue capacity, payload limit, flow size and
  token budget, a log level between 0 and 3, and the inputs its mode needs, whatever the command line.
\<close>
theorem accepted_config_in_bounds:
  assumes "config_valid (parse_config lib argv)"
  shows "in_bounds (parse_config lib argv) \<and> llama_model_path (parse_config lib argv) \<noteq> [] \<and>
    (use_windivert (parse_config lib argv) \<or> interface (parse_config lib argv) \<noteq> [])"
proof -
  have "parse_error (parse_config lib argv) = []"
    using assms by (simp add: config_valid_def split: if_splits)
  moreover have "in_bounds (default_config\<lparr>interface := a, openvino_model_path := b, llama_model_path := c\<rparr>)"
    for a b c using default_in_bounds by (simp add: in_bounds_def)
  ultimately have "in_bounds (parse_config lib argv)"
    using default_in_bounds parse_options_bounds by (auto simp: parse_config_def)
  then show ?thesis using assms by (auto simp: config_valid_def split: if_splits)
qed

definition trivial_lib :: conv_lib where
  "trivial_lib = \<lparr>stof = (\<lambda>s. Inl No_conversion), stod = (\<lambda>s. Inl No_conversion), what_text = (\<lambda>e. ''stoi'')\<rparr>"

theorem accepted_config_in_bounds_witness:
  "log_level (parse_config trivial_lib [''wirewolf'', ''eth0'', ''m.xml'', ''m.gguf'', ''--log-level'', ''3'']) = 3 \<and>
   in_bounds (parse_config trivial_lib [''wirewolf'', ''eth0'', ''m.xml'', ''m.gguf'', ''--log-level'', ''3''])"
proof -
  let ?c = "parse_config trivial_lib [''wirewolf'', ''eth0'', ''m.xml'', ''m.gguf'', ''--log-level'', ''3'']"
  have v: "config_valid ?c" and l: "log_level ?c = 3"
    by (simp_all add: parse_config_def option_with_value_def config_valid_def default_config_def stoi_def
        scan_integer_def is_space_def is_digit_def)
  from accepted_config_in_bounds[OF v] l show ?thesis by simp
qed

text \<open>
  a negative count is not rejected: with no other option, \<open>--queue-capacity -k\<close> is accepted and
  asks for a queue of \<open>2\<^sup>64 - k\<close> entries, which switches the bound of the queue off.
\<close>
theorem negative_capacity_accepted:
  assumes "0 < k" and "k < 2 ^ 64" and "inp \<noteq> []" and "llm \<noteq> []"
  shows "config_valid (parse_config lib [prog, inp, ov, llm, ''--queue-capacity'', CHR ''-'' # nat_to_string k]) \<and>
    queue_capacity (parse_config lib [prog, inp, ov, llm, ''--queue-capacity'', CHR ''-'' # nat_to_string k])
      = 2 ^ 64 - k"
proof -
  have s: "stoull (CHR ''-'' # nat_to_string k) = Inr (2 ^ 64 - k)"
    using assms(1,2) by (simp add: stoull_def scan_integer_def is_space_def Let_def)
  then show ?thesis
    using assms by (simp add: parse_config_def option_with_value_def config_valid_def default_config_def)
qed

theorem negative_capacity_accepted_witness:
  "queue_capacity (parse_config trivial_lib [''w'', ''eth0'', ''m'', ''g'', ''--queue-capacity'', CHR ''-'' # nat_to_string 1])
     = 18446744073709551615"
  using negative_capacity_accepted[of 1 "''eth0''" "''g''" trivial_lib "''w''" "''m''"] by simp

end
