(* ===== verification/Threat_Feed.thy ===== *)
theory Threat_Feed
  imports Wire_Prelude
begin

text \<open>
  \<^verbatim>\<open>include/threat_feed.hpp\<close>: the rule files and the lookups.  The file system is an argument,
  a partial map from paths to contents; an unordered set of strings is a list without duplicates.
\<close>

record content_signature =
  sig_name :: string
  sig_severity :: string
  sig_pattern :: string

record threat_feed =
  bad_ja3 :: "string list"
  bad_domains :: "string list"
  bad_ips :: "string list"
  signatures :: "content_signature list"
  loaded_dir :: string

type_synonym file_system = "string \<Rightarrow> string option"

definition empty_feed :: threat_feed where
  "empty_feed = \<lparr>bad_ja3 = [], bad_domains = [], bad_ips = [], signatures = [], loaded_dir = []\<rparr>"

definition feed_trim :: "string \<Rightarrow> string" where
  "feed_trim s = trim_chars [CHR '' '', CHR 0x09, CHR 0x0D, CHR 0x0A] s"

definition load_set :: "file_system \<Rightarrow> string \<Rightarrow> bool \<Rightarrow> string list \<Rightarrow> string list" where
  "load_set fs path lower out =
     (case fs path of None \<Rightarrow> out
      | Some text \<Rightarrow>
          fold (\<lambda>line out. let v = feed_trim line in
                  if v = [] \<or> hd v = CHR ''#'' then out else List.insert (if lower then to_lower v else v) out)
            (getline_split (CHR 0x0A) text) out)"

text \<open>The three successive \<open>std::getline\<close> calls on one line.\<close>

definition parse_signature :: "string \<Rightarrow> content_signature" where
  "parse_signature v =
     (let r1 = dropWhile (\<lambda>c. c \<noteq> CHR ''|'') v;
          r2 = dropWhile (\<lambda>c. c \<noteq> CHR ''|'') (tl r1)
      in \<lparr>sig_name = feed_trim (takeWhile (\<lambda>c. c \<noteq> CHR ''|'') v),
          sig_severity = feed_trim (takeWhile (\<lambda>c. c \<noteq> CHR ''|'') (tl r1)),
          sig_pattern = to_lower (feed_trim (tl r2))\<rparr>)"

definition load_signatures :: "file_system \<Rightarrow> string \<Rightarrow> content_signature list \<Rightarrow> content_signature list" where
  "load_signatures fs path out =
     (case fs path of None \<Rightarrow> out
      | Some text \<Rightarrow>
          fold (\<lambda>line out. let v = feed_trim line in
                  if v = [] \<or> hd v = CHR ''#'' then out
                  else (let s = parse_signature v in
                    if sig_pattern s = [] then out
                    else out @ [if sig_severity s = [] then s\<lparr>sig_severity := ''Malware Payload''\<rparr> else s]))
            (getline_split (CHR 0x0A) text) out)"

definition load_feed :: "file_system \<Rightarrow> string \<Rightarrow> threat_feed \<Rightarrow> nat \<times> threat_feed" where
  "load_feed fs dir tf =
     (let tf = tf\<lparr>bad_ja3 := [], bad_domains := [], bad_ips := [], signatures := []\<rparr> in
      if dir = [] then (0, tf)
      else (let base = (if last dir \<noteq> CHR ''/'' \<and> last dir \<noteq> CHR 0x5C then dir @ ''/'' else dir);
                tf = tf\<lparr>bad_ja3 := load_set fs (base @ ''bad_ja3.txt'') True (bad_ja3 tf),
                        bad_domains := load_set fs (base @ ''bad_domains.txt'') True (bad_domains tf),
                        bad_ips := load_set fs (base @ ''bad_ips.txt'') False (bad_ips tf),
                        signatures := load_signatures fs (base @ ''signatures.txt'') (signatures tf),
                        loaded_dir := dir\<rparr>
            in (length (bad_ja3 tf) + length (bad_domains tf) + length (bad_ips tf) + length (signatures tf), tf)))"

definition feed_empty :: "threat_feed \<Rightarrow> bool" where
  "feed_empty tf = (bad_ja3 tf = [] \<and> bad_domains tf = [] \<and> bad_ips tf = [] \<and> signatures tf = [])"

definition is_bad_ja3 :: "threat_feed \<Rightarrow> string \<Rightarrow> bool" where
  "is_bad_ja3 tf h = (to_lower h \<in> set (bad_ja3 tf))"

text \<open>The loop over the dots of the host name, on the suffix that is left.\<close>

fun parent_listed :: "string list \<Rightarrow> string \<Rightarrow> bool" where
  "parent_listed ds [] = False"
| "parent_listed ds (c # cs) = (if c = CHR ''.'' \<and> cs \<in> set ds then True else parent_listed ds cs)"

definition is_bad_domain :: "threat_feed \<Rightarrow> string \<Rightarrow> bool" where
  "is_bad_domain tf host =
     (if host = [] \<or> bad_domains tf = [] then False
      else (let h = to_lower host in if h \<in> set (bad_domains tf) then True else parent_listed (bad_domains tf) h))"

definition is_bad_ip :: "threat_feed \<Rightarrow> string \<Rightarrow> bool" where
  "is_bad_ip tf ip = (ip \<in> set (bad_ips tf))"

definition match_signature :: "threat_feed \<Rightarrow> string \<Rightarrow> content_signature option" where
  "match_signature tf text = find (\<lambda>s. sig_pattern s \<noteq> [] \<and> contains text (sig_pattern s)) (signatures tf)"

section \<open>Invariant of a loaded feed\<close>

definition feed_ok :: "threat_feed \<Rightarrow> bool" where
  "feed_ok tf =
     (distinct (bad_ja3 tf) \<and> distinct (bad_domains tf) \<and> distinct (bad_ips tf) \<and>
      list_all (\<lambda>d. d \<noteq> [] \<and> to_lower d = d) (bad_domains tf) \<and>
      list_all (\<lambda>s. sig_pattern s \<noteq> [] \<and> to_lower (sig_pattern s) = sig_pattern s \<and> sig_severity s \<noteq> [])
        (signatures tf))"

lemma to_lower_Nil_iff [simp]: "to_lower s = [] \<longleftrightarrow> s = []"
  by (simp add: to_lower_def)

lemma to_lower_Nil [simp]: "to_lower [] = []"
  by (simp add: to_lower_def)

lemma fold_invariant:
  "(\<And>x a. P a \<Longrightarrow> P (f x a)) \<Longrightarrow> P a \<Longrightarrow> P (fold f xs a)"
  by (induction xs arbitrary: a) auto

lemma load_set_distinct: "distinct out \<Longrightarrow> distinct (load_set fs p l out)"
  by (auto simp: load_set_def Let_def split: option.split intro!: fold_invariant[where P = distinct])

lemma list_all_insert: "list_all P (List.insert x xs) \<longleftrightarrow> P x \<and> list_all P xs"
  by (auto simp: list_all_iff)

lemma load_set_lower:
  "list_all (\<lambda>d. d \<noteq> [] \<and> to_lower d = d) out \<Longrightarrow>
   list_all (\<lambda>d. d \<noteq> [] \<and> to_lower d = d) (load_set fs p True out)"
  unfolding load_set_def
  by (cases "fs p")
     (auto simp: Let_def list_all_insert
       intro!: fold_invariant[where P = "list_all (\<lambda>d. d \<noteq> [] \<and> to_lower d = d)"])

lemma parse_signature_lower [simp]: "to_lower (sig_pattern (parse_signature v)) = sig_pattern (parse_signature v)"
  by (simp add: parse_signature_def Let_def)

lemma load_signatures_ok:
  "list_all (\<lambda>s. sig_pattern s \<noteq> [] \<and> to_lower (sig_pattern s) = sig_pattern s \<and> sig_severity s \<noteq> []) out \<Longrightarrow>
   list_all (\<lambda>s. sig_pattern s \<noteq> [] \<and> to_lower (sig_pattern s) = sig_pattern s \<and> sig_severity s \<noteq> [])
     (load_signatures fs p out)"
  unfolding load_signatures_def
  by (cases "fs p")
     (auto simp: Let_def intro!: fold_invariant[where P = "list_all (\<lambda>s. sig_pattern s \<noteq> [] \<and>
        to_lower (sig_pattern s) = sig_pattern s \<and> sig_severity s \<noteq> [])"])

lemma load_feed_ok: "feed_ok (snd (load_feed fs dir tf))"
  by (simp add: load_feed_def Let_def feed_ok_def load_set_distinct load_set_lower load_signatures_ok)

lemma parent_listed_iff: "parent_listed ds h \<longleftrightarrow> (\<exists>pre d. h = pre @ CHR ''.'' # d \<and> d \<in> set ds)"
proof (induction h)
  case Nil
  show ?case by simp
next
  case (Cons c cs)
  have "(\<exists>pre d. c # cs = pre @ CHR ''.'' # d \<and> d \<in> set ds) \<longleftrightarrow>
      c = CHR ''.'' \<and> cs \<in> set ds \<or> (\<exists>pre d. cs = pre @ CHR ''.'' # d \<and> d \<in> set ds)"
    by (auto simp: Cons_eq_append_conv)
  with Cons.IH show ?case by auto
qed

section \<open>Properties\<close>


end
