(* ===== verification/Proxy_Db.thy ===== *)
theory Proxy_Db
  imports Wire_Prelude "HOL-Library.Monad_Syntax"
begin

text \<open>
  \<^verbatim>\<open>include/proxy_db.hpp\<close>: the reader of the preprocessed proxy table.  Reads of the binary are
  checked; the result \<open>None\<close> is a read outside it.  The lemmas show that the binary search is safe
  and equal to a linear scan for the last row that starts at or below the address.
\<close>

record proxy_info =
  proxy_type :: string
  proxy_usage :: string
  proxy_threat :: string

record proxy_db =
  db_data :: bytes
  strs :: "string list"
  db_rows :: nat
  ready :: bool

definition new_proxy_db :: proxy_db where
  "new_proxy_db = \<lparr>db_data = [], strs = [], db_rows = 0, ready = False\<rparr>"

text \<open>The loop that cuts the string table at newlines; unlike \<open>std::getline\<close> it keeps a last empty entry.\<close>

fun split_lines :: "string \<Rightarrow> string \<Rightarrow> string list" where
  "split_lines acc [] = [rev acc]"
| "split_lines acc (c # cs) = (if c = CHR 0x0A then rev acc # split_lines [] cs else split_lines (c # acc) cs)"

definition str_path :: "string \<Rightarrow> string" where
  "str_path binPath =
     (if CHR ''.'' \<in> set binPath then rev (tl (dropWhile (\<lambda>c. c \<noteq> CHR ''.'') (rev binPath))) else binPath) @ ''.str''"

definition load_proxy_db :: "(string \<Rightarrow> bytes option) \<Rightarrow> string \<Rightarrow> proxy_db \<Rightarrow> bool \<times> proxy_db" where
  "load_proxy_db fs binPath db =
     (case fs binPath of None \<Rightarrow> (False, db)
      | Some bin \<Rightarrow>
          if length bin < 12 then (False, db)
          else (let db = db\<lparr>db_data := bin, db_rows := length bin div 12\<rparr>;
                    db = (case fs (str_path binPath) of None \<Rightarrow> db
                          | Some t \<Rightarrow> db\<lparr>strs := strs db @ split_lines [] (text_of t)\<rparr>);
                    db = db\<lparr>ready := 0 < db_rows db \<and> strs db \<noteq> []\<rparr>
                in (ready db, db)))"

definition u32_at :: "bytes \<Rightarrow> nat \<Rightarrow> u32 option" where
  "u32_at d off = do {
     a \<leftarrow> rd d off; b \<leftarrow> rd d (off + 1); c \<leftarrow> rd d (off + 2); e \<leftarrow> rd d (off + 3);
     Some (ucast a OR push_bit 8 (ucast b) OR push_bit 16 (ucast c) OR push_bit 24 (ucast e))
   }"

function search_loop :: "bytes \<Rightarrow> u32 \<Rightarrow> int \<Rightarrow> int \<Rightarrow> int \<Rightarrow> int option" where
  "search_loop d ip lo hi ans =
     (if lo \<le> hi then do {
        v \<leftarrow> u32_at d (nat ((lo + hi) div 2) * 12);
        if v \<le> ip then search_loop d ip ((lo + hi) div 2 + 1) hi ((lo + hi) div 2)
        else search_loop d ip lo ((lo + hi) div 2 - 1) ans
      } else Some ans)"
  by pat_completeness auto
termination by (relation "measure (\<lambda>(d, ip, lo, hi, ans). nat (hi - lo + 1))") auto

declare search_loop.simps [simp del]

text \<open>The fields of a table entry; \<open>t1\<close>, \<open>t2\<close>, \<open>t3\<close> are the positions of the tabs.\<close>

definition split_entry :: "string \<Rightarrow> proxy_info" where
  "split_entry s =
     (let tab = [CHR 0x09];
          t1 = find_sub tab s;
          t2 = (case t1 of None \<Rightarrow> None | Some p \<Rightarrow> find_from tab s (p + 1));
          t3 = (case t2 of None \<Rightarrow> None | Some p \<Rightarrow> find_from tab s (p + 1))
      in \<lparr>proxy_type = (case t1 of None \<Rightarrow> s | Some p \<Rightarrow> take p s),
          proxy_usage = (case (t1, t2) of (Some p, Some r) \<Rightarrow> take (r - p - 1) (drop (p + 1) s) | _ \<Rightarrow> []),
          proxy_threat = (case (t2, t3) of (Some p, Some r) \<Rightarrow> take (r - p - 1) (drop (p + 1) s) | _ \<Rightarrow> [])\<rparr>)"

definition proxy_lookup :: "proxy_db \<Rightarrow> u32 \<Rightarrow> proxy_info \<Rightarrow> (bool \<times> proxy_info) option" where
  "proxy_lookup db ip out =
     (if \<not> ready db then Some (False, out) else do {
        ans \<leftarrow> search_loop (db_data db) ip 0 (int (db_rows db) - 1) (- 1);
        if ans < 0 then Some (False, out) else do {
          e \<leftarrow> u32_at (db_data db) (nat ans * 12 + 4);
          if e < ip then Some (False, out) else do {
            idx \<leftarrow> u32_at (db_data db) (nat ans * 12 + 8);
            if length (strs db) \<le> unat idx then Some (False, out)
            else Some (True, split_entry (strs db ! unat idx))
          }
        }
      })"

section \<open>Memory safety\<close>

definition db_ok :: "proxy_db \<Rightarrow> bool" where
  "db_ok db = (ready db \<longrightarrow> db_rows db = length (db_data db) div 12)"

lemma load_proxy_db_ok: "db_ok db \<Longrightarrow> db_ok (snd (load_proxy_db fs p db))"
  by (simp add: load_proxy_db_def db_ok_def Let_def split: option.split)

lemma u32_at_lt: "off + 4 \<le> length d \<Longrightarrow> \<exists>v. u32_at d off = Some v"
  by (simp add: u32_at_def rd_lt)

text \<open>Row \<open>i\<close> of the table.\<close>

definition row_start :: "bytes \<Rightarrow> nat \<Rightarrow> u32" where "row_start d i = the (u32_at d (i * 12))"
definition row_end :: "bytes \<Rightarrow> nat \<Rightarrow> u32" where "row_end d i = the (u32_at d (i * 12 + 4))"
definition row_str :: "bytes \<Rightarrow> nat \<Rightarrow> u32" where "row_str d i = the (u32_at d (i * 12 + 8))"

lemma row_reads:
  assumes "i < length d div 12"
  shows "u32_at d (i * 12) = Some (row_start d i)" and "u32_at d (i * 12 + 4) = Some (row_end d i)"
    and "u32_at d (i * 12 + 8) = Some (row_str d i)"
proof -
  have "Suc i * 12 \<le> length d" using assms by (metis Suc_leI div_times_less_eq_dividend le_trans mult_le_mono1)
  then have l: "i * 12 + 12 \<le> length d" by simp
  show "u32_at d (i * 12) = Some (row_start d i)"
    using u32_at_lt[of "i * 12" d] l by (auto simp: row_start_def)
  show "u32_at d (i * 12 + 4) = Some (row_end d i)"
    using u32_at_lt[of "i * 12 + 4" d] l by (auto simp: row_end_def)
  show "u32_at d (i * 12 + 8) = Some (row_str d i)"
    using u32_at_lt[of "i * 12 + 8" d] l by (auto simp: row_str_def)
qed

definition starts_sorted :: "bytes \<Rightarrow> bool" where
  "starts_sorted d = sorted (map (row_start d) [0..<length d div 12])"

lemma starts_sorted_le:
  "starts_sorted d \<Longrightarrow> i \<le> j \<Longrightarrow> j < length d div 12 \<Longrightarrow> row_start d i \<le> row_start d j"
  using sorted_nth_mono[of "map (row_start d) [0..<length d div 12]" i j]
  by (simp add: starts_sorted_def)

text \<open>What the loop keeps: everything below \<open>lo\<close> starts at or below the address, everything above
  \<open>hi\<close> starts above it, and \<open>ans\<close> is the row before \<open>lo\<close>.\<close>

lemma search_loop_correct:
  assumes "starts_sorted d" and "0 \<le> lo" and "lo \<le> hi + 1" and "hi < int (length d div 12)"
    and "\<And>i. int i < lo \<Longrightarrow> row_start d i \<le> ip"
    and "\<And>i. hi < int i \<Longrightarrow> i < length d div 12 \<Longrightarrow> ip < row_start d i"
    and "ans = lo - 1"
  shows "\<exists>r. search_loop d ip lo hi ans = Some r \<and> - 1 \<le> r \<and> r < int (length d div 12) \<and>
    (\<forall>i < length d div 12. row_start d i \<le> ip \<longleftrightarrow> int i \<le> r)"
  using assms
proof (induction d ip lo hi ans rule: search_loop.induct)
  case (1 d ip lo hi ans)
  show ?case
  proof (cases "lo \<le> hi")
    case False
    then have "lo = hi + 1" using "1.prems" by simp
    then show ?thesis using "1.prems"
      by (subst search_loop.simps) (auto simp: not_le[symmetric] intro: leI)
  next
    case True
    let ?m = "(lo + hi) div 2"
    have m: "lo \<le> ?m" "?m \<le> hi" "0 \<le> ?m" using True "1.prems"(2) by auto
    then have mr: "nat ?m < length d div 12" using "1.prems"(4) by linarith
    note r = row_reads(1)[OF mr]
    show ?thesis
    proof (cases "row_start d (nat ?m) \<le> ip")
      case le: True
      have below: "row_start d i \<le> ip" if "int i < ?m + 1" for i
        using starts_sorted_le[OF "1.prems"(1) _ mr, of i] that le by force
      have "\<exists>r. search_loop d ip (?m + 1) hi ?m = Some r \<and> - 1 \<le> r \<and> r < int (length d div 12) \<and>
          (\<forall>i < length d div 12. row_start d i \<le> ip \<longleftrightarrow> int i \<le> r)"
        by (rule 1(1)[OF True r le "1.prems"(1)]) (use m "1.prems" below in auto)
      then show ?thesis by (subst search_loop.simps) (simp add: True r le)
    next
      case gt: False
      have above: "ip < row_start d i" if "?m - 1 < int i" "i < length d div 12" for i
        using starts_sorted_le[OF "1.prems"(1) _ that(2), of "nat ?m"] that(1) gt m by force
      have "\<exists>r. search_loop d ip lo (?m - 1) ans = Some r \<and> - 1 \<le> r \<and> r < int (length d div 12) \<and>
          (\<forall>i < length d div 12. row_start d i \<le> ip \<longleftrightarrow> int i \<le> r)"
        by (rule 1(2)[OF True r gt "1.prems"(1)]) (use m "1.prems" above in auto)
      then show ?thesis by (subst search_loop.simps) (simp add: True r gt)
    qed
  qed
qed

text \<open>The reference: scan the rows from the last to the first for one that starts at or below.\<close>

definition linear_lookup :: "proxy_db \<Rightarrow> u32 \<Rightarrow> proxy_info \<Rightarrow> bool \<times> proxy_info" where
  "linear_lookup db ip out =
     (case find (\<lambda>i. row_start (db_data db) i \<le> ip) (rev [0..<length (db_data db) div 12]) of
        None \<Rightarrow> (False, out)
      | Some i \<Rightarrow>
          if ip \<le> row_end (db_data db) i \<and> unat (row_str (db_data db) i) < length (strs db)
          then (True, split_entry (strs db ! unat (row_str (db_data db) i))) else (False, out))"

lemma find_rev_upt:
  "(\<And>i. i < n \<Longrightarrow> P i \<longleftrightarrow> int i \<le> r) \<Longrightarrow> r < int n \<Longrightarrow> - 1 \<le> r \<Longrightarrow>
   find P (rev [0..<n]) = (if r < 0 then None else Some (nat r))"
proof (induction n)
  case 0
  then show ?case by simp
next
  case (Suc n)
  show ?case
  proof (cases "r = int n")
    case True
    with Suc.prems(1)[of n] show ?thesis by simp
  next
    case False
    then have "r < int n" using Suc.prems(2) by simp
    with Suc show ?thesis by simp
  qed
qed

text \<open>
  C37: on a table whose start column is sorted, as the converter writes it, the binary search reads only
  inside the file and returns what a linear scan for the last row starting at or below the address
  returns, truncated trailing rows and dangling string indices included.
\<close>
theorem proxy_lookup_linear:
  assumes "ready db" and "db_ok db" and "starts_sorted (db_data db)"
  shows "proxy_lookup db ip out = Some (linear_lookup db ip out)"
proof -
  let ?d = "db_data db" and ?n = "length (db_data db) div 12"
  have rows: "db_rows db = ?n" using assms by (simp add: db_ok_def)
  have "\<exists>r. search_loop ?d ip 0 (int ?n - 1) (- 1) = Some r \<and> - 1 \<le> r \<and> r < int ?n \<and>
      (\<forall>i < ?n. row_start ?d i \<le> ip \<longleftrightarrow> int i \<le> r)"
    by (rule search_loop_correct[OF assms(3)]) simp_all
  then obtain r where r: "search_loop ?d ip 0 (int ?n - 1) (- 1) = Some r" "- 1 \<le> r" "r < int ?n"
      "\<forall>i < ?n. row_start ?d i \<le> ip \<longleftrightarrow> int i \<le> r" by blast
  have f: "find (\<lambda>i. row_start ?d i \<le> ip) (rev [0..<?n]) = (if r < 0 then None else Some (nat r))"
    using r(2-4) by (intro find_rev_upt) auto
  show ?thesis
  proof (cases "r < 0")
    case True
    then show ?thesis using assms(1) r(1) by (simp add: proxy_lookup_def linear_lookup_def rows f)
  next
    case False
    then have "nat r < ?n" using r(3) by linarith
    with False show ?thesis
      using assms(1) r(1) by (simp add: proxy_lookup_def linear_lookup_def rows f row_reads not_le not_less)
  qed
qed

definition sample_db :: proxy_db where
  "sample_db = snd (load_proxy_db (\<lambda>p. if p = ''px.bin'' then
       Some [10,0,0,0, 20,0,0,0, 0,0,0,0,  30,0,0,0, 40,0,0,0, 1,0,0,0, 9, 9]
     else if p = ''px.str'' then Some (bytes_of (''VPN'' @ [CHR 0x09] @ ''DCH'' @ [CHR 0x09] @ ''-'' @ [CHR 0x09] @ ''0'' @ [CHR 0x0A]
       @ ''PUB'' @ [CHR 0x09] @ ''ISP'' @ [CHR 0x09] @ ''BOTNET'' @ [CHR 0x09] @ ''9'')) else None) ''px.bin'' new_proxy_db)"

theorem proxy_lookup_linear_witness:
  "proxy_lookup sample_db 35 (split_entry []) = Some (True, \<lparr>proxy_type = ''PUB'', proxy_usage = ''ISP'', proxy_threat = ''BOTNET''\<rparr>) \<and>
   proxy_lookup sample_db 25 (split_entry []) = Some (False, split_entry [])"
proof -
  have r: "ready sample_db" and o: "db_ok sample_db" and s: "starts_sorted (db_data sample_db)"
    by code_simp+
  have "linear_lookup sample_db 35 (split_entry []) = (True, \<lparr>proxy_type = ''PUB'', proxy_usage = ''ISP'', proxy_threat = ''BOTNET''\<rparr>)"
    by code_simp
  moreover have "linear_lookup sample_db 25 (split_entry []) = (False, split_entry [])" by code_simp
  ultimately show ?thesis using proxy_lookup_linear[OF r o s] by simp
qed

end
