(* ===== verification/Behavioral_Model.thy ===== *)
theory Behavioral_Model
  imports Complex_Main "HOL-Library.Multiset" Wire_Prelude
begin

text \<open>
  \<^verbatim>\<open>src/behavioral_model.cpp\<close>: the encoder of connections into state strings and the
  first-order Markov model over them.  A \<open>std::map\<close> is an association list with distinct keys;
  where the code iterates it, the entries are sorted by the (signed) key.  \<open>std::sort\<close> on the start
  times is the stable sort.  The default formatting and the parsing of doubles are arguments.
  The lemmas show the shape of state strings, that training keeps the counters consistent, and that
  the smoothed transition probabilities of a trained model are a distribution over its alphabet.
\<close>

section \<open>Encoding\<close>

record beh_flow =
  start_time :: real
  flow_duration :: real
  tot_bytes :: nat

record beh_config =
  byte_buckets :: "nat list"
  dur_buckets :: "real list"
  gap_buckets :: "real list"
  markov_k :: real
  min_flows :: nat

definition default_beh_config :: beh_config where
  "default_beh_config =
     \<lparr>byte_buckets = [128, 1024, 8192, 65536], dur_buckets = [1, 10], gap_buckets = [2, 60, 3600],
      markov_k = 5 / 10, min_flows = 4\<rparr>"

fun bucket_of :: "'v::linorder \<Rightarrow> 'v list \<Rightarrow> nat" where
  "bucket_of v [] = 0"
| "bucket_of v (b # bs) = (if v < b then 0 else Suc (bucket_of v bs))"

definition fingerprint :: "(real \<Rightarrow> string) \<Rightarrow> beh_config \<Rightarrow> string" where
  "fingerprint fmt cfg =
     ''bytes:'' @ concat (map (\<lambda>b. nat_to_string b @ '','') (byte_buckets cfg)) @
     ''|dur:'' @ concat (map (\<lambda>d. fmt d @ '','') (dur_buckets cfg)) @
     ''|gap:'' @ concat (map (\<lambda>g. fmt g @ '','') (gap_buckets cfg)) @
     ''|k:'' @ fmt (markov_k cfg) @ ''|min:'' @ nat_to_string (min_flows cfg)"

definition symbols :: string where
  "symbols = ''.-+*#%@''"

definition flow_letter :: "beh_config \<Rightarrow> beh_flow \<Rightarrow> char" where
  "flow_letter cfg f =
     char_of (97 + (bucket_of (tot_bytes f) (byte_buckets cfg) * (length (dur_buckets cfg) + 1) +
                    bucket_of (flow_duration f) (dur_buckets cfg)))"

definition gap_symbol :: "beh_config \<Rightarrow> real option \<Rightarrow> beh_flow \<Rightarrow> char" where
  "gap_symbol cfg prev f =
     (let sym_idx = (case prev of None \<Rightarrow> 0
                     | Some p \<Rightarrow> 1 + bucket_of (max 0 (start_time f - p)) (gap_buckets cfg))
      in symbols ! (if 7 \<le> sym_idx then 7 - 1 else sym_idx))"

fun encode_flows :: "beh_config \<Rightarrow> real option \<Rightarrow> beh_flow list \<Rightarrow> string" where
  "encode_flows cfg prev [] = []"
| "encode_flows cfg prev (f # fs) =
     flow_letter cfg f # gap_symbol cfg prev f # encode_flows cfg (Some (start_time f)) fs"

definition encode_connection :: "beh_flow list \<Rightarrow> beh_config \<Rightarrow> string" where
  "encode_connection flows cfg =
     (if length flows < 2 then [] else encode_flows cfg None (sort_key start_time flows))"

section \<open>The Markov model\<close>

record markov_model =
  model_label :: string
  model_k :: real
  counts :: "(char \<times> (char \<times> int) list) list"
  row_totals :: "(char \<times> int) list"
  alphabet :: "char list"
  total :: int

definition new_model :: "string \<Rightarrow> real \<Rightarrow> markov_model" where
  "new_model l k = \<lparr>model_label = l, model_k = k, counts = [], row_totals = [], alphabet = [], total = 0\<rparr>"

definition row_of :: "(char \<times> (char \<times> int) list) list \<Rightarrow> char \<Rightarrow> (char \<times> int) list" where
  "row_of cs from = (case map_of cs from of None \<Rightarrow> [] | Some r \<Rightarrow> r)"

definition entry :: "('k \<times> int) list \<Rightarrow> 'k \<Rightarrow> int" where
  "entry al x = (case map_of al x of None \<Rightarrow> 0 | Some n \<Rightarrow> n)"

text \<open>\<open>counts_[from][to]\<close> after \<open>operator[]\<close> has created what was missing\<close>

definition observe_step :: "char \<Rightarrow> char \<Rightarrow> markov_model \<Rightarrow> markov_model" where
  "observe_step from to m =
     m\<lparr>counts := al_put from (al_put to (entry (row_of (counts m) from) to + 1) (row_of (counts m) from)) (counts m),
       row_totals := al_put from (entry (row_totals m) from + 1) (row_totals m),
       alphabet := List.insert to (alphabet m),
       total := total m + 1\<rparr>"

fun observe_pairs :: "string \<Rightarrow> markov_model \<Rightarrow> markov_model" where
  "observe_pairs (a # b # s) m = observe_pairs (b # s) (observe_step a b m)"
| "observe_pairs _ m = m"

definition observe :: "string \<Rightarrow> markov_model \<Rightarrow> markov_model" where
  "observe s m =
     (if length s < 2 then m else observe_pairs s (m\<lparr>alphabet := List.insert (s ! 0) (alphabet m)\<rparr>))"

definition train :: "string list \<Rightarrow> markov_model \<Rightarrow> markov_model" where
  "train ss m = fold observe ss m"

text \<open>The smoothed probability, and its logarithm as the code returns it.\<close>

definition prob :: "markov_model \<Rightarrow> char \<Rightarrow> char \<Rightarrow> real" where
  "prob m from to =
     (of_int (entry (row_of (counts m) from) to) + model_k m) /
     (of_int (entry (row_totals m) from) + model_k m * real (length (alphabet m)))"

definition log_prob :: "markov_model \<Rightarrow> char \<Rightarrow> char \<Rightarrow> real" where
  "log_prob m from to = ln (prob m from to)"

fun sum_log_prob :: "markov_model \<Rightarrow> string \<Rightarrow> real" where
  "sum_log_prob m (a # b # s) = log_prob m a b + sum_log_prob m (b # s)"
| "sum_log_prob m _ = 0"

definition score :: "markov_model \<Rightarrow> string \<Rightarrow> real" where
  "score m s =
     (if length s < 2 \<or> alphabet m = [] then 0 else sum_log_prob m s / real (length s - 1))"

section \<open>The text format\<close>

definition signed_char :: "char \<Rightarrow> int" where
  "signed_char c = (let n = (of_char c :: int) in if n < 128 then n else n - 256)"

definition by_key :: "(char \<times> 'v) list \<Rightarrow> (char \<times> 'v) list" where
  "by_key al = sort_key (\<lambda>p. signed_char (fst p)) al"

definition serialize_row :: "char \<Rightarrow> (char \<times> int) list \<Rightarrow> string" where
  "serialize_row from row =
     from # '' '' @ nat_to_string (length row) @
     concat (map (\<lambda>(to, n). '' '' @ [to] @ '':'' @ int_to_string n) (by_key row))"

definition serialize :: "(real \<Rightarrow> string) \<Rightarrow> markov_model \<Rightarrow> string \<Rightarrow> string list" where
  "serialize fmt m fp =
     [''WIREWOLF-BEHAVIORAL-MODEL v1'', ''label '' @ model_label m, ''k '' @ fmt (model_k m), ''config '' @ fp,
      ''alphabet '' @ sort_key signed_char (alphabet m), ''transitions '' @ nat_to_string (length (counts m))] @
     map (\<lambda>(from, row). serialize_row from row) (by_key (counts m))"

definition blank :: "char \<Rightarrow> bool" where
  "blank c = (let n = (of_char c :: nat) in n = 32 \<or> 9 \<le> n \<and> n \<le> 13)"

text \<open>One \<open>ss >> word\<close>: the word and the rest of the stream; an empty word is a failed extraction.\<close>

definition next_word :: "string \<Rightarrow> string \<times> string" where
  "next_word s = (let t = dropWhile blank s in (takeWhile (\<lambda>c. \<not> blank c) t, dropWhile (\<lambda>c. \<not> blank c) t))"

function words_of :: "string \<Rightarrow> string list" where
  "words_of s = (case next_word s of (w, r) \<Rightarrow> if w = [] then [] else w # words_of r)"
  by pat_completeness auto
termination
proof (relation "measure length")
  fix s w r
  assume "(w, r) = next_word s" and "w \<noteq> []"
  then have "w @ r = dropWhile blank s" by (simp add: next_word_def Let_def)
  then have "length w + length r \<le> length s" by (metis length_append length_dropWhile_le)
  with \<open>w \<noteq> []\<close> show "(r, s) \<in> measure length" by (cases w) auto
qed auto

declare words_of.simps [simp del]

text \<open>\<open>std::stol\<close>; \<open>None\<close> is its exception.\<close>

definition stol :: "string \<Rightarrow> int option" where
  "stol s =
     (let t = dropWhile blank s;
          u = (if t \<noteq> [] \<and> (hd t = CHR ''-'' \<or> hd t = CHR ''+'') then tl t else t);
          ds = takeWhile is_digit u;
          v = (if t \<noteq> [] \<and> hd t = CHR ''-'' then - int (digits_value 0 ds) else int (digits_value 0 ds))
      in if ds = [] \<or> \<not> (- (2 ^ 63) \<le> v \<and> v < 2 ^ 63) then None else Some v)"

definition load_entry :: "char \<Rightarrow> char \<Rightarrow> int \<Rightarrow> markov_model \<Rightarrow> markov_model" where
  "load_entry from to c m =
     m\<lparr>counts := al_put from (al_put to c (row_of (counts m) from)) (counts m),
       row_totals := al_put from (entry (row_totals m) from + c) (row_totals m),
       total := total m + c,
       alphabet := List.insert to (List.insert from (alphabet m))\<rparr>"

fun load_tokens :: "char \<Rightarrow> string list \<Rightarrow> markov_model \<Rightarrow> markov_model option" where
  "load_tokens from [] m = Some m"
| "load_tokens from (tok # toks) m =
     (case find_sub '':'' tok of None \<Rightarrow> load_tokens from toks m
      | Some pos \<Rightarrow>
          (case stol (drop (pos + 1) tok) of None \<Rightarrow> None
           | Some c \<Rightarrow> load_tokens from toks (load_entry from (tok ! 0) c m)))"

text \<open>A transition row: the character, the ignored count, the tokens.  A line without a character
  leaves \<open>from\<close> unset; there are then no tokens either.\<close>

definition load_row :: "string \<Rightarrow> markov_model \<Rightarrow> markov_model option" where
  "load_row line m =
     (case dropWhile blank line of [] \<Rightarrow> Some m
      | from # rest \<Rightarrow>
          (let ds = takeWhile is_digit (dropWhile blank rest)
           in if ds = [] then Some m
              else load_tokens from (words_of (drop (length ds) (dropWhile blank rest))) m))"

fun load_rows :: "nat \<Rightarrow> string list \<Rightarrow> markov_model \<Rightarrow> (markov_model \<times> string list) option" where
  "load_rows 0 ls m = Some (m, ls)"
| "load_rows (Suc n) [] m = Some (m, [])"
| "load_rows (Suc n) (l # ls) m = (case load_row l m of None \<Rightarrow> None | Some m' \<Rightarrow> load_rows n ls m')"

lemma load_rows_length: "load_rows n ls m = Some (m', ls') \<Longrightarrow> length ls' \<le> length ls"
  by (induction n ls m rule: load_rows.induct) (auto split: option.splits)

function load_lines :: "(string \<Rightarrow> real option) \<Rightarrow> string list \<Rightarrow> markov_model \<Rightarrow> string \<Rightarrow> (markov_model \<times> string) option" where
  "load_lines rdk [] m fp = Some (m, fp)"
| "load_lines rdk (line # ls) m fp =
     (case next_word line of (key, rest) \<Rightarrow>
        if key = ''label'' then
          load_lines rdk ls (if fst (next_word rest) = [] then m else m\<lparr>model_label := fst (next_word rest)\<rparr>) fp
        else if key = ''k'' then
          load_lines rdk ls (case rdk (fst (next_word rest)) of None \<Rightarrow> m\<lparr>model_k := 0\<rparr> | Some k \<Rightarrow> m\<lparr>model_k := k\<rparr>) fp
        else if key = ''config'' then
          load_lines rdk ls m (if rest \<noteq> [] \<and> hd rest = CHR '' '' then tl rest else rest)
        else if key = ''alphabet'' then
          load_lines rdk ls (m\<lparr>alphabet := fold List.insert (fst (next_word rest)) (alphabet m)\<rparr>) fp
        else if key = ''transitions'' then
          (case load_rows (digits_value 0 (takeWhile is_digit (fst (next_word rest)))) ls m of
             None \<Rightarrow> None | Some (m', ls') \<Rightarrow> load_lines rdk ls' m' fp)
        else load_lines rdk ls m fp)"
  by pat_completeness auto
termination
  by (relation "measure (\<lambda>(r, ls, m, f). length ls)") (auto dest: load_rows_length)

text \<open>\<open>MarkovModel::load\<close> on the lines of the stream, the first of which is the header.\<close>

definition load_model :: "(string \<Rightarrow> real option) \<Rightarrow> string list \<Rightarrow> (markov_model \<times> string) option" where
  "load_model rdk ls = load_lines rdk (tl ls) (new_model [] (5 / 10)) []"


section \<open>State strings\<close>

lemma bucket_of_le: "bucket_of v bs \<le> length bs"
  by (induction v bs rule: bucket_of.induct) auto

lemma encode_flows_length: "length (encode_flows cfg prev fs) = 2 * length fs"
  by (induction cfg prev fs rule: encode_flows.induct) auto

fun evens_odds :: "(char \<Rightarrow> bool) \<Rightarrow> (char \<Rightarrow> bool) \<Rightarrow> string \<Rightarrow> bool" where
  "evens_odds P Q (a # b # s) = (P a \<and> Q b \<and> evens_odds P Q s)"
| "evens_odds P Q [a] = False"
| "evens_odds P Q [] = True"

lemma gap_symbol_in: "gap_symbol cfg prev f \<in> set symbols"
  unfolding gap_symbol_def Let_def by (rule nth_mem) (auto simp: symbols_def)

definition letters :: string where
  "letters = ''abcdefghijklmno''"

lemma default_letter: "flow_letter default_beh_config f \<in> set letters"
proof -
  let ?b = "bucket_of (tot_bytes f) [128, 1024, 8192, 65536]" and ?d = "bucket_of (flow_duration f) [1, 10]"
  have l: "\<forall>k \<in> set [0..<15]. char_of (97 + k :: nat) \<in> set letters" by code_simp
  have "?b \<le> 4" using bucket_of_le[of "tot_bytes f" "[128, 1024, 8192, 65536]"] by simp
  moreover have "?d \<le> 2" using bucket_of_le[of "flow_duration f" "[1, 10]"] by simp
  ultimately have "?b * 3 + ?d < 15" by linarith
  with l have "char_of (97 + (?b * 3 + ?d)) \<in> set letters" by (simp del: bucket_of.simps)
  then show ?thesis by (simp add: flow_letter_def default_beh_config_def ac_simps del: bucket_of.simps)
qed

lemma encode_flows_shape:
  "evens_odds (\<lambda>c. c \<in> set letters) (\<lambda>c. c \<in> set symbols) (encode_flows default_beh_config prev fs)"
proof (induction fs arbitrary: prev)
  case (Cons f fs)
  then show ?case by (simp add: gap_symbol_in default_letter)
qed simp

lemma distinct_set_single: "distinct xs \<Longrightarrow> set xs = {k} \<Longrightarrow> xs = [k]"
  by (cases xs) (auto simp: subset_singleton_iff dest: arg_cong[where f = set] split: if_splits)

lemma encode_connection_perm:
  assumes "mset fs = mset gs" and "distinct (map start_time fs)"
  shows "encode_connection fs cfg = encode_connection gs cfg"
proof -
  have "sort_key start_time fs = sort_key start_time gs"
  proof (rule properties_for_sort_key)
    show "mset (sort_key start_time gs) = mset fs" using assms(1) by simp
    have "inj_on start_time (set fs)" using assms(2) by (simp add: distinct_map)
    have d: "distinct fs" "distinct gs" using assms by (auto simp: distinct_map dest: mset_eq_imp_distinct_iff)
    show "filter (\<lambda>x. start_time k = start_time x) (sort_key start_time gs) =
        filter (\<lambda>x. start_time k = start_time x) fs" if "k \<in> set (sort_key start_time gs)" for k
    proof -
      have "set gs = set fs" using assms(1) by (metis set_mset_mset)
      with that have k: "k \<in> set fs" by simp
      have one: "filter (\<lambda>x. start_time k = start_time x) xs = [k]" if "distinct xs" "set xs = set fs" for xs
      proof -
        have "set (filter (\<lambda>x. start_time k = start_time x) xs) = {k}"
          using \<open>inj_on start_time (set fs)\<close> k that(2) by (auto simp: inj_on_def)
        moreover have "distinct (filter (\<lambda>x. start_time k = start_time x) xs)" using that(1) by simp
        ultimately show ?thesis by (rule distinct_set_single[rotated])
      qed
      show ?thesis using one[of "sort_key start_time gs"] one[of fs] d \<open>set gs = set fs\<close> by simp
    qed
    show "sorted (map start_time (sort_key start_time gs))" by simp
  qed
  moreover have "length fs = length gs" using assms(1) by (metis size_mset)
  ultimately show ?thesis by (simp add: encode_connection_def)
qed

section \<open>Consistency of the counters\<close>

definition model_ok :: "markov_model \<Rightarrow> bool" where
  "model_ok m =
     (keys_distinct (counts m) \<and> distinct (alphabet m) \<and>
      (\<forall>a r. (a, r) \<in> set (counts m) \<longrightarrow> a \<in> set (alphabet m) \<and> keys_distinct r \<and>
         fst ` set r \<subseteq> set (alphabet m) \<and> (\<forall>(b, n) \<in> set r. 0 < n)) \<and>
      (\<forall>a. entry (row_totals m) a = sum_list (map snd (row_of (counts m) a))))"

lemma entry_al_put [simp]: "entry (al_put k v al) x = (if x = k then v else entry al x)"
  by (simp add: entry_def)

lemma row_of_al_put [simp]: "row_of (al_put k r cs) x = (if x = k then r else row_of cs x)"
  by (simp add: row_of_def)

lemma entry_Nil [simp]: "entry [] x = 0"
  by (simp add: entry_def)

lemma row_of_Nil [simp]: "row_of [] x = []"
  by (simp add: row_of_def)

lemma row_of_ok:
  assumes "model_ok m"
  shows "keys_distinct (row_of (counts m) a)" "fst ` set (row_of (counts m) a) \<subseteq> set (alphabet m)"
    "(b, n) \<in> set (row_of (counts m) a) \<Longrightarrow> 0 < n"
proof -
  have "keys_distinct (row_of (counts m) a) \<and> fst ` set (row_of (counts m) a) \<subseteq> set (alphabet m) \<and>
    (\<forall>(b, n) \<in> set (row_of (counts m) a). 0 < n)"
  proof (cases "map_of (counts m) a")
    case None
    then show ?thesis by (simp add: row_of_def)
  next
    case (Some r)
    then have "(a, r) \<in> set (counts m)" by (rule map_of_SomeD)
    with assms have "keys_distinct r \<and> fst ` set r \<subseteq> set (alphabet m) \<and> (\<forall>(b, n) \<in> set r. 0 < n)"
      unfolding model_ok_def by blast
    with Some show ?thesis by (simp add: row_of_def)
  qed
  then show "keys_distinct (row_of (counts m) a)" "fst ` set (row_of (counts m) a) \<subseteq> set (alphabet m)"
    "(b, n) \<in> set (row_of (counts m) a) \<Longrightarrow> 0 < n" by blast+
qed

lemma sum_al_put:
  "keys_distinct r \<Longrightarrow> sum_list (map snd (al_put k v r)) = sum_list (map snd r) - entry r k + (v :: int)"
proof (induction k v r rule: al_put.induct)
  case (2 k v k' v' m)
  then show ?case by (cases "k = k'") (simp_all add: entry_def)
qed (simp add: entry_def)

lemma entry_nonneg:
  assumes "model_ok m"
  shows "0 \<le> entry (row_of (counts m) a) b"
  using row_of_ok(3)[OF assms, of b _ a] by (auto simp: entry_def split: option.split dest!: map_of_SomeD) fastforce

lemma observe_step_ok:
  assumes "model_ok m" and "a \<in> set (alphabet m)"
  shows "model_ok (observe_step a b m)"
proof -
  let ?row = "row_of (counts m) a" and ?new = "al_put b (entry (row_of (counts m) a) b + 1) (row_of (counts m) a)"
  have "entry (al_put a (entry (row_totals m) a + 1) (row_totals m)) c =
      sum_list (map snd (row_of (al_put a ?new (counts m)) c))" for c
    using assms(1) by (simp add: model_ok_def sum_al_put row_of_ok[OF assms(1)])
  moreover have "keys_distinct (al_put a ?new (counts m))" "distinct (List.insert b (alphabet m))"
    using assms(1) by (simp_all add: model_ok_def keys_distinct_al_put)
  moreover have "c \<in> set (List.insert b (alphabet m)) \<and> keys_distinct r \<and>
      fst ` set r \<subseteq> set (List.insert b (alphabet m)) \<and> (\<forall>(d, n) \<in> set r. 0 < n)"
    if "(c, r) \<in> set (al_put a ?new (counts m))" for c r
  proof (cases "(c, r) = (a, ?new)")
    case True
    have "(d, n) \<in> set ?new \<Longrightarrow> 0 < n" for d n
      using set_al_put_subset[of b "entry ?row b + 1" ?row] row_of_ok(3)[OF assms(1), of d n a] entry_nonneg[OF assms(1), of a b]
      by auto
    with True row_of_ok(1,2)[OF assms(1), of a] assms(2) show ?thesis
      by (auto simp: keys_distinct_al_put fst_al_put)
  next
    case False
    then have "(c, r) \<in> set (counts m)" using that set_al_put_subset[of a ?new "counts m"] by blast
    with assms(1) show ?thesis by (fastforce simp: model_ok_def)
  qed
  ultimately show ?thesis by (simp add: model_ok_def observe_step_def)
qed

lemma observe_pairs_ok: "model_ok m \<Longrightarrow> (s \<noteq> [] \<Longrightarrow> hd s \<in> set (alphabet m)) \<Longrightarrow> model_ok (observe_pairs s m)"
proof (induction s m rule: observe_pairs.induct)
  case (1 a b s m)
  then have "model_ok (observe_step a b m)" by (simp add: observe_step_ok)
  moreover have "b \<in> set (alphabet (observe_step a b m))" by (simp add: observe_step_def)
  ultimately show ?case using 1 by simp
qed auto

lemma model_ok_alphabet: "model_ok m \<Longrightarrow> model_ok (m\<lparr>alphabet := List.insert c (alphabet m)\<rparr>)"
  by (fastforce simp: model_ok_def)

lemma observe_ok: "model_ok m \<Longrightarrow> model_ok (observe s m)"
  unfolding observe_def by (cases s) (auto intro!: observe_pairs_ok model_ok_alphabet)

lemma train_ok: "model_ok m \<Longrightarrow> model_ok (train ss m)"
  unfolding train_def by (induction ss arbitrary: m) (auto simp: observe_ok)

lemma new_model_ok: "model_ok (new_model l k)"
  by (simp add: model_ok_def new_model_def)

lemma observe_pairs_k [simp]: "model_k (observe_pairs s m) = model_k m"
  by (induction s m rule: observe_pairs.induct) (auto simp: observe_step_def)

lemma train_k [simp]: "model_k (train ss m) = model_k m"
  unfolding train_def by (induction ss arbitrary: m) (auto simp: observe_def)

section \<open>The transition probabilities\<close>

lemma sum_entries:
  assumes "distinct al" and "keys_distinct r" and "fst ` set r \<subseteq> set al"
  shows "sum_list (map (entry r) al) = sum_list (map snd r)"
proof -
  have dr: "distinct r" "inj_on fst (set r)" using assms(2) by (simp_all add: keys_distinct_def distinct_map)
  have e: "entry r (fst p) = snd p" if "p \<in> set r" for p
  proof -
    obtain a n where p: "p = (a, n)" by (cases p)
    with that assms(2) have "map_of r a = Some n" by (simp add: keys_distinct_def map_of_is_SomeI)
    with p show ?thesis by (simp add: entry_def)
  qed
  have "sum_list (map (entry r) al) = sum (entry r) (set al)"
    using assms(1) by (simp add: sum_list_distinct_conv_sum_set)
  also have "\<dots> = sum (entry r) (fst ` set r)"
  proof (rule sum.mono_neutral_right)
    show "\<forall>x \<in> set al - fst ` set r. entry r x = 0"
      by (auto simp: entry_def map_of_eq_None_iff[symmetric] split: option.split dest: map_of_SomeD)
  qed (use assms in auto)
  also have "\<dots> = sum (\<lambda>p. entry r (fst p)) (set r)" using dr(2) by (simp add: sum.reindex)
  also have "\<dots> = sum snd (set r)" using e by (intro sum.cong) auto
  also have "\<dots> = sum_list (map snd r)" using dr(1) by (simp add: sum_list_distinct_conv_sum_set)
  finally show ?thesis .
qed

lemma prob_denominator:
  assumes "model_ok m" and "0 < model_k m" and "alphabet m \<noteq> []"
  shows "0 < of_int (entry (row_totals m) a) + model_k m * real (length (alphabet m))"
proof -
  have "entry (row_totals m) a = sum_list (map (entry (row_of (counts m) a)) (alphabet m))"
    using assms(1) row_of_ok[OF assms(1), of a] sum_entries[of "alphabet m" "row_of (counts m) a"]
    by (simp add: model_ok_def)
  moreover have "0 \<le> sum_list (map (entry (row_of (counts m) a)) (alphabet m))"
    by (intro sum_list_nonneg) (auto simp: entry_nonneg[OF assms(1)])
  ultimately show ?thesis using assms(2,3) by (intro add_nonneg_pos) auto
qed

lemma sum_prob:
  assumes "model_ok m" and "0 < model_k m" and "alphabet m \<noteq> []"
  shows "sum_list (map (prob m a) (alphabet m)) = 1"
proof -
  let ?d = "of_int (entry (row_totals m) a) + model_k m * real (length (alphabet m))"
  have s: "sum_list (map (\<lambda>b. (of_int (f b) + k) / d) xs) =
      (of_int (sum_list (map f xs)) + k * real (length xs)) / (d :: real)" for f k d and xs :: "char list"
    by (induction xs) (simp_all add: add_divide_distrib algebra_simps)
  have "entry (row_totals m) a = sum_list (map (entry (row_of (counts m) a)) (alphabet m))"
    using assms(1) row_of_ok[OF assms(1), of a] sum_entries[of "alphabet m" "row_of (counts m) a"]
    by (simp add: model_ok_def)
  with s[of "entry (row_of (counts m) a)" "model_k m" ?d "alphabet m"] prob_denominator[OF assms, of a]
  show ?thesis by (simp add: prob_def[abs_def])
qed

lemma prob_pos:
  assumes "model_ok m" and "0 < model_k m" and "alphabet m \<noteq> []"
  shows "0 < prob m a b"
  unfolding prob_def
  by (intro divide_pos_pos prob_denominator[OF assms] add_nonneg_pos) (auto simp: entry_nonneg assms)

lemma prob_le_1:
  assumes "model_ok m" and "0 < model_k m" and "alphabet m \<noteq> []"
  shows "prob m a b \<le> 1"
proof -
  have "entry (row_of (counts m) a) b \<le> entry (row_totals m) a"
  proof (cases "b \<in> set (alphabet m)")
    case True
    have "entry (row_of (counts m) a) b \<le> sum_list (map (entry (row_of (counts m) a)) (alphabet m))"
      by (rule member_le_sum_list) (auto simp: True entry_nonneg[OF assms(1)])
    then show ?thesis
      using assms(1) row_of_ok[OF assms(1), of a] sum_entries[of "alphabet m" "row_of (counts m) a"]
      by (simp add: model_ok_def)
  next
    case False
    then have "b \<notin> fst ` set (row_of (counts m) a)" using row_of_ok(2)[OF assms(1)] by blast
    then have "entry (row_of (counts m) a) b = 0"
      by (auto simp: entry_def split: option.split dest: map_of_SomeD) (metis fst_conv image_eqI map_of_SomeD)
    moreover have "0 \<le> sum_list (map snd (row_of (counts m) a))"
      using row_of_ok(3)[OF assms(1), of _ _ a] by (intro sum_list_nonneg) fastforce
    ultimately show ?thesis using assms(1) by (simp add: model_ok_def)
  qed
  moreover have "model_k m \<le> model_k m * real (length (alphabet m))"
    using assms(2,3) by (cases "alphabet m") auto
  ultimately have "of_int (entry (row_of (counts m) a) b) + model_k m \<le>
      of_int (entry (row_totals m) a) + model_k m * real (length (alphabet m))"
    by (intro add_mono) auto
  with prob_denominator[OF assms, of a] show ?thesis by (simp add: prob_def divide_le_eq)
qed

lemma score_le_0:
  assumes "model_ok m" and "0 < model_k m"
  shows "score m s \<le> 0"
proof (cases "alphabet m = []")
  case False
  have "log_prob m a b \<le> 0" for a b
    using prob_pos[OF assms False] prob_le_1[OF assms False] by (simp add: log_prob_def)
  then have "sum_log_prob m s \<le> 0"
    by (induction m s rule: sum_log_prob.induct) (auto intro: add_nonpos_nonpos)
  then show ?thesis by (simp add: score_def divide_le_0_iff)
qed (simp add: score_def)


section \<open>Writing and loading a model\<close>

abbreviation solid :: "string \<Rightarrow> bool" where
  "solid w \<equiv> w \<noteq> [] \<and> (\<forall>c \<in> set w. \<not> blank c)"

lemma blank_space [simp]: "blank CHR '' ''"
  by (simp add: blank_def)

lemma next_word_solid:
  assumes "solid w"
  shows "next_word (w @ CHR '' '' # r) = (w, CHR '' '' # r)" and "next_word (CHR '' '' # w) = (w, [])"
    and "next_word (CHR '' '' # w @ CHR '' '' # r) = (w, CHR '' '' # r)"
proof -
  obtain c cs where w: "w = c # cs" using assms by (cases w) auto
  have t: "takeWhile (\<lambda>c. \<not> blank c) (w @ CHR '' '' # r) = w" "dropWhile (\<lambda>c. \<not> blank c) (w @ CHR '' '' # r) = CHR '' '' # r"
    "takeWhile (\<lambda>c. \<not> blank c) w = w" "dropWhile (\<lambda>c. \<not> blank c) w = []"
    using assms by (auto simp: takeWhile_append2 dropWhile_append2 takeWhile_eq_all_conv dropWhile_eq_Nil_conv)
  have d: "dropWhile blank w = w" "dropWhile blank (w @ x) = w @ x" for x using assms w by auto
  show "next_word (w @ CHR '' '' # r) = (w, CHR '' '' # r)" "next_word (CHR '' '' # w) = (w, [])"
    "next_word (CHR '' '' # w @ CHR '' '' # r) = (w, CHR '' '' # r)"
    by (simp_all only: next_word_def Let_def dropWhile.simps blank_space if_True d t)
qed

lemma words_of_solid:
  "\<forall>t \<in> set toks. solid t \<Longrightarrow> words_of (concat (map (\<lambda>t. CHR '' '' # t) toks)) = toks"
proof (induction toks)
  case Nil
  show ?case by (subst words_of.simps) (simp add: next_word_def)
next
  case (Cons t toks)
  let ?r = "concat (map (\<lambda>t. CHR '' '' # t) toks)"
  have "next_word (CHR '' '' # t @ ?r) = (t, ?r)"
    using Cons.prems next_word_solid[of t] by (cases toks) auto
  with Cons show ?case by (subst words_of.simps) simp
qed

lemma blank_lt: "blank c \<Longrightarrow> (of_char c :: nat) \<le> 32"
  by (auto simp: blank_def Let_def)

lemma digit_not_blank: "is_digit c \<Longrightarrow> \<not> blank c"
  using blank_lt[of c] by (auto simp: is_digit_def Let_def)

lemma nat_to_string_solid: "solid (nat_to_string n)"
  using nat_to_string_digits digit_not_blank by auto

lemma stol_nat_to_string: "n < 2 ^ 63 \<Longrightarrow> stol (nat_to_string n) = Some (int n)"
proof -
  assume n: "n < 2 ^ 63"
  obtain c cs where c: "nat_to_string n = c # cs" by (cases "nat_to_string n") auto
  then have "is_digit c" using nat_to_string_digits[of c n] by simp
  then have "\<not> blank c" "c \<noteq> CHR ''-''" "c \<noteq> CHR ''+''"
    by (auto simp: digit_not_blank is_digit_def Let_def)
  with c have "dropWhile blank (nat_to_string n) = nat_to_string n" "hd (nat_to_string n) \<noteq> CHR ''-''"
    "hd (nat_to_string n) \<noteq> CHR ''+''" by simp_all
  with n show ?thesis by (simp add: stol_def Let_def)
qed

text \<open>Characters that survive the format: no blanks and not the separator.\<close>

definition plain_char :: "char \<Rightarrow> bool" where
  "plain_char c = (\<not> blank c \<and> c \<noteq> CHR '':'')"

definition token :: "char \<times> int \<Rightarrow> string" where
  "token p = [fst p] @ '':'' @ int_to_string (snd p)"

definition small_row :: "(char \<times> int) list \<Rightarrow> bool" where
  "small_row r = (\<forall>(b, n) \<in> set r. plain_char b \<and> 0 < n \<and> n < 2 ^ 63)"

lemma load_tokens_row:
  "small_row r \<Longrightarrow>
   load_tokens a (map token r) m = Some (fold (\<lambda>(b, n). load_entry a b n) r m)"
proof (induction r arbitrary: m)
  case Nil
  show ?case by simp
next
  case (Cons p r)
  obtain b n where p: "p = (b, n)" by (cases p)
  from Cons.prems p have b: "b \<noteq> CHR '':''" "0 < n" "n < 2 ^ 63" and r: "small_row r"
    by (auto simp: small_row_def plain_char_def)
  have t: "token p = b # CHR '':'' # nat_to_string (nat n)" using b(2) p by (simp add: token_def int_to_string_def)
  have "find_sub '':'' (token p) = Some 1" using b(1) by (simp add: t find_sub.simps)
  moreover have "stol (drop (1 + 1) (token p)) = Some n"
    using b stol_nat_to_string[of "nat n"] by (simp add: t)
  moreover have "token p ! 0 = b" by (simp add: t)
  ultimately show ?case using Cons.IH[OF r] by (simp add: p)
qed

lemma load_row_serialized:
  assumes "plain_char a" and "small_row r"
  shows "load_row (serialize_row a r) m = Some (fold (\<lambda>(b, n). load_entry a b n) (by_key r) m)"
proof -
  let ?ds = "nat_to_string (length r)" and ?ts = "concat (map (\<lambda>t. CHR '' '' # t) (map token (by_key r)))"
  have s: "small_row (by_key r)" using assms(2) by (simp add: small_row_def by_key_def)
  have line: "serialize_row a r = a # CHR '' '' # ?ds @ ?ts"
    by (simp add: serialize_row_def token_def o_def case_prod_unfold)
  have a: "dropWhile blank (serialize_row a r) = a # CHR '' '' # ?ds @ ?ts"
    using assms(1) by (simp add: line plain_char_def)
  have d: "dropWhile blank (CHR '' '' # ?ds @ ?ts) = ?ds @ ?ts"
    using nat_to_string_solid[of "length r"] by (cases ?ds) auto
  have w: "takeWhile is_digit (?ds @ ?ts) = ?ds"
  proof -
    have "takeWhile is_digit ?ts = []" by (cases "by_key r") (simp_all add: is_digit_def)
    moreover have "takeWhile is_digit (?ds @ ?ts) = ?ds @ takeWhile is_digit ?ts"
      by (rule takeWhile_append2) (rule nat_to_string_digits)
    ultimately show ?thesis by simp
  qed
  have "\<forall>t \<in> set (map token (by_key r)). solid t"
  proof -
    have "solid (token p)" if "p \<in> set (by_key r)" for p
      using that s nat_to_string_solid[of "nat (snd p)"]
      by (auto simp: small_row_def token_def plain_char_def int_to_string_def blank_def[of "CHR '':''"])
    then show ?thesis by auto
  qed
  then have "words_of ?ts = map token (by_key r)" by (rule words_of_solid)
  with a d w show ?thesis
    unfolding load_row_def by (simp add: Let_def load_tokens_row[OF s])
qed

text \<open>What loading rows does to the counters.\<close>

definition same_counts :: "markov_model \<Rightarrow> markov_model \<Rightarrow> bool" where
  "same_counts m m' =
     (model_k m = model_k m' \<and> set (alphabet m) = set (alphabet m') \<and> length (alphabet m) = length (alphabet m') \<and>
      (\<forall>a b. entry (row_of (counts m) a) b = entry (row_of (counts m') a) b) \<and>
      (\<forall>a. entry (row_totals m) a = entry (row_totals m') a))"

lemma fold_load_entry:
  assumes "keys_distinct r"
  shows "entry (row_of (counts (fold (\<lambda>(b, n). load_entry a b n) r m)) x) y =
      (if x = a \<and> y \<in> fst ` set r then entry r y else entry (row_of (counts m) x) y)"
    and "entry (row_totals (fold (\<lambda>(b, n). load_entry a b n) r m)) x =
      entry (row_totals m) x + (if x = a then sum_list (map snd r) else 0)"
    and "model_k (fold (\<lambda>(b, n). load_entry a b n) r m) = model_k m"
    and "a \<in> set (alphabet m) \<Longrightarrow> fst ` set r \<subseteq> set (alphabet m) \<Longrightarrow>
      alphabet (fold (\<lambda>(b, n). load_entry a b n) r m) = alphabet m"
  using assms
proof (induction r arbitrary: m)
  case Nil
  {
    case 1 then show ?case by simp
  next
    case 2 then show ?case by simp
  next
    case 3 then show ?case by simp
  next
    case 4 then show ?case by simp
  }
next
  case (Cons p r)
  obtain b n where p: "p = (b, n)" by (cases p)
  {
    case 1
    then have "b \<notin> fst ` set r" "keys_distinct r" by (simp_all add: p)
    with Cons.IH(1) show ?case by (auto simp: p load_entry_def entry_def)
  next
    case 2
    then have "keys_distinct r" by (simp add: p)
    with Cons.IH(2) show ?case by (simp add: p load_entry_def)
  next
    case 3
    then have "keys_distinct r" by (simp add: p)
    with Cons.IH(3) show ?case by (simp add: p load_entry_def)
  next
    case 4
    then have k: "keys_distinct r" and ab: "a \<in> set (alphabet m)" "b \<in> set (alphabet m)" "fst ` set r \<subseteq> set (alphabet m)"
      by (simp_all add: p)
    have al: "alphabet (load_entry a b n m) = alphabet m" using ab by (simp add: load_entry_def)
    have "alphabet (fold (\<lambda>(b, n). load_entry a b n) r (load_entry a b n m)) = alphabet (load_entry a b n m)"
      using Cons.IH(4)[of "load_entry a b n m"] k ab unfolding al by blast
    with al show ?case by (simp add: p)
  }
qed


lemma by_key_facts:
  assumes "keys_distinct r"
  shows "keys_distinct (by_key r)" and "map_of (by_key r) = map_of r" and "set (by_key r) = set r"
    and "length (by_key r) = length r"
proof -
  have m: "mset (map fst (by_key r)) = mset (map fst r)" by (simp add: by_key_def)
  show k: "keys_distinct (by_key r)" using assms mset_eq_imp_distinct_iff[OF m] by (simp add: keys_distinct_def)
  show s: "set (by_key r) = set r" and "length (by_key r) = length r" by (simp_all add: by_key_def)
  show "map_of (by_key r) = map_of r"
    using k assms s by (simp add: keys_distinct_def map_of_inject_set)
qed

lemma sum_by_key: "sum_list (map snd (by_key r)) = (sum_list (map snd r) :: int)"
proof -
  have "mset (map snd (by_key r)) = mset (map snd r)" by (simp add: by_key_def)
  then have "sum_mset (mset (map snd (by_key r))) = sum_mset (mset (map snd r))" by (rule arg_cong)
  then show ?thesis by (simp only: sum_mset_sum_list)
qed

abbreviation load_one :: "char \<times> (char \<times> int) list \<Rightarrow> markov_model \<Rightarrow> markov_model" where
  "load_one \<equiv> (\<lambda>(a, r). fold (\<lambda>(b, n). load_entry a b n) (by_key r))"

lemma load_rows_serialized:
  "\<forall>(a, r) \<in> set rs. plain_char a \<and> small_row r \<Longrightarrow>
   load_rows (length rs) (map (\<lambda>(a, r). serialize_row a r) rs) m = Some (fold load_one rs m, [])"
  by (induction rs arbitrary: m) (auto simp: load_row_serialized)

definition rows_within :: "(char \<times> (char \<times> int) list) list \<Rightarrow> char list \<Rightarrow> bool" where
  "rows_within rs al = (\<forall>(a, r) \<in> set rs. a \<in> set al \<and> keys_distinct r \<and> fst ` set r \<subseteq> set al)"

lemma fold_load_rows:
  assumes "keys_distinct rs" and "rows_within rs (alphabet m)"
    and "\<forall>x \<in> fst ` set rs. \<forall>y. entry (row_of (counts m) x) y = 0"
  shows "alphabet (fold load_one rs m) = alphabet m \<and> model_k (fold load_one rs m) = model_k m \<and>
    (\<forall>x y. entry (row_of (counts (fold load_one rs m)) x) y =
       entry (row_of (counts m) x) y + entry (row_of rs x) y) \<and>
    (\<forall>x. entry (row_totals (fold load_one rs m)) x = entry (row_totals m) x + sum_list (map snd (row_of rs x)))"
  using assms
proof (induction rs arbitrary: m)
  case Nil
  then show ?case by simp
next
  case (Cons p rs)
  obtain a r where p: "p = (a, r)" by (cases p)
  from Cons.prems p have a: "a \<notin> fst ` set rs" "keys_distinct rs" and r: "keys_distinct r"
    and al: "a \<in> set (alphabet m)" "fst ` set (by_key r) \<subseteq> set (alphabet m)"
    and z: "entry (row_of (counts m) a) y = 0" for y
    by (auto simp: rows_within_def by_key_facts(3))
  note bk = by_key_facts[OF r]
  note f = fold_load_entry[OF bk(1), of a m]
  define m1 where "m1 = fold (\<lambda>(b, n). load_entry a b n) (by_key r) m"
  have al': "alphabet m1 = alphabet m" using f(4)[OF al] by (simp add: m1_def)
  have w: "rows_within rs (alphabet m1)" using Cons.prems(2) by (simp add: rows_within_def al')
  have z': "\<forall>x \<in> fst ` set rs. \<forall>y. entry (row_of (counts m1) x) y = 0"
    using Cons.prems(3) a(1) f(1) by (auto simp: p m1_def)
  have e: "entry (by_key r) y = entry r y" for y by (simp add: entry_def bk(2))
  have e0: "entry r y = 0" if "y \<notin> fst ` set (by_key r)" for y
  proof -
    have "map_of (by_key r) y = None" using that by (simp add: map_of_eq_None_iff)
    then show ?thesis by (simp add: entry_def bk(2))
  qed
  have "map_of rs a = None" using a(1) by (simp add: map_of_eq_None_iff)
  then have n: "row_of rs a = []" by (simp add: row_of_def)
  have ro: "row_of (p # rs) x = (if x = a then r else row_of rs x)" for x by (simp add: row_of_def p)
  have fold1: "fold load_one (p # rs) m = fold load_one rs m1" by (simp add: p m1_def)
  have c1: "entry (row_of (counts m1) x) y = entry (row_of (counts m) x) y + (if x = a then entry r y else 0)" for x y
    using f(1)[of x y] z e e0 by (simp add: m1_def)
  have t1: "entry (row_totals m1) x = entry (row_totals m) x + (if x = a then sum_list (map snd r) else 0)" for x
    using f(2)[of x] by (simp add: m1_def sum_by_key)
  have k1: "model_k m1 = model_k m" using f(3) by (simp add: m1_def)
  from Cons.IH[OF a(2) w z'] show ?case
    unfolding fold1 ro by (simp add: al' k1 c1 t1 n)
qed

lemma sum_log_prob_cong: "(\<And>a b. prob m a b = prob m' a b) \<Longrightarrow> sum_log_prob m s = sum_log_prob m' s"
  by (induction m s rule: sum_log_prob.induct) (auto simp: log_prob_def)

lemma same_counts_score:
  assumes "same_counts m m'"
  shows "score m s = score m' s"
proof -
  have "prob m a b = prob m' a b" for a b using assms by (simp add: prob_def same_counts_def)
  then have "sum_log_prob m s = sum_log_prob m' s" by (rule sum_log_prob_cong)
  moreover have "alphabet m = [] \<longleftrightarrow> alphabet m' = []" using assms by (metis length_0_conv same_counts_def)
  ultimately show ?thesis by (simp add: score_def)
qed

definition writable :: "markov_model \<Rightarrow> bool" where
  "writable m =
     (model_ok m \<and> solid (model_label m) \<and> alphabet m \<noteq> [] \<and> list_all plain_char (alphabet m) \<and>
      (\<forall>(a, r) \<in> set (counts m). \<forall>(b, n) \<in> set r. n < 2 ^ 63))"

lemma fold_insert_distinct: "distinct xs \<Longrightarrow> length (fold List.insert xs []) = length xs \<and> set (fold List.insert xs []) = set xs"
proof -
  have "distinct (ys @ xs) \<Longrightarrow> distinct xs \<Longrightarrow> length (fold List.insert xs ys) = length ys + length xs \<and>
      set (fold List.insert xs ys) = set ys \<union> set xs" for ys :: "'a list" and xs
  proof (induction xs arbitrary: ys)
    case (Cons x xs)
    then have "List.insert x ys = x # ys" by auto
    with Cons.IH[of "x # ys"] Cons.prems show ?case by auto
  qed simp
  from this[of "[]" xs] show "distinct xs \<Longrightarrow> ?thesis" by simp
qed

lemma load_serialized:
  assumes "writable m" and "solid (fmt (model_k m))" and "rdk (fmt (model_k m)) = Some (model_k m)"
  shows "\<exists>m'. load_model rdk (serialize fmt m fp) = Some (m', fp) \<and> model_label m' = model_label m \<and> same_counts m m'"
proof -
  have ok: "model_ok m" and lab: "solid (model_label m)" using assms(1) by (simp_all add: writable_def)
  let ?al = "sort_key signed_char (alphabet m)" and ?rs = "by_key (counts m)"
  have pc: "list_all plain_char (alphabet m)" "alphabet m \<noteq> []" using assms(1) by (simp_all add: writable_def)
  have al: "solid ?al"
  proof
    have "length ?al = length (alphabet m)" by simp
    with pc(2) show "?al \<noteq> []" by force
    show "\<forall>c \<in> set ?al. \<not> blank c" using pc(1) by (simp add: list_all_iff plain_char_def)
  qed
  note key = next_word_solid(1)[of "''label''" "model_label m"] next_word_solid(1)[of "''k''" "fmt (model_k m)"]
    next_word_solid(1)[of "''config''" fp] next_word_solid(1)[of "''alphabet''" ?al]
    next_word_solid(1)[of "''transitions''" "nat_to_string (length (counts m))"]
  define m0 where "m0 = new_model [] (5 / 10) \<lparr>model_label := model_label m, model_k := model_k m,
    alphabet := fold List.insert ?al []\<rparr>"
  have k: "keys_distinct (counts m)" "distinct (alphabet m)" using ok by (simp_all add: model_ok_def)
  have "distinct ?al" using k(2) by simp
  from fold_insert_distinct[OF this] have a0: "length (alphabet m0) = length (alphabet m)" "set (alphabet m0) = set (alphabet m)"
    by (simp_all add: m0_def)
  have rows: "plain_char a \<and> small_row r" "a \<in> set (alphabet m) \<and> keys_distinct r \<and> fst ` set r \<subseteq> set (alphabet m)"
    if ar: "(a, r) \<in> set (counts m)" for a r
  proof -
    have r: "a \<in> set (alphabet m) \<and> keys_distinct r \<and> fst ` set r \<subseteq> set (alphabet m) \<and> (\<forall>(b, n) \<in> set r. 0 < n)"
      using ok ar unfolding model_ok_def by blast
    have n: "\<forall>(b, n) \<in> set r. n < 2 ^ 63" using assms(1) ar unfolding writable_def by blast
    have pl: "plain_char c" if "c \<in> set (alphabet m)" for c
      using that assms(1) unfolding writable_def list_all_iff by blast
    have "small_row r" unfolding small_row_def
    proof (intro ballI, clarify)
      fix b k assume "(b, k) \<in> set r"
      moreover from this r have "b \<in> set (alphabet m)" by force
      ultimately show "plain_char b \<and> 0 < k \<and> k < 2 ^ 63" using r n pl by blast
    qed
    with r pl show "plain_char a \<and> small_row r"
      "a \<in> set (alphabet m) \<and> keys_distinct r \<and> fst ` set r \<subseteq> set (alphabet m)" by blast+
  qed
  have w: "rows_within ?rs (alphabet m0)"
    unfolding rows_within_def by_key_facts(3)[OF k(1)] a0(2) using rows(2) by blast
  have l: "load_rows (length (counts m)) (map (\<lambda>(a, r). serialize_row a r) ?rs) m0 = Some (fold load_one ?rs m0, [])"
    using load_rows_serialized[of ?rs m0] rows(1) unfolding by_key_facts(3,4)[OF k(1)] by blast
  have dr: "row_of ?rs x = row_of (counts m) x" for x by (simp add: row_of_def by_key_facts(2)[OF k(1)])
  have f: "alphabet (fold load_one ?rs m0) = alphabet m0 \<and> model_k (fold load_one ?rs m0) = model_k m0 \<and>
    (\<forall>x y. entry (row_of (counts (fold load_one ?rs m0)) x) y =
       entry (row_of (counts m0) x) y + entry (row_of ?rs x) y) \<and>
    (\<forall>x. entry (row_totals (fold load_one ?rs m0)) x = entry (row_totals m0) x + sum_list (map snd (row_of ?rs x)))"
    by (rule fold_load_rows[OF by_key_facts(1)[OF k(1)] w]) (simp add: m0_def new_model_def)
  have "same_counts m (fold load_one ?rs m0)"
    unfolding same_counts_def using f a0 ok by (simp add: dr m0_def new_model_def model_ok_def)
  moreover have "model_label (fold load_one rs m1) = model_label m1" for rs m1
  proof -
    have "model_label (fold (\<lambda>(b, n). load_entry a b n) r m2) = model_label m2" for a r m2
      by (induction r arbitrary: m2) (auto simp: load_entry_def)
    then show ?thesis by (induction rs arbitrary: m1) auto
  qed
  moreover have "load_model rdk (serialize fmt m fp) = Some (fold load_one ?rs m0, fp)"
    using key lab al assms(2,3) next_word_solid(2) nat_to_string_solid[of "length (counts m)"] l
    by (simp add: load_model_def serialize_def m0_def new_model_def blank_def)
  ultimately show ?thesis by (auto simp: m0_def)
qed


section \<open>Properties\<close>

text \<open>
  the encoding of a connection does not depend on the order in which its flows were recorded, as
  long as they start at different times, and under the default parameters it alternates one of the 15
  letters with one of the timing symbols, two characters per flow.
\<close>
theorem encode_connection_canonical:
  assumes "mset fs = mset gs" and "distinct (map start_time fs)"
  shows "encode_connection fs cfg = encode_connection gs cfg \<and>
    length (encode_connection fs cfg) = (if length gs < 2 then 0 else 2 * length gs) \<and>
    evens_odds (\<lambda>c. c \<in> set letters) (\<lambda>c. c \<in> set symbols) (encode_connection fs default_beh_config)"
proof -
  have "length fs = length gs" using assms(1) by (metis size_mset)
  then show ?thesis using encode_connection_perm[OF assms]
    by (simp add: encode_connection_def encode_flows_length encode_flows_shape)
qed

theorem encode_connection_canonical_witness:
  "encode_connection [\<lparr>start_time = 90, flow_duration = 5, tot_bytes = 200\<rparr>,
     \<lparr>start_time = 3, flow_duration = 0, tot_bytes = 70000\<rparr>] default_beh_config = ''m.e*''"
proof -
  let ?a = "\<lparr>start_time = 90, flow_duration = 5, tot_bytes = 200\<rparr> :: beh_flow"
  let ?b = "\<lparr>start_time = 3, flow_duration = 0, tot_bytes = 70000\<rparr> :: beh_flow"
  have "encode_connection [?a, ?b] default_beh_config = encode_connection [?b, ?a] default_beh_config"
    using encode_connection_canonical[of "[?a, ?b]" "[?b, ?a]" default_beh_config] by simp
  also have "\<dots> = ''m.e*''"
    by (simp add: encode_connection_def default_beh_config_def flow_letter_def gap_symbol_def symbols_def Let_def) code_simp
  finally show ?thesis .
qed

text \<open>
  C38: in a model trained from scratch on any state strings with positive smoothing, the outgoing
  probabilities of every character sum to one over the model's alphabet, each of them is positive and
  at most one, and so no state string scores above zero.
\<close>
theorem trained_model_is_distribution:
  assumes "0 < k" and "alphabet (train ss (new_model l k)) \<noteq> []"
  shows "sum_list (map (prob (train ss (new_model l k)) a) (alphabet (train ss (new_model l k)))) = 1 \<and>
    0 < prob (train ss (new_model l k)) a b \<and> prob (train ss (new_model l k)) a b \<le> 1 \<and>
    score (train ss (new_model l k)) s \<le> 0"
proof -
  let ?m = "train ss (new_model l k)"
  have ok: "model_ok ?m" by (simp add: train_ok new_model_ok)
  have k: "0 < model_k ?m" using assms(1) by (simp add: new_model_def)
  show ?thesis
    using sum_prob[OF ok k assms(2)] prob_pos[OF ok k assms(2)] prob_le_1[OF ok k assms(2)] score_le_0[OF ok k]
    by simp
qed

theorem trained_model_is_distribution_witness:
  "sum_list (map (prob (train [''a.a-''] (new_model ''n'' (5 / 10))) CHR ''a'')
     (alphabet (train [''a.a-''] (new_model ''n'' (5 / 10))))) = 1"
proof -
  have "alphabet (train [''a.a-''] (new_model ''n'' (5 / 10))) \<noteq> []"
    by (simp add: train_def observe_def new_model_def observe_step_def)
  from trained_model_is_distribution[OF _ this] show ?thesis by simp
qed

text \<open>
  C39: writing a trained model and loading it loses nothing that scoring looks at: if its characters are
  neither blank nor the separator and the smoothing constant survives printing, the loaded model has the
  same label and gives every string the same score, and the encoder fingerprint is read back.
\<close>
theorem model_roundtrip:
  assumes "writable m" and "solid (fmt (model_k m))" and "rdk (fmt (model_k m)) = Some (model_k m)"
  shows "\<exists>m'. load_model rdk (serialize fmt m fp) = Some (m', fp) \<and> model_label m' = model_label m \<and>
    (\<forall>s. score m' s = score m s)"
proof -
  obtain m' where m': "load_model rdk (serialize fmt m fp) = Some (m', fp)" "model_label m' = model_label m" "same_counts m m'"
    using load_serialized[of m fmt rdk fp, OF assms] by blast
  then show ?thesis using same_counts_score[OF m'(3)] by auto
qed

theorem model_roundtrip_witness:
  "\<exists>m'. load_model (\<lambda>t. if t = ''0.5'' then Some (1 / 2) else None)
     (serialize (\<lambda>r. ''0.5'') (train [''a.a-''] (new_model ''normal'' (1 / 2))) ''fp'') = Some (m', ''fp'') \<and>
     score m' ''a.a-'' = score (train [''a.a-''] (new_model ''normal'' (1 / 2))) ''a.a-''"
proof -
  let ?m = "train [''a.a-''] (new_model ''normal'' (1 / 2))"
  have m: "?m = \<lparr>model_label = ''normal'', model_k = 1 / 2, counts = [(CHR ''a'', [(CHR ''.'', 1), (CHR ''-'', 1)]),
      (CHR ''.'', [(CHR ''a'', 1)])], row_totals = [(CHR ''a'', 2), (CHR ''.'', 1)],
      alphabet = [CHR ''-'', CHR ''.'', CHR ''a''], total = 3\<rparr>"
    by (simp add: train_def observe_def new_model_def observe_step_def List.insert_def row_of_def entry_def)
  have "writable ?m"
    using train_ok[OF new_model_ok, of "[''a.a-'']" "''normal''" "1 / 2"]
    by (simp add: writable_def) (simp add: m plain_char_def blank_def)
  from model_roundtrip[OF this, where fmt = "\<lambda>r. ''0.5''" and rdk = "\<lambda>t. if t = ''0.5'' then Some (1 / 2) else None" and fp = "''fp''"]
  show ?thesis by (auto simp: blank_def new_model_def)
qed

end
