(* ===== verification/Tcp_Stream.thy ===== *)
theory Tcp_Stream
  imports Wirewolf_Types Proxy_Db
begin

text \<open>
  The packet level of \<^verbatim>\<open>src/tcp_reassembly.cpp\<close>: the headers of a raw packet, and what one
  segment does to the state of its connection.  Header reads are checked reads; \<open>None\<close> is a read
  outside the captured bytes.  Sequence numbers are 32-bit words.  The lemmas show that parsing stays
  inside the packet, and that whatever order the segments of a byte stream arrive in, the buffer is
  an exact prefix of that stream.
\<close>

section \<open>Headers\<close>

definition u16_at :: "bytes \<Rightarrow> nat \<Rightarrow> u16 option" where
  "u16_at p i = do { a \<leftarrow> rd p i; b \<leftarrow> rd p (i + 1); Some (ucast a OR push_bit 8 (ucast b)) }"

record segment =
  sg_src :: u32
  sg_dst :: u32
  sg_sport :: u16
  sg_dport :: u16
  sg_seq :: u32
  sg_syn :: bool
  sg_fin :: bool
  sg_rst :: bool
  sg_ttl :: byte
  sg_len :: nat
  sg_captured :: bool
  sg_data :: bytes

datatype parsed =
    No_header
  | Udp_packet u32 u32
  | Ignored u32
  | Tcp_packet segment

definition parse_ip :: "bytes \<Rightarrow> parsed option" where
  "parse_ip p =
     (if length p < 20 then Some No_header else do {
        protocol \<leftarrow> rd p 9;
        saddr \<leftarrow> u32_at p 12;
        daddr \<leftarrow> u32_at p 16;
        if protocol = 17 then Some (Udp_packet saddr daddr)
        else if protocol \<noteq> 6 then Some (Ignored saddr)
        else do {
          vihl \<leftarrow> rd p 0;
          let hl = unat (vihl AND 0x0F) * 4;
          if hl < 20 \<or> length p < hl + 20 then Some (Ignored saddr)
          else do {
            offset_res \<leftarrow> rd p (hl + 12);
            let thl = unat (drop_bit 4 offset_res AND 0x0F) * 4;
            if thl < 20 then Some (Ignored saddr)
            else do {
              tot_len \<leftarrow> u16_at p 2;
              let total = unat (bswap16 tot_len);
              if total < hl + thl then Some (Ignored saddr)
              else do {
                ttl \<leftarrow> rd p 8;
                sport \<leftarrow> u16_at p hl;
                dport \<leftarrow> u16_at p (hl + 2);
                seq \<leftarrow> u32_at p (hl + 4);
                flags \<leftarrow> rd p (hl + 13);
                let plen = total - (hl + thl);
                Some (Tcp_packet \<lparr>sg_src = saddr, sg_dst = daddr, sg_sport = sport, sg_dport = dport,
                  sg_seq = bswap32 seq, sg_syn = (flags AND 0x02 \<noteq> 0), sg_fin = (flags AND 0x01 \<noteq> 0),
                  sg_rst = (flags AND 0x04 \<noteq> 0), sg_ttl = ttl, sg_len = plen,
                  sg_captured = (hl + thl + plen \<le> length p),
                  sg_data = take plen (drop (hl + thl) p)\<rparr>)
              }
            }
          }
        }
      })"

text \<open>The Ethernet layer of the tap path: \<open>None\<close> for frames that are skipped.\<close>

definition ethernet_payload :: "bytes \<Rightarrow> bytes option" where
  "ethernet_payload frame =
     (if length frame < 14 then None
      else (case u16_at frame 12 of
              None \<Rightarrow> None
            | Some t \<Rightarrow> if bswap16 t \<noteq> 0x0800 then None else Some (drop 14 frame)))"

lemma u16_at_None [simp]: "u16_at p i = None \<longleftrightarrow> length p < i + 2"
  by (auto simp: u16_at_def bind_eq_None_conv)

lemma u32_at_None [simp]: "u32_at p i = None \<longleftrightarrow> length p < i + 4"
  by (auto simp: u32_at_def bind_eq_None_conv)

lemma parse_ip_safe: "parse_ip p \<noteq> None"
  by (auto simp: parse_ip_def Let_def split: if_splits bind_splits)

lemma parse_ip_len:
  "parse_ip p = Some (Tcp_packet s) \<Longrightarrow> sg_len s < 2 ^ 16 \<and> (sg_captured s \<longrightarrow> length (sg_data s) = sg_len s)"
proof -
  have b: "unat (bswap16 t) < 2 ^ 16" for t
  proof -
    have "unat (bswap16 t) < 2 ^ LENGTH(16)" by (rule unsigned_less)
    then show ?thesis by simp
  qed
  have d: "unat (bswap16 t) - h < 65536" for t h using b[of t] by simp
  assume "parse_ip p = Some (Tcp_packet s)"
  then show ?thesis
    by (auto simp: parse_ip_def Let_def d[simplified] split: if_splits bind_splits)
qed

section \<open>Connection state\<close>

record conn_state =
  expected_seq :: u32
  ooo :: "(u32 \<times> bytes) list"
  stream :: bytes
  syn_received :: bool
  fin_received :: bool
  last_packet_time :: real
  inter_arrival_sum :: real
  packets :: nat
  length_sum :: nat
  length_sq_sum :: nat

definition new_conn :: conn_state where
  "new_conn = \<lparr>expected_seq = 0, ooo = [], stream = [], syn_received = False, fin_received = False,
     last_packet_time = 0, inter_arrival_sum = 0, packets = 0, length_sum = 0, length_sq_sum = 0\<rparr>"

definition seq_before :: "u32 \<Rightarrow> u32 \<Rightarrow> bool" where
  "seq_before a b = (sint (a - b) < 0)"

definition seq_after :: "u32 \<Rightarrow> u32 \<Rightarrow> bool" where
  "seq_after a b = seq_before b a"

definition note_packet :: "real \<Rightarrow> nat \<Rightarrow> conn_state \<Rightarrow> conn_state" where
  "note_packet now plen st =
     st\<lparr>inter_arrival_sum := (if 0 < packets st then inter_arrival_sum st + (now - last_packet_time st)
                             else inter_arrival_sum st),
        last_packet_time := now, packets := packets st + 1, length_sum := length_sum st + plen,
        length_sq_sum := length_sq_sum st + (plen * plen) mod 2 ^ 32\<rparr>"

text \<open>The comparison loop of the overlap check: compared and differing bytes.\<close>

fun overlap_scan :: "bytes \<Rightarrow> int \<Rightarrow> bytes \<Rightarrow> nat \<times> nat" where
  "overlap_scan s pos [] = (0, 0)"
| "overlap_scan s pos (b # bs) =
     (case overlap_scan s (pos + 1) bs of (n, c) \<Rightarrow>
        if 0 \<le> pos \<and> pos < int (length s)
        then (n + 1, if s ! nat pos \<noteq> b then c + 1 else c) else (n, c))"

definition conflicting :: "conn_state \<Rightarrow> u32 \<Rightarrow> bytes \<Rightarrow> bool" where
  "conflicting st seq data =
     (stream st \<noteq> [] \<and> ooo st = [] \<and>
      (case overlap_scan (stream st) (sint (seq - (expected_seq st - word_of_nat (length (stream st))))) data of
         (overlap_cmp, conflict_bytes) \<Rightarrow> 8 \<le> overlap_cmp \<and> 4 \<le> conflict_bytes))"

text \<open>\<open>std::map::emplace\<close>: in key order, and nothing happens when the key is present.\<close>

fun ooo_emplace :: "u32 \<Rightarrow> bytes \<Rightarrow> (u32 \<times> bytes) list \<Rightarrow> (u32 \<times> bytes) list" where
  "ooo_emplace k d [] = [(k, d)]"
| "ooo_emplace k d ((k', d') # m) =
     (if k < k' then (k, d) # (k', d') # m
      else if k = k' then (k', d') # m
      else (k', d') # ooo_emplace k d m)"

fun drain_ooo :: "u32 \<Rightarrow> bytes \<Rightarrow> (u32 \<times> bytes) list \<Rightarrow> u32 \<times> bytes \<times> (u32 \<times> bytes) list" where
  "drain_ooo expected s [] = (expected, s, [])"
| "drain_ooo expected s ((k, d) # m) =
     (if seq_after k expected then (expected, s, (k, d) # m)
      else if seq_after (k + word_of_nat (length d)) expected
      then drain_ooo (expected + word_of_nat (length d - unat (expected - k))) (s @ drop (unat (expected - k)) d) m
      else drain_ooo expected s m)"

definition insert_data :: "u32 \<Rightarrow> bytes \<Rightarrow> conn_state \<Rightarrow> conn_state" where
  "insert_data seq data st =
     (if seq = expected_seq st then
        (case drain_ooo (expected_seq st + word_of_nat (length data)) (stream st @ data) (ooo st) of
           (e, s, m) \<Rightarrow> st\<lparr>expected_seq := e, stream := s, ooo := m\<rparr>)
      else if seq_after seq (expected_seq st)
      then (if length (ooo st) < 256 then st\<lparr>ooo := ooo_emplace seq data (ooo st)\<rparr> else st)
      else st)"

definition baseline :: "u32 \<Rightarrow> conn_state \<Rightarrow> conn_state" where
  "baseline seq st =
     (if \<not> syn_received st \<and> stream st = [] \<and> ooo st = [] then st\<lparr>expected_seq := seq\<rparr> else st)"

text \<open>One segment of the connection; the flag reports a conflicting overlap.\<close>

definition conn_step :: "real \<Rightarrow> segment \<Rightarrow> conn_state \<Rightarrow> conn_state \<times> bool" where
  "conn_step now sg st =
     (let st = note_packet now (sg_len sg) st in
      if sg_syn sg then (st\<lparr>syn_received := True, expected_seq := sg_seq sg + 1\<rparr>, False)
      else
        (let st = (if sg_rst sg then st\<lparr>fin_received := True\<rparr> else st);
             fin = (\<lambda>st. if sg_fin sg then st\<lparr>fin_received := True\<rparr> else st)
         in if sg_captured sg \<and> 0 < sg_len sg then
              (let st = baseline (sg_seq sg) st in
               if conflicting st (sg_seq sg) (sg_data sg) then (fin st, True)
               else (fin (insert_data (sg_seq sg) (sg_data sg) st), False))
            else (fin st, False)))"

section \<open>Sequence arithmetic\<close>

lemma sint_diff:
  assumes "i < 2 ^ 31" and "j < 2 ^ 31"
  shows "sint (word_of_nat i - word_of_nat j :: u32) = int i - int j"
proof -
  have "sint (word_of_int (int i - int j) :: u32) = signed_take_bit (LENGTH(32) - Suc 0) (int i - int j)"
    by (simp only: signed_of_int) simp
  also have "\<dots> = int i - int j" using assms by (intro signed_take_bit_int_eq_self) auto
  finally show ?thesis by (simp only: of_int_diff of_int_of_nat_eq)
qed

lemma seq_before_offset:
  assumes "i < 2 ^ 31" and "j < 2 ^ 31"
  shows "seq_before (base + word_of_nat i) (base + word_of_nat j) \<longleftrightarrow> i < j"
proof -
  have "base + word_of_nat i - (base + word_of_nat j) = word_of_nat i - (word_of_nat j :: u32)" by simp
  with sint_diff[OF assms] show ?thesis by (simp add: seq_before_def)
qed

lemma unat_offset: "i < 2 ^ 32 \<Longrightarrow> unat (word_of_nat i :: u32) = i"
  by (simp add: unat_of_nat)


section \<open>The buffer is a prefix of the stream\<close>

definition slice_of :: "bytes \<Rightarrow> nat \<Rightarrow> bytes \<Rightarrow> bool" where
  "slice_of D off d = (off + length d \<le> length D \<and> d = take (length d) (drop off D))"

definition stream_ok :: "bytes \<Rightarrow> u32 \<Rightarrow> conn_state \<Rightarrow> bool" where
  "stream_ok D base st =
     ((\<exists>n \<le> length D. stream st = take n D \<and> expected_seq st = base + word_of_nat n) \<and>
      (\<forall>(k, d) \<in> set (ooo st). \<exists>off. k = base + word_of_nat off \<and> slice_of D off d))"

definition segment_of :: "bytes \<Rightarrow> u32 \<Rightarrow> segment \<Rightarrow> bool" where
  "segment_of D base sg =
     (\<not> sg_syn sg \<and> (sg_captured sg \<and> 0 < sg_len sg \<longrightarrow>
        (\<exists>off. sg_seq sg = base + word_of_nat off \<and> slice_of D off (sg_data sg))))"

lemma slice_nth: "slice_of D off d \<Longrightarrow> i < length d \<Longrightarrow> d ! i = D ! (off + i)"
  by (metis add_leD1 length_drop nth_drop nth_take slice_of_def)

lemma overlap_scan_agree:
  "(\<And>i. i < length d \<Longrightarrow> 0 \<le> pos + int i \<Longrightarrow> pos + int i < int (length s) \<Longrightarrow> s ! nat (pos + int i) = d ! i) \<Longrightarrow>
   snd (overlap_scan s pos d) = 0"
proof (induction s pos d rule: overlap_scan.induct)
  case (1 s pos)
  show ?case by simp
next
  case (2 s pos b bs)
  have "snd (overlap_scan s (pos + 1) bs) = 0"
  proof (rule "2.IH")
    fix i assume "i < length bs" "0 \<le> pos + 1 + int i" "pos + 1 + int i < int (length s)"
    with "2.prems"[of "Suc i"] show "s ! nat (pos + 1 + int i) = bs ! i" by (simp add: ac_simps)
  qed
  moreover have "s ! nat pos = b" if "0 \<le> pos" "pos < int (length s)"
    using that "2.prems"[of 0] by simp
  ultimately show ?case by (auto split: prod.splits)
qed

lemma no_conflict:
  assumes "length D < 2 ^ 31" and "stream_ok D base st" and "slice_of D off d"
  shows "\<not> conflicting st (base + word_of_nat off) d"
proof -
  obtain n where n: "n \<le> length D" "stream st = take n D" "expected_seq st = base + word_of_nat n"
    using assms(2) by (auto simp: stream_ok_def)
  have off: "off < 2 ^ 31" using assms(1,3) by (simp add: slice_of_def)
  have l: "length (stream st) = n" using n(1,2) by simp
  have d: "base + word_of_nat off - (expected_seq st - word_of_nat (length (stream st))) = word_of_nat off"
    by (simp add: n(3) l)
  have s: "sint (word_of_nat off :: u32) = int off" using sint_diff[of off 0] off by simp
  have "snd (overlap_scan (stream st) (int off) d) = 0"
  proof (rule overlap_scan_agree)
    fix i assume i: "i < length d" "int off + int i < int (length (stream st))"
    then have "nat (int off + int i) = off + i" "off + i < n" using l by auto
    with slice_nth[OF assms(3) i(1)] show "stream st ! nat (int off + int i) = d ! i" by (simp add: n(2))
  qed
  then show ?thesis unfolding conflicting_def d s by (simp add: case_prod_beta)
qed

lemma drain_prefix:
  assumes "length D < 2 ^ 31" and "n \<le> length D"
    and "\<forall>(k, d) \<in> set m. \<exists>off. k = base + word_of_nat off \<and> slice_of D off d"
    and "drain_ooo (base + word_of_nat n) (take n D) m = (e, s, m')"
  shows "(\<exists>n' \<le> length D. s = take n' D \<and> e = base + word_of_nat n') \<and> set m' \<subseteq> set m"
  using assms(2-)
proof (induction m arbitrary: n)
  case Nil
  then show ?case by auto
next
  case (Cons p m)
  obtain k d where p: "p = (k, d)" by (cases p)
  from Cons.prems(2) obtain off where k: "k = base + word_of_nat off" and sl: "slice_of D off d"
    by (auto simp: p)
  have b: "off < 2 ^ 31" "n < 2 ^ 31" "off + length d < 2 ^ 31" using sl assms(1) Cons.prems(1) by (auto simp: slice_of_def)
  have tail: "\<forall>(k, d) \<in> set m. \<exists>off. k = base + word_of_nat off \<and> slice_of D off d" using Cons.prems(2) by simp
  show ?case
  proof (cases "n < off")
    case True
    with Cons.prems(1,3) b show ?thesis by (auto simp: p k seq_after_def seq_before_offset)
  next
    case False
    have en: "seq_after (k + word_of_nat (length d)) (base + word_of_nat n) \<longleftrightarrow> n < off + length d"
      using seq_before_offset[of n "off + length d" base] b by (simp add: seq_after_def k add.assoc)
    show ?thesis
    proof (cases "n < off + length d")
      case new: True
      have "unat (base + word_of_nat n - k) = n - off"
      proof -
        have "base + word_of_nat n - k = word_of_nat (n - off)" using False by (simp add: k of_nat_diff)
        then show ?thesis using b by (simp add: unat_offset)
      qed
      moreover have "take n D @ drop (n - off) d = take (off + length d) D"
      proof -
        have "drop (n - off) d = take (off + length d - n) (drop n D)"
        proof -
          have "drop (n - off) d = drop (n - off) (take (length d) (drop off D))" using sl by (simp add: slice_of_def)
          also have "\<dots> = take (length d - (n - off)) (drop (n - off) (drop off D))" by (simp add: drop_take)
          finally show ?thesis using False by (simp add: add.commute diff_diff_right)
        qed
        then show ?thesis using new by (metis add_diff_inverse_nat less_imp_le_nat linorder_not_less take_add)
      qed
      moreover have "base + word_of_nat n + word_of_nat (length d - (n - off)) = base + word_of_nat (off + length d)"
      proof -
        have "n + (length d - (n - off)) = off + length d" using False new by simp
        then show ?thesis by (metis add.assoc of_nat_add)
      qed
      ultimately have "drain_ooo (base + word_of_nat (off + length d)) (take (off + length d) D) m = (e, s, m')"
        using Cons.prems(3) False b en new by (simp add: p seq_after_def k seq_before_offset ac_simps)
      with Cons.IH[of "off + length d"] tail sl show ?thesis by (auto simp: slice_of_def)
    next
      case old: False
      then have "drain_ooo (base + word_of_nat n) (take n D) m = (e, s, m')"
        using Cons.prems(3) False b en by (simp add: p seq_after_def k seq_before_offset)
      with Cons.IH[OF Cons.prems(1) tail] show ?thesis by auto
    qed
  qed
qed

lemma set_ooo_emplace: "set (ooo_emplace k d m) \<subseteq> insert (k, d) (set m)"
  by (induction k d m rule: ooo_emplace.induct) auto

lemma insert_data_ok:
  assumes "length D < 2 ^ 31" and "stream_ok D base st" and "slice_of D off d"
  shows "stream_ok D base (insert_data (base + word_of_nat off) d st)"
proof -
  obtain n where n: "n \<le> length D" "stream st = take n D" "expected_seq st = base + word_of_nat n"
    and m: "\<forall>(k, d) \<in> set (ooo st). \<exists>off. k = base + word_of_nat off \<and> slice_of D off d"
    using assms(2) by (auto simp: stream_ok_def)
  have b: "off < 2 ^ 31" "n < 2 ^ 31" "off + length d \<le> length D" using assms(1,3) n(1) by (auto simp: slice_of_def)
  show ?thesis
  proof (cases "base + word_of_nat off = expected_seq st")
    case True
    then have "off = n"
    proof -
      have "word_of_nat off = (word_of_nat n :: u32)" using True by (simp add: n(3))
      then have "unat (word_of_nat off :: u32) = unat (word_of_nat n :: u32)" by simp
      then show ?thesis using b by (simp add: unat_offset)
    qed
    moreover have "take n D @ d = take (n + length d) D"
      using assms(3) \<open>off = n\<close> by (simp add: slice_of_def take_add)
    moreover obtain e s m' where dr: "drain_ooo (base + word_of_nat (n + length d)) (take (n + length d) D) (ooo st) = (e, s, m')"
      using prod_cases3 by blast
    ultimately show ?thesis
      using drain_prefix[OF assms(1) _ m dr] b(3) True m
      by (auto simp: insert_data_def n add.assoc stream_ok_def)
  next
    case False
    with assms(2) n m assms(3) show ?thesis
      using set_ooo_emplace[of "base + word_of_nat off" d "ooo st"]
      by (auto simp: insert_data_def stream_ok_def)
  qed
qed

lemma stream_ok_cong:
  "expected_seq st' = expected_seq st \<Longrightarrow> ooo st' = ooo st \<Longrightarrow> stream st' = stream st \<Longrightarrow>
   stream_ok D base st' = stream_ok D base st"
  by (simp add: stream_ok_def)

lemma insert_data_flags [simp]:
  "syn_received (insert_data seq d st) = syn_received st"
  "fin_received (insert_data seq d st) = fin_received st"
  by (auto simp: insert_data_def split: prod.splits)

lemma conn_step_ok:
  assumes "length D < 2 ^ 31" and "stream_ok D base st" and "syn_received st" and "segment_of D base sg"
  shows "stream_ok D base (fst (conn_step now sg st)) \<and> syn_received (fst (conn_step now sg st)) \<and>
    \<not> snd (conn_step now sg st)"
proof -
  define st1 where "st1 = (if sg_rst sg then note_packet now (sg_len sg) st\<lparr>fin_received := True\<rparr> else note_packet now (sg_len sg) st)"
  have f: "expected_seq st1 = expected_seq st" "ooo st1 = ooo st" "stream st1 = stream st" "syn_received st1"
    using assms(3) by (simp_all add: st1_def note_packet_def)
  then have ok: "stream_ok D base st1" using assms(2) stream_ok_cong by blast
  have ns: "\<not> sg_syn sg" using assms(4) by (simp add: segment_of_def)
  have base: "baseline q st1 = st1" for q using f(4) by (simp add: baseline_def)
  have upd: "stream_ok D base (x\<lparr>fin_received := True\<rparr>) = stream_ok D base x" for x by (rule stream_ok_cong) simp_all
  show ?thesis
  proof (cases "sg_captured sg \<and> 0 < sg_len sg")
    case True
    with assms(4) obtain off where off: "sg_seq sg = base + word_of_nat off" "slice_of D off (sg_data sg)"
      by (auto simp: segment_of_def)
    have nc: "\<not> conflicting st1 (sg_seq sg) (sg_data sg)" unfolding off(1) by (rule no_conflict[OF assms(1) ok off(2)])
    have "conn_step now sg st = (if sg_fin sg then insert_data (sg_seq sg) (sg_data sg) st1\<lparr>fin_received := True\<rparr>
        else insert_data (sg_seq sg) (sg_data sg) st1, False)"
      using ns True nc by (simp add: conn_step_def Let_def base st1_def[symmetric])
    with insert_data_ok[OF assms(1) ok off(2)] f(4) show ?thesis by (simp add: off(1) upd)
  next
    case False
    have "conn_step now sg st = (if sg_fin sg then st1\<lparr>fin_received := True\<rparr> else st1, False)"
    proof -
      have F: "(sg_captured sg \<and> 0 < sg_len sg) = False" using False by blast
      show ?thesis using ns by (simp only: conn_step_def Let_def st1_def[symmetric] F if_False)
    qed
    with ok f(4) show ?thesis by (simp add: upd)
  qed
qed


section \<open>Segments of a chunked stream in any order\<close>

definition offs :: "bytes list \<Rightarrow> nat \<Rightarrow> nat" where
  "offs cs i = length (concat (take i cs))"

definition chunk :: "bytes list \<Rightarrow> u32 \<Rightarrow> nat \<Rightarrow> u32 \<times> bytes" where
  "chunk cs base i = (base + word_of_nat (offs cs i), cs ! i)"

text \<open>The sender's side: non-empty chunks that do not run past the end of the sequence space.\<close>

definition sendable :: "bytes list \<Rightarrow> u32 \<Rightarrow> bool" where
  "sendable cs base =
     ([] \<notin> set cs \<and> length cs \<le> 256 \<and> length (concat cs) < 2 ^ 31 \<and> unat base + length (concat cs) < 2 ^ 32)"

lemma offs_Suc: "i < length cs \<Longrightarrow> offs cs (Suc i) = offs cs i + length (cs ! i)"
  by (simp add: offs_def take_Suc_conv_app_nth)

lemma offs_mono:
  assumes "[] \<notin> set cs" and "i < j" and "j \<le> length cs"
  shows "offs cs i < offs cs j"
  using assms(2,3)
proof (induction j)
  case (Suc j)
  then have "cs ! j \<in> set cs" by (intro nth_mem) simp
  then have "cs ! j \<noteq> []" using assms(1) by metis
  then have "offs cs j < offs cs (Suc j)" using Suc.prems by (simp add: offs_Suc)
  with Suc show ?case by (cases "i = j") auto
qed simp

lemma offs_less_iff:
  "[] \<notin> set cs \<Longrightarrow> i \<le> length cs \<Longrightarrow> j \<le> length cs \<Longrightarrow> offs cs i < offs cs j \<longleftrightarrow> i < j"
  using offs_mono[of cs i j] offs_mono[of cs j i] by (cases i j rule: linorder_cases) auto

lemma offs_le: "offs cs i \<le> length (concat cs)"
proof -
  have "concat cs = concat (take i cs) @ concat (drop i cs)" by (metis append_take_drop_id concat_append)
  then show ?thesis by (simp add: offs_def)
qed

lemma unat_base_offset:
  assumes "unat (base :: u32) + n < 2 ^ 32"
  shows "unat (base + word_of_nat n) = unat base + n"
proof -
  have "unat (word_of_nat n :: u32) = n" using assms by (simp add: unat_offset)
  with assms show ?thesis by (simp add: unat_word_ariths)
qed

lemma chunk_key_less:
  assumes "sendable cs base" and "i < length cs" and "j < length cs"
  shows "fst (chunk cs base i) < fst (chunk cs base j) \<longleftrightarrow> i < j"
proof -
  have "unat base + offs cs k < 2 ^ 32" for k
    using assms(1) offs_le[of cs k] by (simp add: sendable_def)
  then have "unat (fst (chunk cs base k)) = unat base + offs cs k" for k
    by (simp add: chunk_def unat_base_offset)
  with assms offs_less_iff[of cs i j] show ?thesis by (simp add: word_less_nat_alt sendable_def)
qed

lemma chunk_key_eq:
  "sendable cs base \<Longrightarrow> i < length cs \<Longrightarrow> j < length cs \<Longrightarrow>
   fst (chunk cs base i) = fst (chunk cs base j) \<longleftrightarrow> i = j"
  using chunk_key_less[of cs base i j] chunk_key_less[of cs base j i] by (cases i j rule: linorder_cases) auto

lemma seq_after_chunk:
  assumes "sendable cs base" and "i \<le> length cs" and "j \<le> length cs"
  shows "seq_after (base + word_of_nat (offs cs i)) (base + word_of_nat (offs cs j)) \<longleftrightarrow> j < i"
proof -
  have "offs cs k < 2 ^ 31" for k using assms(1) offs_le[of cs k] by (simp add: sendable_def)
  then show ?thesis
    using assms offs_less_iff[of cs j i] by (simp add: seq_after_def seq_before_offset sendable_def)
qed

abbreviation keys_sorted :: "(u32 \<times> bytes) list \<Rightarrow> bool" where
  "keys_sorted m \<equiv> sorted_wrt (<) (map fst m)"

lemma fst_set_ooo_emplace: "fst ` set (ooo_emplace k d m) = insert k (fst ` set m)"
  by (induction k d m rule: ooo_emplace.induct) auto

lemma keys_sorted_emplace: "keys_sorted m \<Longrightarrow> keys_sorted (ooo_emplace k d m)"
proof (induction k d m rule: ooo_emplace.induct)
  case (2 k d k' d' m)
  have s: "set (map fst (ooo_emplace k d m)) = insert k (set (map fst m))"
    using fst_set_ooo_emplace[of k d m] by simp
  show ?case
  proof (cases "k < k' \<or> k = k'")
    case True
    with 2 show ?thesis by (auto dest: less_trans)
  next
    case False
    then have k: "k' < k" "\<not> k < k'" "k \<noteq> k'" by auto
    with 2(1)[OF k(2,3)] 2(2) show ?thesis using s by (simp del: set_map)
  qed
qed simp

lemma set_ooo_emplace_new: "k \<notin> fst ` set m \<Longrightarrow> set (ooo_emplace k d m) = insert (k, d) (set m)"
  by (induction k d m rule: ooo_emplace.induct) auto

lemma set_ooo_emplace_old: "keys_sorted m \<Longrightarrow> k \<in> fst ` set m \<Longrightarrow> ooo_emplace k d m = m"
  by (induction k d m rule: ooo_emplace.induct) fastforce+

text \<open>Draining a sorted buffer of chunks: everything contiguous with chunk \<open>j\<close> is taken.\<close>

lemma drain_chunks:
  assumes "sendable cs base" and "keys_sorted m" and "set m = chunk cs base ` I" and "I \<subseteq> {j..<length cs}"
    and "j \<le> length cs"
  shows "\<exists>j' m'. drain_ooo (base + word_of_nat (offs cs j)) (concat (take j cs)) m =
      (base + word_of_nat (offs cs j'), concat (take j' cs), m') \<and> j \<le> j' \<and> j' \<le> length cs \<and>
      {j..<j'} \<subseteq> I \<and> j' \<notin> I \<and> keys_sorted m' \<and> set m' = chunk cs base ` {i \<in> I. j' \<le> i}"
  using assms(2-)
proof (induction m arbitrary: j I)
  case Nil
  then show ?case by (intro exI[of _ j] exI[of _ "[]"]) auto
next
  case (Cons p m)
  then have "p \<in> chunk cs base ` I" by (metis list.set_intros(1))
  then obtain i where i: "i \<in> I" "p = chunk cs base i" by auto
  have il: "i < length cs" "j \<le> i" using i Cons.prems(3) by auto
  have min: "i \<le> i'" if "i' \<in> I" for i'
  proof (rule ccontr)
    assume "\<not> i \<le> i'"
    moreover have i': "i' < length cs" using that Cons.prems(3) by auto
    ultimately have "fst (chunk cs base i') < fst p" using chunk_key_less[OF assms(1) i' il(1)] i(2) by simp
    moreover have "chunk cs base i' \<in> set (p # m)" using Cons.prems(2) that by auto
    ultimately show False using Cons.prems(1) by auto
  qed
  show ?case
  proof (cases "i = j")
    case False
    then have "j < i" using il by simp
    then have "drain_ooo (base + word_of_nat (offs cs j)) (concat (take j cs)) (p # m) =
        (base + word_of_nat (offs cs j), concat (take j cs), p # m)"
      using seq_after_chunk[OF assms(1), of i j] il by (simp add: i(2) chunk_def)
    moreover have "j \<notin> I" using min \<open>j < i\<close> by force
    moreover have "{i \<in> I. j \<le> i} = I" using Cons.prems(3) by auto
    ultimately show ?thesis using Cons.prems by (intro exI[of _ j] exI[of _ "p # m"]) auto
  next
    case True
    have jl: "j < length cs" using il True by simp
    have a: "\<not> seq_after (fst p) (base + word_of_nat (offs cs j))"
      using seq_after_chunk[OF assms(1), of j j] jl True by (simp add: i(2) chunk_def)
    have b: "seq_after (fst p + word_of_nat (length (cs ! j))) (base + word_of_nat (offs cs j))"
      using seq_after_chunk[OF assms(1), of "Suc j" j] jl True
      by (simp add: i(2) chunk_def offs_Suc add.assoc)
    have pm: "p \<notin> set m" using Cons.prems(1) by auto
    have sm: "set m = chunk cs base ` (I - {j})"
    proof -
      have "inj_on (chunk cs base) I"
      proof (rule inj_onI)
        fix x y assume xy: "x \<in> I" "y \<in> I" "chunk cs base x = chunk cs base y"
        then have "x < length cs" "y < length cs" using Cons.prems(3) by auto
        with xy(3) chunk_key_eq[OF assms(1)] show "x = y" by metis
      qed
      then have "chunk cs base ` (I - {j}) = chunk cs base ` I - {p}" using i True by (auto simp: inj_on_def)
      then show ?thesis using Cons.prems(2) pm by auto
    qed
    have step: "drain_ooo (base + word_of_nat (offs cs j)) (concat (take j cs)) (p # m) =
        drain_ooo (base + word_of_nat (offs cs (Suc j))) (concat (take (Suc j) cs)) m"
    proof -
      have p: "p = (base + word_of_nat (offs cs j), cs ! j)" using i(2) True by (simp add: chunk_def)
      show ?thesis using a b jl by (simp add: p offs_Suc take_Suc_conv_app_nth add.assoc)
    qed
    have "I - {j} \<subseteq> {Suc j..<length cs}" using Cons.prems(3) by auto
    with Cons.IH[of "I - {j}" "Suc j"] Cons.prems(1) sm jl obtain j' m' where r:
      "drain_ooo (base + word_of_nat (offs cs (Suc j))) (concat (take (Suc j) cs)) m =
        (base + word_of_nat (offs cs j'), concat (take j' cs), m')"
      "Suc j \<le> j'" "j' \<le> length cs" "{Suc j..<j'} \<subseteq> I - {j}" "j' \<notin> I - {j}" "keys_sorted m'"
      "set m' = chunk cs base ` {i \<in> I - {j}. j' \<le> i}" by auto
    have "{i \<in> I - {j}. j' \<le> i} = {i \<in> I. j' \<le> i}" using r(2) by auto
    moreover have "{j..<j'} \<subseteq> I" using r(2,4) i(1) True by (auto simp: Suc_le_eq order_less_le)
    ultimately show ?thesis using r step by (intro exI[of _ j'] exI[of _ m']) auto
  qed
qed


text \<open>The state after the chunks with the indices \<open>R\<close> have arrived.\<close>

definition arrived :: "bytes list \<Rightarrow> u32 \<Rightarrow> nat set \<Rightarrow> conn_state \<Rightarrow> bool" where
  "arrived cs base R st =
     (R \<subseteq> {..<length cs} \<and> (\<exists>j \<le> length cs. {..<j} \<subseteq> R \<and> j \<notin> R \<and> stream st = concat (take j cs) \<and>
        expected_seq st = base + word_of_nat (offs cs j) \<and> keys_sorted (ooo st) \<and>
        set (ooo st) = chunk cs base ` {i \<in> R. j \<le> i}))"

lemma concat_take_prefix: "concat (take j cs) = take (offs cs j) (concat cs)"
proof -
  have "concat cs = concat (take j cs) @ concat (drop j cs)" by (metis append_take_drop_id concat_append)
  then show ?thesis by (simp add: offs_def)
qed

lemma chunk_slice:
  assumes "i < length cs"
  shows "slice_of (concat cs) (offs cs i) (cs ! i)"
proof -
  have "concat cs = concat (take i cs) @ cs ! i @ concat (drop (Suc i) cs)"
    by (metis Cons_nth_drop_Suc assms concat.simps(2) concat_append append_take_drop_id)
  then show ?thesis by (simp add: slice_of_def offs_def)
qed

lemma arrived_stream_ok:
  assumes "arrived cs base R st"
  shows "stream_ok (concat cs) base st"
proof -
  obtain j where j: "stream st = concat (take j cs)" "expected_seq st = base + word_of_nat (offs cs j)"
    "set (ooo st) = chunk cs base ` {i \<in> R. j \<le> i}" "R \<subseteq> {..<length cs}"
    using assms by (auto simp: arrived_def)
  then show ?thesis
    unfolding stream_ok_def
    by (intro conjI exI[of _ "offs cs j"]) (auto simp: concat_take_prefix offs_le chunk_def intro: chunk_slice)
qed

lemma arrived_buffer_small:
  assumes "sendable cs base" and "keys_sorted m" and "set m \<subseteq> chunk cs base ` ({..<length cs} - {j})" and "j < length cs"
  shows "length m < 256"
proof -
  have "distinct m" using assms(2) strict_sorted_iff[of "map fst m"] by (simp add: distinct_map)
  then have "length m = card (set m)" by (simp add: distinct_card)
  also have "\<dots> \<le> card (chunk cs base ` ({..<length cs} - {j}))" by (rule card_mono) (use assms(3) in auto)
  also have "\<dots> \<le> card ({..<length cs} - {j})" by (rule card_image_le) simp
  also have "\<dots> < length cs" using assms(4) by simp
  finally show ?thesis using assms(1) by (simp add: sendable_def)
qed

lemma insert_data_arrived:
  assumes "sendable cs base" and "arrived cs base R st" and "i < length cs"
  shows "arrived cs base (insert i R) (insert_data (base + word_of_nat (offs cs i)) (cs ! i) st)"
proof -
  obtain j where R: "R \<subseteq> {..<length cs}" and j: "j \<le> length cs" "{..<j} \<subseteq> R" "j \<notin> R"
    "stream st = concat (take j cs)" "expected_seq st = base + word_of_nat (offs cs j)"
    "keys_sorted (ooo st)" "set (ooo st) = chunk cs base ` {i \<in> R. j \<le> i}"
    using assms(2) by (auto simp: arrived_def)
  have key: "base + word_of_nat (offs cs i) = expected_seq st \<longleftrightarrow> i = j" if "j < length cs"
    using chunk_key_eq[OF assms(1,3) that] by (simp add: chunk_def j(5))
  have aft: "seq_after (base + word_of_nat (offs cs i)) (expected_seq st) \<longleftrightarrow> j < i"
    using seq_after_chunk[OF assms(1), of i j] assms(3) j(1,5) by simp
  show ?thesis
  proof (cases i j rule: linorder_cases)
    case less
    then have "base + word_of_nat (offs cs i) \<noteq> expected_seq st"
      using seq_after_chunk[OF assms(1), of j i] seq_after_chunk[OF assms(1), of i i] assms(3) j(1,5) by auto
    then have "insert_data (base + word_of_nat (offs cs i)) (cs ! i) st = st"
      using aft less by (simp add: insert_data_def)
    moreover have "insert i R = R" using j(2) less by auto
    ultimately show ?thesis using assms(2) by simp
  next
    case equal
    have e: "expected_seq st + word_of_nat (length (cs ! i)) = base + word_of_nat (offs cs (Suc j))"
      using equal assms(3) by (simp add: j(5) offs_Suc add.assoc)
    have s: "stream st @ cs ! i = concat (take (Suc j) cs)"
      using equal assms(3) by (simp add: j(4) take_Suc_conv_app_nth)
    have I: "set (ooo st) = chunk cs base ` {i \<in> R. Suc j \<le> i}" "{i \<in> R. Suc j \<le> i} \<subseteq> {Suc j..<length cs}"
    proof -
      have "{i \<in> R. j \<le> i} = {i \<in> R. Suc j \<le> i}" using j(3) by (auto simp: le_eq_less_or_eq Suc_le_eq)
      then show "set (ooo st) = chunk cs base ` {i \<in> R. Suc j \<le> i}" using j(7) by simp
    qed (use R in auto)
    obtain j' m' where r: "drain_ooo (base + word_of_nat (offs cs (Suc j))) (concat (take (Suc j) cs)) (ooo st) =
        (base + word_of_nat (offs cs j'), concat (take j' cs), m')" "Suc j \<le> j'" "j' \<le> length cs"
      "{Suc j..<j'} \<subseteq> {i \<in> R. Suc j \<le> i}" "j' \<notin> {i \<in> R. Suc j \<le> i}" "keys_sorted m'"
      "set m' = chunk cs base ` {k \<in> {i \<in> R. Suc j \<le> i}. j' \<le> k}"
      using drain_chunks[OF assms(1) j(6) I] equal assms(3) by auto
    have "insert_data (base + word_of_nat (offs cs i)) (cs ! i) st =
        st\<lparr>expected_seq := base + word_of_nat (offs cs j'), stream := concat (take j' cs), ooo := m'\<rparr>"
      using equal key assms(3) r(1) e s by (simp add: insert_data_def)
    moreover have "{..<j'} \<subseteq> insert i R"
    proof
      fix k assume "k \<in> {..<j'}"
      then have "k < j \<or> k = j \<or> k \<in> {Suc j..<j'}" by auto
      then show "k \<in> insert i R" using j(2) r(4) equal by blast
    qed
    moreover have "j' \<notin> insert i R" using r(2,5) equal by auto
    moreover have "{k \<in> {i \<in> R. Suc j \<le> i}. j' \<le> k} = {k \<in> insert i R. j' \<le> k}" using r(2) equal by auto
    ultimately show ?thesis
      using R assms(3) r by (simp add: arrived_def) (intro exI[of _ j'], simp)
  next
    case greater
    then have jl: "j < length cs" using assms(3) by simp
    have ne: "base + word_of_nat (offs cs i) \<noteq> expected_seq st" using key[OF jl] greater by simp
    have "set (ooo st) \<subseteq> chunk cs base ` ({..<length cs} - {j})" using j(3,7) R by auto
    then have "length (ooo st) < 256" by (rule arrived_buffer_small[OF assms(1) j(6) _ jl])
    then have eq: "insert_data (base + word_of_nat (offs cs i)) (cs ! i) st =
        st\<lparr>ooo := ooo_emplace (base + word_of_nat (offs cs i)) (cs ! i) (ooo st)\<rparr>"
      using ne aft greater by (simp add: insert_data_def)
    have "set (ooo_emplace (base + word_of_nat (offs cs i)) (cs ! i) (ooo st)) = chunk cs base ` {k \<in> insert i R. j \<le> k}"
    proof (cases "i \<in> R")
      case True
      then have "chunk cs base i \<in> set (ooo st)" using j(7) greater by auto
      then have "base + word_of_nat (offs cs i) \<in> fst ` set (ooo st)" by (force simp: chunk_def)
      from set_ooo_emplace_old[OF j(6) this] True show ?thesis by (simp add: j(7) insert_absorb)
    next
      case False
      have "base + word_of_nat (offs cs i) \<notin> fst ` set (ooo st)"
      proof
        assume "base + word_of_nat (offs cs i) \<in> fst ` set (ooo st)"
        then obtain k where "k \<in> R" "fst (chunk cs base k) = fst (chunk cs base i)"
          unfolding j(7) by (auto simp: chunk_def)
        with False R chunk_key_eq[OF assms(1) _ assms(3)] show False by auto
      qed
      from set_ooo_emplace_new[OF this] greater show ?thesis by (auto simp: j(7) chunk_def)
    qed
    moreover have "{..<j} \<subseteq> insert i R" "j \<notin> insert i R" using j(2,3) greater by auto
    ultimately show ?thesis
      using R assms(3) j keys_sorted_emplace[OF j(6)] unfolding eq arrived_def
      by (intro conjI exI[of _ j]) auto
  qed
qed


definition carries :: "bytes list \<Rightarrow> u32 \<Rightarrow> nat \<Rightarrow> segment \<Rightarrow> bool" where
  "carries cs base i sg =
     (\<not> sg_syn sg \<and> sg_captured sg \<and> 0 < sg_len sg \<and>
      sg_seq sg = base + word_of_nat (offs cs i) \<and> sg_data sg = cs ! i)"

definition run_conn :: "(real \<times> segment) list \<Rightarrow> conn_state \<Rightarrow> conn_state" where
  "run_conn evs st = fold (\<lambda>(now, sg) st. fst (conn_step now sg st)) evs st"

lemma arrived_cong:
  "expected_seq st' = expected_seq st \<Longrightarrow> ooo st' = ooo st \<Longrightarrow> stream st' = stream st \<Longrightarrow>
   arrived cs base R st' = arrived cs base R st"
  by (simp add: arrived_def)

lemma conn_step_arrived:
  assumes "sendable cs base" and "arrived cs base R st" and "syn_received st" and "i < length cs" and "carries cs base i sg"
  shows "arrived cs base (insert i R) (fst (conn_step now sg st)) \<and> syn_received (fst (conn_step now sg st))"
proof -
  define st1 where "st1 = (if sg_rst sg then note_packet now (sg_len sg) st\<lparr>fin_received := True\<rparr> else note_packet now (sg_len sg) st)"
  have f: "expected_seq st1 = expected_seq st" "ooo st1 = ooo st" "stream st1 = stream st" "syn_received st1"
    using assms(3) by (simp_all add: st1_def note_packet_def)
  then have a1: "arrived cs base R st1" using assms(2) arrived_cong by blast
  have base: "baseline q st1 = st1" for q using f(4) by (simp add: baseline_def)
  have D: "length (concat cs) < 2 ^ 31" using assms(1) by (simp add: sendable_def)
  have sg: "\<not> sg_syn sg" "sg_captured sg \<and> 0 < sg_len sg" "sg_seq sg = base + word_of_nat (offs cs i)" "sg_data sg = cs ! i"
    using assms(5) by (simp_all add: carries_def)
  have nc: "\<not> conflicting st1 (sg_seq sg) (sg_data sg)"
    unfolding sg(3,4) by (rule no_conflict[OF D arrived_stream_ok[OF a1] chunk_slice[OF assms(4)]])
  have upd: "arrived cs base R' (x\<lparr>fin_received := True\<rparr>) = arrived cs base R' x" for x R' by (rule arrived_cong) simp_all
  have "conn_step now sg st = (if sg_fin sg then insert_data (sg_seq sg) (sg_data sg) st1\<lparr>fin_received := True\<rparr>
      else insert_data (sg_seq sg) (sg_data sg) st1, False)"
    using sg nc by (simp add: conn_step_def Let_def base st1_def[symmetric])
  with insert_data_arrived[OF assms(1) a1 assms(4)] f(4) show ?thesis by (simp add: sg(3,4) upd)
qed

lemma run_conn_arrived:
  assumes "sendable cs base"
  shows "arrived cs base R st \<Longrightarrow> syn_received st \<Longrightarrow> \<forall>(now, sg) \<in> set evs. \<exists>i < length cs. carries cs base i sg \<Longrightarrow>
    \<exists>R'. arrived cs base R' (run_conn evs st) \<and> R \<subseteq> R' \<and>
      (\<forall>(now, sg) \<in> set evs. \<exists>i \<in> R'. carries cs base i sg)"
proof (induction evs arbitrary: R st)
  case Nil
  then show ?case by (auto simp: run_conn_def)
next
  case (Cons ev evs)
  obtain now sg where ev: "ev = (now, sg)" by (cases ev)
  from Cons.prems(3) obtain i where i: "i < length cs" "carries cs base i sg" by (auto simp: ev)
  note s = conn_step_arrived[OF assms Cons.prems(1,2) i]
  from Cons.IH[of "insert i R" "fst (conn_step now sg st)"] s Cons.prems(3) obtain R' where
    "arrived cs base R' (run_conn evs (fst (conn_step now sg st)))" "insert i R \<subseteq> R'"
    "\<forall>(now, sg) \<in> set evs. \<exists>i \<in> R'. carries cs base i sg" by auto
  with i(2) show ?case by (intro exI[of _ R']) (auto simp: run_conn_def ev)
qed

section \<open>Properties\<close>

text \<open>
  parsing a captured packet, of any length and with any header bytes, never reads outside it.
\<close>
theorem packet_parse_in_bounds:
  "parse_ip p \<noteq> None \<and>
   (\<forall>s. parse_ip p = Some (Tcp_packet s) \<longrightarrow> sg_len s < 2 ^ 16 \<and> (sg_captured s \<longrightarrow> length (sg_data s) = sg_len s))"
  using parse_ip_safe parse_ip_len by blast

definition sample_packet :: bytes where
  "sample_packet = [0x45, 0, 0, 42, 0, 0, 0, 0, 64, 6, 0, 0, 10, 0, 0, 1, 8, 8, 8, 8] @
     [0x1F, 0x90, 0, 80, 0, 0, 0, 7, 0, 0, 0, 0, 0x50, 0x10, 0, 0, 0, 0, 0, 0] @ [0x68, 0x69]"

theorem packet_parse_in_bounds_witness:
  "map_option (\<lambda>r. case r of Tcp_packet s \<Rightarrow> (sg_len s, sg_data s, sg_captured s) | _ \<Rightarrow> (0, [], False))
     (parse_ip sample_packet) = Some (2, [0x68, 0x69], True) \<and>
   sg_len (case parse_ip sample_packet of Some (Tcp_packet s) \<Rightarrow> s) < 2 ^ 16"
proof -
  obtain s where s: "parse_ip sample_packet = Some (Tcp_packet s)" "sg_len s = 2" "sg_data s = [0x68, 0x69]" "sg_captured s"
  proof
    show "parse_ip sample_packet = Some (Tcp_packet \<lparr>sg_src = 0x0100000A, sg_dst = 0x08080808, sg_sport = 0x901F,
        sg_dport = 0x5000, sg_seq = 7, sg_syn = False, sg_fin = False, sg_rst = False, sg_ttl = 64, sg_len = 2,
        sg_captured = True, sg_data = [0x68, 0x69]\<rparr>)" by code_simp
  qed simp_all
  with packet_parse_in_bounds[of sample_packet] show ?thesis by simp
qed


definition data_segment :: "u32 \<Rightarrow> bytes \<Rightarrow> segment" where
  "data_segment seq d = \<lparr>sg_src = 1, sg_dst = 2, sg_sport = 3, sg_dport = 4, sg_seq = seq, sg_syn = False,
     sg_fin = False, sg_rst = False, sg_ttl = 64, sg_len = length d, sg_captured = True, sg_data = d\<rparr>"

definition opened :: "u32 \<Rightarrow> conn_state" where
  "opened base = new_conn\<lparr>syn_received := True, expected_seq := base\<rparr>"

lemma opened_received: "syn_received (opened base)"
  by (simp add: opened_def)





text \<open>
  a segment that starts up to 2 GiB before the expected byte is ignored as a whole, so a retransmission
  that carries new bytes behind the old ones is lost: nothing of it reaches the buffer.
\<close>
theorem coalesced_retransmission_dropped:
  assumes "0 < k" and "k < 2 ^ 31"
  shows "insert_data (expected_seq st - word_of_nat k) data st = st"
proof -
  let ?b = "expected_seq st - word_of_nat k"
  have "seq_before (?b + word_of_nat 0) (?b + word_of_nat k)" "\<not> seq_before (?b + word_of_nat k) (?b + word_of_nat 0)"
    using assms seq_before_offset[of 0 k ?b] seq_before_offset[of k 0 ?b] by simp_all
  then have "seq_before ?b (expected_seq st)" "\<not> seq_after ?b (expected_seq st)" by (simp_all add: seq_after_def)
  moreover from this(1) have "?b \<noteq> expected_seq st" by (auto simp: seq_before_def)
  ultimately show ?thesis by (simp add: insert_data_def)
qed

theorem coalesced_retransmission_dropped_witness:
  "stream (insert_data 100 [1, 2, 3, 4] (opened 102)) = []"
  using coalesced_retransmission_dropped[of 2 "opened 102" "[1, 2, 3, 4]"] by (simp add: opened_def new_conn_def)

end
