(* ===== verification/Reassembler_State.thy ===== *)
theory Reassembler_State
  imports Wirewolf_Types Alert_Json Config Proxy_Db Behavioral_Model Tcp_Stream
begin

text \<open>
  The state of \<^verbatim>\<open>TcpReassembler\<close> (\<^verbatim>\<open>include/tcp_reassembly.hpp\<close>): the trackers, the
  connection table, the block list and the two outputs, the alert callback and the flow queue, which are
  kept as logs.  The constructor, the block list operations and the emission of alerts with its
  deduplication are here; the detectors and the flow paths are in the theories that import this one.
  Hash tables are association lists with distinct keys in insertion order, hash sets lists without
  duplicates; the library gives no order for either.
\<close>

record source_tracker =
  dst_ports :: "u16 list"
  port_syn_counts :: "(u16 \<times> nat) list"
  total_syns :: nat
  first_syn_time :: real
  port_dst_ips :: "(u16 \<times> u32 list) list"
  ext_dsts :: "u32 list"
  initial_ttl :: byte

definition new_tracker :: source_tracker where
  "new_tracker = \<lparr>dst_ports = [], port_syn_counts = [], total_syns = 0, first_syn_time = 0,
     port_dst_ips = [], ext_dsts = [], initial_ttl = 0\<rparr>"

record beacon_tracker =
  syn_timestamps :: "real list"
  bt_src :: u32
  bt_dst :: u32
  bt_dport :: u16

definition new_beacon :: beacon_tracker where
  "new_beacon = \<lparr>syn_timestamps = [], bt_src = 0, bt_dst = 0, bt_dport = 0\<rparr>"

record beh_conn =
  bc_src :: u32
  bc_dst :: u32
  bc_dport :: u16
  bc_flows :: "beh_flow list"

definition new_beh_conn :: beh_conn where
  "new_beh_conn = \<lparr>bc_src = 0, bc_dst = 0, bc_dport = 0, bc_flows = []\<rparr>"

record reassembler =
  connections :: "(connection_id \<times> conn_state) list"
  proxy :: proxy_db
  source_trackers :: "(u32 \<times> source_tracker) list"
  alerted_anomalies :: "u64 list"
  beacon_trackers :: "(u64 \<times> beacon_tracker) list"
  blocked_ips :: "u32 list"
  allowlist_ips :: "u32 list"
  blocked_packet_count :: nat
  behavioral_ready :: bool
  beh_export :: bool
  beh_cfg :: beh_config
  beh_botnet :: markov_model
  beh_normal :: markov_model
  beh_conns :: "(u64 \<times> beh_conn) list"
  beh_alerted :: "u64 list"
  beh_suspicious :: "u64 list"
  p2p_peers :: "u32 list"
  last_eviction_time :: real
  last_force_evict_time :: real
  shed_count :: nat
  alerts_out :: "threat_alert list"
  flows_out :: "flow_data list"

text \<open>What does not change while the sensor runs.\<close>

record sensor =
  se_cfg :: wirewolf_config
  se_hash :: std_hash
  se_callback :: bool

definition max_connections :: nat where "max_connections = 50000"
definition max_source_trackers :: nat where "max_source_trackers = 100000"
definition max_beacon_trackers :: nat where "max_beacon_trackers = 50000"
definition max_dedup_hashes :: nat where "max_dedup_hashes = 100000"
definition max_beh_conns :: nat where "max_beh_conns = 100000"

definition initial_reassembler :: reassembler where
  "initial_reassembler =
     \<lparr>connections = [], proxy = new_proxy_db, source_trackers = [], alerted_anomalies = [],
      beacon_trackers = [], blocked_ips = [], allowlist_ips = [], blocked_packet_count = 0,
      behavioral_ready = False, beh_export = False, beh_cfg = default_beh_config,
      beh_botnet = new_model [] (5 / 10), beh_normal = new_model [] (5 / 10), beh_conns = [],
      beh_alerted = [], beh_suspicious = [], p2p_peers = [], last_eviction_time = 0,
      last_force_evict_time = 0, shed_count = 0, alerts_out = [], flows_out = []\<rparr>"

section \<open>The constructor\<close>

text \<open>Outside the program: the file system, the parser of doubles, and the packet capture library, which
  opens a file or an interface and reports the link type.\<close>

record platform =
  pf_files :: "string \<Rightarrow> bytes option"
  pf_real :: "string \<Rightarrow> real option"
  pf_open :: "bool \<Rightarrow> string \<Rightarrow> string + int"

definition load_model_file :: "platform \<Rightarrow> bytes \<Rightarrow> (markov_model \<times> string) option" where
  "load_model_file pf bs = load_model (pf_real pf) (getline_split (CHR 0x0A) (text_of bs))"

definition load_behavioral :: "platform \<Rightarrow> wirewolf_config \<Rightarrow> reassembler \<Rightarrow> string + reassembler" where
  "load_behavioral pf cfg r =
     (if behavioral_models_dir cfg = [] then Inr r
      else (let d = behavioral_models_dir cfg;
                dir = (if last d \<noteq> CHR ''/'' \<and> last d \<noteq> CHR 0x5C then d @ ''/'' else d)
            in case (pf_files pf (dir @ ''behavioral.botnet.model''), pf_files pf (dir @ ''behavioral.normal.model'')) of
                 (Some bf, Some nf) \<Rightarrow>
                   (case (load_model_file pf bf, load_model_file pf nf) of
                      (Some (b, fp_b), Some (n, fp_n)) \<Rightarrow>
                        Inr (r\<lparr>beh_botnet := b, beh_normal := n, behavioral_ready := True\<rparr>)
                    | _ \<Rightarrow> Inl ''stol'')
               | _ \<Rightarrow> Inr r))"

definition create_reassembler :: "platform \<Rightarrow> wirewolf_config \<Rightarrow> string + reassembler" where
  "create_reassembler pf cfg =
     (let r = initial_reassembler;
          r = (if threat_proxy_db cfg \<noteq> [] then r\<lparr>proxy := snd (load_proxy_db (pf_files pf) (threat_proxy_db cfg) (proxy r))\<rparr> else r)
      in case load_behavioral pf cfg r of
           Inl e \<Rightarrow> Inl e
         | Inr r \<Rightarrow>
             (let offline = is_offline_capture cfg in
              case pf_open pf offline (interface cfg) of
                Inl errbuf \<Rightarrow> Inl ((if offline then ''pcap_open_offline failed: '' else ''pcap_open_live failed: '') @ errbuf)
              | Inr datalink \<Rightarrow>
                  (if datalink \<noteq> 1
                   then Inl (''Unsupported link type: '' @ int_to_string datalink @ '' (only Ethernet/DLT_EN10MB supported)'')
                   else Inr r)))"

section \<open>The block list\<close>

definition block_source :: "u32 \<Rightarrow> reassembler \<Rightarrow> reassembler" where
  "block_source ip r =
     (if ip \<in> set (allowlist_ips r) then r else r\<lparr>blocked_ips := List.insert ip (blocked_ips r)\<rparr>)"

definition unblock_source :: "u32 \<Rightarrow> reassembler \<Rightarrow> reassembler" where
  "unblock_source ip r = r\<lparr>blocked_ips := removeAll ip (blocked_ips r)\<rparr>"

definition is_blocked :: "u32 \<Rightarrow> reassembler \<Rightarrow> bool" where
  "is_blocked ip r = (ip \<in> set (blocked_ips r))"

text \<open>One \<open>%u\<close> of \<open>sscanf\<close>: the number and the rest of the input.\<close>

definition scan_unsigned :: "string \<Rightarrow> (nat \<times> string) option" where
  "scan_unsigned s =
     (let t = dropWhile is_space s;
          neg = (t \<noteq> [] \<and> hd t = CHR ''-'');
          u = (if t \<noteq> [] \<and> (hd t = CHR ''-'' \<or> hd t = CHR ''+'') then tl t else t);
          ds = takeWhile is_digit u;
          n = min (digits_value 0 ds) (2 ^ 32 - 1)
      in if ds = [] then None else Some (if neg then (2 ^ 32 - n) mod 2 ^ 32 else n, dropWhile is_digit u))"

definition scan_dot :: "string \<Rightarrow> string option" where
  "scan_dot s = (if s \<noteq> [] \<and> hd s = CHR ''.'' then Some (tl s) else None)"

definition scan_quad :: "string \<Rightarrow> (nat \<times> nat \<times> nat \<times> nat) option" where
  "scan_quad s = do {
     (o0, s) \<leftarrow> scan_unsigned s; s \<leftarrow> scan_dot s;
     (o1, s) \<leftarrow> scan_unsigned s; s \<leftarrow> scan_dot s;
     (o2, s) \<leftarrow> scan_unsigned s; s \<leftarrow> scan_dot s;
     (o3, s) \<leftarrow> scan_unsigned s;
     Some (o0, o1, o2, o3)
   }"

definition allow_token :: "string \<Rightarrow> u32 list \<Rightarrow> u32 list" where
  "allow_token tok ips =
     (let t = trim_chars [CHR '' '', CHR 0x09] tok in
      if t = [] then ips
      else (case scan_quad t of
              None \<Rightarrow> ips
            | Some (o0, o1, o2, o3) \<Rightarrow>
                if o0 < 256 \<and> o1 < 256 \<and> o2 < 256 \<and> o3 < 256
                then List.insert (word_of_nat o0 OR push_bit 8 (word_of_nat o1) OR push_bit 16 (word_of_nat o2) OR
                       push_bit 24 (word_of_nat o3)) ips
                else ips))"

definition set_block_allowlist :: "string \<Rightarrow> reassembler \<Rightarrow> reassembler" where
  "set_block_allowlist csv r = r\<lparr>allowlist_ips := fold allow_token (getline_split (CHR '','') csv) []\<rparr>"

section \<open>Alerts\<close>

definition anomaly_alert :: "connection_id \<Rightarrow> string \<Rightarrow> severity_info \<Rightarrow> string \<Rightarrow> threat_alert" where
  "anomaly_alert cid t sev snippet =
     \<lparr>al_connection = cid, al_threat_type = t, al_severity = severity_label (level sev), al_severity_info = sev,
      al_snippet = snippet, al_raw_output = build_alert_json t sev snippet,
      al_payload_text = ''[connection-anomaly: '' @ t @ '']'', al_confidence = confidence_for sev True\<rparr>"

definition pair_id :: "u32 \<Rightarrow> u32 \<Rightarrow> u16 \<Rightarrow> connection_id" where
  "pair_id s d p = \<lparr>src_ip = s, dst_ip = d, src_port = 0, dst_port = p\<rparr>"

text \<open>\<open>emit_alert\<close>: once per key; the source is blocked in inline mode.\<close>

definition emit_alert :: "sensor \<Rightarrow> connection_id \<Rightarrow> string \<Rightarrow> string \<Rightarrow> u64 \<Rightarrow> reassembler \<Rightarrow> reassembler" where
  "emit_alert se cid t snippet key r =
     (if key \<in> set (alerted_anomalies r) then r
      else (let r = r\<lparr>alerted_anomalies := key # alerted_anomalies r\<rparr> in
        if \<not> se_callback se then r
        else (let r = (if inline_block (se_cfg se) then block_source (src_ip cid) r else r)
              in r\<lparr>alerts_out := alerts_out r @ [anomaly_alert cid t (severity_for_threat t) snippet]\<rparr>)))"

text \<open>Keys: the fields and the detector's marker, combined in the order the code does.\<close>

definition key_of :: "sensor \<Rightarrow> u64 list \<Rightarrow> u64" where
  "key_of se hs = fold (\<lambda>h seed. hash_combine seed h) hs 0"

definition private_range :: "u32 \<Rightarrow> bool" where
  "private_range ip =
     (ip_byte ip 0 = 10 \<or> ip_byte ip 0 = 172 \<and> ip_byte ip 1 div 16 * 16 = 16 \<or>
      ip_byte ip 0 = 192 \<and> ip_byte ip 1 = 168)"

definition local_range :: "u32 \<Rightarrow> bool" where
  "local_range ip =
     (private_range ip \<or> ip_byte ip 0 = 127 \<or> ip_byte ip 0 = 169 \<and> ip_byte ip 1 = 254)"

definition intel_private :: "u32 \<Rightarrow> bool" where
  "intel_private ip = (local_range ip \<or> ip_byte ip 0 = 0)"

text \<open>The threat tag of an address, if the database flags it.\<close>

definition intel_tag :: "reassembler \<Rightarrow> u32 \<Rightarrow> string option" where
  "intel_tag r ip =
     (if \<not> ready (proxy r) then None
      else (case proxy_lookup (proxy r) (bswap32 ip) \<lparr>proxy_type = [], proxy_usage = [], proxy_threat = []\<rparr> of
              Some (True, info) \<Rightarrow> if proxy_threat info \<noteq> [] \<and> proxy_threat info \<noteq> ''-'' then Some (proxy_threat info) else None
            | _ \<Rightarrow> None))"

section \<open>The block list protects the allow list\<close>

definition blocks_ok :: "reassembler \<Rightarrow> bool" where
  "blocks_ok r = (set (blocked_ips r) \<inter> set (allowlist_ips r) = {})"

lemma block_source_ok [intro]: "blocks_ok r \<Longrightarrow> blocks_ok (block_source ip r)"
  by (auto simp: blocks_ok_def block_source_def)

lemma block_source_fields [simp]:
  "connections (block_source ip r) = connections r" "flows_out (block_source ip r) = flows_out r"
  "allowlist_ips (block_source ip r) = allowlist_ips r" "alerts_out (block_source ip r) = alerts_out r"
  "alerted_anomalies (block_source ip r) = alerted_anomalies r" "source_trackers (block_source ip r) = source_trackers r"
  "beacon_trackers (block_source ip r) = beacon_trackers r" "shed_count (block_source ip r) = shed_count r"
  "beh_suspicious (block_source ip r) = beh_suspicious r" "behavioral_ready (block_source ip r) = behavioral_ready r"
  by (auto simp: block_source_def)

lemma emit_alert_fields [simp]:
  "connections (emit_alert se cid t s k r) = connections r" "flows_out (emit_alert se cid t s k r) = flows_out r"
  "allowlist_ips (emit_alert se cid t s k r) = allowlist_ips r" "source_trackers (emit_alert se cid t s k r) = source_trackers r"
  "beacon_trackers (emit_alert se cid t s k r) = beacon_trackers r" "shed_count (emit_alert se cid t s k r) = shed_count r"
  "beh_suspicious (emit_alert se cid t s k r) = beh_suspicious r" "behavioral_ready (emit_alert se cid t s k r) = behavioral_ready r"
  by (auto simp: emit_alert_def Let_def)

lemma emit_alert_blocks_ok: "blocks_ok r \<Longrightarrow> blocks_ok (emit_alert se cid t s k r)"
  using block_source_ok[of "r\<lparr>alerted_anomalies := k # alerted_anomalies r\<rparr>" "src_ip cid"]
  by (auto simp: emit_alert_def Let_def blocks_ok_def)

lemma block_source_grows: "set (blocked_ips r) \<subseteq> set (blocked_ips (block_source ip r))"
  by (auto simp: block_source_def)

lemma emit_alert_grows: "set (blocked_ips r) \<subseteq> set (blocked_ips (emit_alert se cid t s k r))"
  using block_source_grows[of "r\<lparr>alerted_anomalies := k # alerted_anomalies r\<rparr>" "src_ip cid"]
  by (simp add: emit_alert_def Let_def)

lemma emit_alert_key: "k \<in> set (alerted_anomalies (emit_alert se cid t s k r))"
  by (auto simp: emit_alert_def Let_def)

lemma emit_alert_twice: "emit_alert se cid t s k (emit_alert se cid' t' s' k r) = emit_alert se cid' t' s' k r"
  using emit_alert_key[of k se cid' t' s' r] by (subst emit_alert_def) simp

end
