(* ===== verification/Anomaly_Detection.thy ===== *)
theory Anomaly_Detection
  imports Reassembler_State
begin

text \<open>
  The connection-level detectors of \<^verbatim>\<open>src/tcp_reassembly.cpp\<close>: TTL spoofing, threat intelligence,
  port scans, SSH brute force, worm propagation and SYN floods on every packet, and beaconing and mass
  mailing at the end of a capture.  Each is a function of its own, composed in the order of the code.
  The lemmas show that the detectors leave the connection table and the flow queue alone, never block an
  allow-listed address, and alert exactly when their thresholds are met.
\<close>

definition truncate_int :: "real \<Rightarrow> int" where
  "truncate_int x = (if 0 \<le> x then \<lfloor>x\<rfloor> else \<lceil>x\<rceil>)"

definition estimate_initial_ttl :: "byte \<Rightarrow> byte" where
  "estimate_initial_ttl observed = (if observed \<le> 64 then 64 else if observed \<le> 128 then 128 else 255)"

definition tracker_of :: "u32 \<Rightarrow> reassembler \<Rightarrow> source_tracker" where
  "tracker_of ip r = (case map_of (source_trackers r) ip of None \<Rightarrow> new_tracker | Some t \<Rightarrow> t)"

definition put_tracker :: "u32 \<Rightarrow> source_tracker \<Rightarrow> reassembler \<Rightarrow> reassembler" where
  "put_tracker ip t r = r\<lparr>source_trackers := al_put ip t (source_trackers r)\<rparr>"

section \<open>Detectors on every packet\<close>

definition check_spoofing :: "sensor \<Rightarrow> u32 \<Rightarrow> u32 \<Rightarrow> u16 \<Rightarrow> byte \<Rightarrow> reassembler \<Rightarrow> reassembler" where
  "check_spoofing se s d p ttl r =
     (let tracker = tracker_of s r in
      if 0 < ttl \<and> local_range s then
        (let est = estimate_initial_ttl ttl in
         if initial_ttl tracker = 0 then put_tracker s (tracker\<lparr>initial_ttl := est\<rparr>) r
         else if est \<noteq> initial_ttl tracker then
           put_tracker s (tracker\<lparr>initial_ttl := est\<rparr>)
             (emit_alert se (pair_id s d p) ''IP Spoofing''
                (''Source '' @ dotted_quad s @ '' changed initial-TTL '' @ nat_to_string (unat (initial_ttl tracker)) @
                 '' -> '' @ nat_to_string (unat est) @ '' (observed TTL '' @ nat_to_string (unat ttl) @ '') '' @ em_dash @
                 '' two distinct OS stacks on one source IP'')
                (key_of se [h32 (se_hash se) s, h64 (se_hash se) 0xAAAA0005]) r)
         else r)
      else r)"

definition count_port :: "u16 \<Rightarrow> (u16 \<times> nat) list \<Rightarrow> (u16 \<times> nat) list" where
  "count_port p m = al_put p ((case map_of m p of None \<Rightarrow> 0 | Some n \<Rightarrow> n) + 1) m"

definition add_port_dst :: "u16 \<Rightarrow> u32 \<Rightarrow> (u16 \<times> u32 list) list \<Rightarrow> (u16 \<times> u32 list) list" where
  "add_port_dst p d m = al_put p (List.insert d (case map_of m p of None \<Rightarrow> [] | Some ds \<Rightarrow> ds)) m"

definition track_syn :: "u32 \<Rightarrow> u16 \<Rightarrow> real \<Rightarrow> source_tracker \<Rightarrow> source_tracker" where
  "track_syn d p now t =
     (let low = (unat (bswap16 p) < 1024) in
      t\<lparr>first_syn_time := (if total_syns t = 0 then now else first_syn_time t), total_syns := total_syns t + 1,
        dst_ports := (if low then List.insert p (dst_ports t) else dst_ports t),
        port_syn_counts := count_port p (port_syn_counts t),
        port_dst_ips := (if low then add_port_dst p d (port_dst_ips t) else port_dst_ips t),
        ext_dsts := (if private_range d then ext_dsts t else List.insert d (ext_dsts t))\<rparr>)"

definition track_beacon :: "sensor \<Rightarrow> u32 \<Rightarrow> u32 \<Rightarrow> u16 \<Rightarrow> real \<Rightarrow> reassembler \<Rightarrow> reassembler" where
  "track_beacon se s d p now r =
     (if private_range d then r
      else (let key = key_of se [h32 (se_hash se) s, h32 (se_hash se) d, h64 (se_hash se) (ucast p)];
                bt = (case map_of (beacon_trackers r) key of None \<Rightarrow> new_beacon | Some b \<Rightarrow> b);
                bt = (if syn_timestamps bt = [] then bt\<lparr>bt_src := s, bt_dst := d, bt_dport := p\<rparr> else bt)
            in r\<lparr>beacon_trackers := al_put key (bt\<lparr>syn_timestamps := syn_timestamps bt @ [now]\<rparr>) (beacon_trackers r)\<rparr>))"

definition intel_type :: "string \<Rightarrow> string" where
  "intel_type t =
     (if t = ''BOTNET'' then ''Botnet Communication''
      else if t = ''SCANNER'' then ''Vulnerability Scanning''
      else if t = ''SPAM'' then ''Spam Bot''
      else ''Malicious Source'')"

definition check_intel :: "sensor \<Rightarrow> u32 \<Rightarrow> u32 \<Rightarrow> u16 \<Rightarrow> reassembler \<Rightarrow> reassembler" where
  "check_intel se s d p r =
     (let ext = (if \<not> intel_private d then d else if \<not> intel_private s then s else 0) in
      if ext = 0 then r
      else (case intel_tag r ext of None \<Rightarrow> r
            | Some t \<Rightarrow> emit_alert se (pair_id s d p) (intel_type t)
                (dotted_quad ext @ '' flagged '' @ t @ '' by threat intel (IP2Location)'')
                (key_of se [h32 (se_hash se) s, h32 (se_hash se) d, h64 (se_hash se) 0xDDDD0001]) r))"

definition check_port_scan :: "sensor \<Rightarrow> u32 \<Rightarrow> u32 \<Rightarrow> u16 \<Rightarrow> source_tracker \<Rightarrow> reassembler \<Rightarrow> reassembler" where
  "check_port_scan se s d p t r =
     (if 50 \<le> length (dst_ports t)
      then emit_alert se (pair_id s d p) ''Port Scan''
             (nat_to_string (length (dst_ports t)) @ '' unique ports scanned from single source'')
             (key_of se [h32 (se_hash se) s, h64 (se_hash se) 0xAAAA0001]) r
      else r)"

definition ssh_attempts :: "source_tracker \<Rightarrow> nat" where
  "ssh_attempts t = (case map_of (port_syn_counts t) (bswap16 22) of None \<Rightarrow> 0 | Some n \<Rightarrow> n)"

definition check_ssh_brute :: "sensor \<Rightarrow> u32 \<Rightarrow> u32 \<Rightarrow> u16 \<Rightarrow> source_tracker \<Rightarrow> reassembler \<Rightarrow> reassembler" where
  "check_ssh_brute se s d p t r =
     (if 30 \<le> ssh_attempts t
      then emit_alert se (pair_id s d p) ''SSH Brute Force''
             (nat_to_string (ssh_attempts t) @ '' SSH connection attempts from single source'')
             (key_of se [h32 (se_hash se) s, h64 (se_hash se) 0xAAAA0002]) r
      else r)"

definition check_worm_port :: "sensor \<Rightarrow> u32 \<Rightarrow> u32 \<Rightarrow> u16 \<Rightarrow> u16 \<times> u32 list \<Rightarrow> reassembler \<Rightarrow> reassembler" where
  "check_worm_port se s d p pe r =
     (case pe of (worm_port, ips) \<Rightarrow>
        (let hp = unat (bswap16 worm_port) in
         if hp = 80 \<or> hp = 443 \<or> hp = 8080 then r
         else if 100 \<le> length ips
         then emit_alert se (pair_id s d p) ''Worm Propagation Scan''
                (nat_to_string (length ips) @ '' unique hosts scanned on port '' @ nat_to_string hp @
                 '' from single source (worm behavior)'')
                (key_of se [h32 (se_hash se) s, h64 (se_hash se) (ucast worm_port), h64 (se_hash se) 0xAAAA0004]) r
         else r))"

definition syn_rate :: "real \<Rightarrow> source_tracker \<Rightarrow> real" where
  "syn_rate now t =
     (let elapsed = now - first_syn_time t
      in if 0 < elapsed then real (total_syns t) / elapsed else real (total_syns t))"

definition check_flood :: "sensor \<Rightarrow> u32 \<Rightarrow> u32 \<Rightarrow> u16 \<Rightarrow> real \<Rightarrow> source_tracker \<Rightarrow> reassembler \<Rightarrow> reassembler" where
  "check_flood se s d p now t r =
     (if 5000 \<le> total_syns t \<and> 10 < syn_rate now t
      then emit_alert se (pair_id s d p) ''DDoS''
             (nat_to_string (total_syns t) @ '' SYN packets from single source at '' @
              int_to_string (truncate_int (syn_rate now t)) @ '' SYN/sec (SYN flood)'')
             (key_of se [h32 (se_hash se) s, h64 (se_hash se) 0xAAAA0003]) r
      else r)"

text \<open>The bookkeeping half, up to the recording of the SYN, and the half that compares thresholds.\<close>

definition note_source :: "sensor \<Rightarrow> u32 \<Rightarrow> u32 \<Rightarrow> u16 \<Rightarrow> bool \<Rightarrow> real \<Rightarrow> byte \<Rightarrow> reassembler \<Rightarrow> reassembler" where
  "note_source se s d p is_syn now ttl r =
     (let r = put_tracker s (tracker_of s r) r;
          r = check_spoofing se s d p ttl r
      in if is_syn then track_beacon se s d p now (put_tracker s (track_syn d p now (tracker_of s r)) r) else r)"

definition check_thresholds :: "sensor \<Rightarrow> u32 \<Rightarrow> u32 \<Rightarrow> u16 \<Rightarrow> real \<Rightarrow> reassembler \<Rightarrow> reassembler" where
  "check_thresholds se s d p now r =
     (let t = tracker_of s r;
          r = check_intel se s d p r;
          r = check_port_scan se s d p t r;
          r = check_ssh_brute se s d p t r;
          r = fold (check_worm_port se s d p) (port_dst_ips t) r
      in check_flood se s d p now t r)"

definition check_connection_anomalies ::
    "sensor \<Rightarrow> u32 \<Rightarrow> u32 \<Rightarrow> u16 \<Rightarrow> bool \<Rightarrow> real \<Rightarrow> byte \<Rightarrow> reassembler \<Rightarrow> reassembler" where
  "check_connection_anomalies se s d p is_syn now ttl r =
     check_thresholds se s d p now (note_source se s d p is_syn now ttl r)"

section \<open>Detectors at the end of a capture\<close>

definition is_c2_port :: "nat \<Rightarrow> bool" where
  "is_c2_port hp = (hp \<in> {8043, 8443, 4443, 8080, 9090, 1443})"

fun intervals :: "real list \<Rightarrow> real list" where
  "intervals (a # b # ts) = (b - a) # intervals (b # ts)"
| "intervals _ = []"

definition mean_of :: "real list \<Rightarrow> real" where
  "mean_of xs = sum_list xs / real (length xs)"

definition deviation :: "real list \<Rightarrow> real" where
  "deviation xs = sqrt (sum_list (map (\<lambda>x. (x - mean_of xs) * (x - mean_of xs)) xs) / real (length xs))"

definition variation :: "real list \<Rightarrow> real" where
  "variation xs = (if 0 < mean_of xs then deviation xs / mean_of xs else 999)"

text \<open>The decision for one tracker: the timing gates and the suppression of plain web polling.\<close>

definition is_beacon :: "reassembler \<Rightarrow> beacon_tracker \<Rightarrow> bool" where
  "is_beacon r bt =
     (let ts = syn_timestamps bt; iv = intervals ts; hp = unat (bswap16 (bt_dport bt));
          web = (hp = 80 \<or> hp = 443 \<or> hp = 8080)
      in if length ts < 8 then False
         else if mean_of iv < 15 \<or> 7200 < mean_of iv then False
         else if (if web then 35 / 100 else 50 / 100) < variation iv \<and>
                 \<not> (\<not> web \<and> 50 \<le> length ts \<and> variation iv < 15 / 10) then False
         else if (hp = 80 \<or> hp = 443) \<and> intel_tag r (bt_dst bt) = None then False
         else True)"

definition beacon_severity :: "nat \<Rightarrow> severity_info" where
  "beacon_severity hp =
     (if is_c2_port hp then severity_for_threat ''C2 Beaconing'' else \<lparr>level = High, cvss = 87 / 10\<rparr>)"

definition beacon_snippet :: "beacon_tracker \<Rightarrow> string" where
  "beacon_snippet bt =
     (let ts = syn_timestamps bt; iv = intervals ts; hp = unat (bswap16 (bt_dport bt))
      in ''C2 beaconing to '' @ dotted_quad (bt_dst bt) @ '':'' @ nat_to_string hp @ '' '' @ em_dash @ '' '' @
         nat_to_string (length ts) @ '' connections at ~'' @ int_to_string (truncate_int (mean_of iv)) @
         ''s intervals (CV='' @ take 4 (fmt_fixed 6 (variation iv)) @ '') over '' @
         int_to_string (truncate_int ((last ts - hd ts) / 3600)) @ ''h'' @
         (if is_c2_port hp then '' [port '' @ nat_to_string hp @ '' = known C2 framework]'' else []))"

definition check_beacon :: "sensor \<Rightarrow> u64 \<times> beacon_tracker \<Rightarrow> reassembler \<Rightarrow> reassembler" where
  "check_beacon se kb r =
     (case kb of (key, bt) \<Rightarrow>
        if \<not> is_beacon r bt then r
        else (let dedup = hash_combine key (h64 (se_hash se) 0xBBBB0001) in
          if dedup \<in> set (alerted_anomalies r) then r
          else (let r = r\<lparr>alerted_anomalies := dedup # alerted_anomalies r\<rparr> in
            if \<not> se_callback se then r
            else r\<lparr>alerts_out := alerts_out r @
                     [anomaly_alert (pair_id (bt_src bt) (bt_dst bt) (bt_dport bt)) ''C2 Beaconing''
                        (beacon_severity (unat (bswap16 (bt_dport bt)))) (beacon_snippet bt)]\<rparr>)))"

definition check_beaconing_at_flush :: "sensor \<Rightarrow> reassembler \<Rightarrow> reassembler" where
  "check_beaconing_at_flush se r = fold (check_beacon se) (beacon_trackers r) r"

definition mail_dsts :: "source_tracker \<Rightarrow> u32 list" where
  "mail_dsts t =
     fold (\<lambda>p ds. case map_of (port_dst_ips t) (bswap16 p) of None \<Rightarrow> ds | Some ips \<Rightarrow> fold List.insert ips ds)
       [25, 465, 587] []"

definition check_mailer :: "u32 \<times> source_tracker \<Rightarrow> reassembler \<Rightarrow> reassembler" where
  "check_mailer st r =
     (case st of (s, t) \<Rightarrow>
        if length (mail_dsts t) < 30 then r
        else r\<lparr>alerts_out := alerts_out r @
               map (\<lambda>d. anomaly_alert (pair_id s d 0) ''Botnet Host'' (severity_for_threat ''Botnet Host'')
                      (''Confirmed spam bot ('' @ nat_to_string (length (mail_dsts t)) @ '' distinct mail servers) '' @
                       em_dash @ '' crediting full external footprint of '' @ nat_to_string (length (ext_dsts t)) @
                       '' destinations''))
                 (ext_dsts t)\<rparr>)"

definition check_mass_mailing_at_flush :: "sensor \<Rightarrow> reassembler \<Rightarrow> reassembler" where
  "check_mass_mailing_at_flush se r =
     (if \<not> se_callback se then r else fold check_mailer (source_trackers r) r)"

section \<open>What the detectors leave alone\<close>

text \<open>The part of the state the flow paths own.\<close>

definition same_flows :: "reassembler \<Rightarrow> reassembler \<Rightarrow> bool" where
  "same_flows r r' =
     (connections r' = connections r \<and> flows_out r' = flows_out r \<and> allowlist_ips r' = allowlist_ips r \<and>
      shed_count r' = shed_count r \<and> set (blocked_ips r) \<subseteq> set (blocked_ips r') \<and> (blocks_ok r \<longrightarrow> blocks_ok r'))"

lemma same_flows_refl [simp]: "same_flows r r"
  by (simp add: same_flows_def)

lemma same_flows_trans: "same_flows a b \<Longrightarrow> same_flows b c \<Longrightarrow> same_flows a c"
  by (auto simp: same_flows_def)

text \<open>The contract of a detector: whatever it looks at, it leaves the flow paths alone.\<close>

locale detector =
  fixes detect :: "'x \<Rightarrow> reassembler \<Rightarrow> reassembler"
  assumes frame: "same_flows r (detect x r)"
begin

lemma frame_fold: "same_flows r (fold detect xs r)"
  by (induction xs arbitrary: r) (auto intro: same_flows_trans[OF frame])

lemma frame_after: "same_flows r r' \<Longrightarrow> same_flows r (detect x r')"
  by (rule same_flows_trans[OF _ frame])

lemma frame_fold_after: "same_flows r r' \<Longrightarrow> same_flows r (fold detect xs r')"
  by (rule same_flows_trans[OF _ frame_fold])

end

lemma same_flows_emit [simp]: "same_flows r (emit_alert se cid t s k r)"
  by (simp add: same_flows_def emit_alert_blocks_ok emit_alert_grows)

lemma same_flows_put_tracker [simp]: "same_flows r (put_tracker ip t r)"
  by (simp add: same_flows_def put_tracker_def blocks_ok_def)

lemma same_flows_spoofing: "same_flows r (check_spoofing se s d p ttl r)"
  by (auto simp: check_spoofing_def Let_def intro: same_flows_trans[OF same_flows_emit same_flows_put_tracker])

lemma same_flows_track_beacon: "same_flows r (track_beacon se s d p now r)"
  by (simp add: track_beacon_def same_flows_def Let_def blocks_ok_def)

lemma same_flows_intel: "same_flows r (check_intel se s d p r)"
  by (simp add: check_intel_def Let_def split: option.split)

lemma same_flows_port_scan: "same_flows r (check_port_scan se s d p t r)"
  by (simp add: check_port_scan_def)

lemma same_flows_ssh: "same_flows r (check_ssh_brute se s d p t r)"
  by (simp add: check_ssh_brute_def)

interpretation worm: detector "check_worm_port se s d p" for se s d p
  by unfold_locales (simp add: check_worm_port_def Let_def split: prod.split)

lemma same_flows_flood: "same_flows r (check_flood se s d p now t r)"
  by (simp add: check_flood_def)

lemma same_flows_note: "same_flows r (note_source se s d p is_syn now ttl r)"
proof -
  let ?r = "check_spoofing se s d p ttl (put_tracker s (tracker_of s r) r)"
  have a: "same_flows r ?r" by (rule same_flows_trans[OF same_flows_put_tracker same_flows_spoofing])
  have "same_flows r (track_beacon se s d p now (put_tracker s t ?r))" for t
    by (rule same_flows_trans[OF a same_flows_trans[OF same_flows_put_tracker same_flows_track_beacon]])
  with a show ?thesis by (simp add: note_source_def Let_def)
qed

lemma same_flows_thresholds: "same_flows r (check_thresholds se s d p now r)"
  unfolding check_thresholds_def Let_def
  by (intro same_flows_trans[OF _ same_flows_flood] worm.frame_fold_after
      same_flows_trans[OF _ same_flows_ssh] same_flows_trans[OF _ same_flows_port_scan] same_flows_intel)

lemma same_flows_anomalies: "same_flows r (check_connection_anomalies se s d p is_syn now ttl r)"
  unfolding check_connection_anomalies_def by (rule same_flows_trans[OF same_flows_note same_flows_thresholds])

interpretation beacon: detector "check_beacon se" for se
  by unfold_locales (auto simp: check_beacon_def Let_def same_flows_def blocks_ok_def split: prod.split)

interpretation mailer: detector check_mailer
  by unfold_locales (auto simp: check_mailer_def same_flows_def blocks_ok_def split: prod.split)

lemma same_flows_beaconing: "same_flows r (check_beaconing_at_flush se r)"
  unfolding check_beaconing_at_flush_def by (rule beacon.frame_fold)

lemma same_flows_mailing: "same_flows r (check_mass_mailing_at_flush se r)"
  by (simp add: check_mass_mailing_at_flush_def mailer.frame_fold)


section \<open>Deduplication of the packet detectors\<close>

text \<open>Every alert has used up a key: no key alerts twice.\<close>

definition alerts_counted :: "reassembler \<Rightarrow> bool" where
  "alerts_counted r = (distinct (alerted_anomalies r) \<and> length (alerts_out r) \<le> length (alerted_anomalies r))"

definition keeps_alerts :: "reassembler \<Rightarrow> reassembler \<Rightarrow> bool" where
  "keeps_alerts r r' =
     ((alerts_counted r \<longrightarrow> alerts_counted r') \<and> set (alerted_anomalies r) \<subseteq> set (alerted_anomalies r'))"

lemma keeps_alerts_refl [simp]: "keeps_alerts r r"
  by (simp add: keeps_alerts_def)

lemma keeps_alerts_trans: "keeps_alerts a b \<Longrightarrow> keeps_alerts b c \<Longrightarrow> keeps_alerts a c"
  by (auto simp: keeps_alerts_def)

lemma keeps_alerts_emit [simp]: "keeps_alerts r (emit_alert se cid t s k r)"
  by (auto simp: keeps_alerts_def emit_alert_def alerts_counted_def Let_def)

lemma keeps_alerts_put [simp]: "keeps_alerts r (put_tracker ip t r)"
  by (simp add: keeps_alerts_def put_tracker_def alerts_counted_def)

text \<open>The contract of the detectors that deduplicate.\<close>

locale deduplicating = detector +
  assumes counted: "keeps_alerts r (detect x r)"
begin

lemma counted_fold: "keeps_alerts r (fold detect xs r)"
  by (induction xs arbitrary: r) (auto intro: keeps_alerts_trans[OF counted])

end

interpretation worm: deduplicating "check_worm_port se s d p" for se s d p
  by unfold_locales (simp add: check_worm_port_def Let_def split: prod.split)

interpretation beacon: deduplicating "check_beacon se" for se
  by unfold_locales (auto simp: check_beacon_def Let_def keeps_alerts_def alerts_counted_def split: prod.split)

lemma keeps_alerts_flood: "keeps_alerts r (check_flood se s d p now t r)"
  by (simp add: check_flood_def)

lemma keeps_alerts_spoofing: "keeps_alerts r (check_spoofing se s d p ttl r)"
  by (auto simp: check_spoofing_def Let_def intro: keeps_alerts_trans[OF keeps_alerts_emit keeps_alerts_put])

lemma keeps_alerts_beacon: "keeps_alerts r (track_beacon se s d p now r)"
  by (simp add: track_beacon_def keeps_alerts_def alerts_counted_def Let_def)

lemma keeps_alerts_note: "keeps_alerts r (note_source se s d p is_syn now ttl r)"
proof -
  let ?r = "check_spoofing se s d p ttl (put_tracker s (tracker_of s r) r)"
  have a: "keeps_alerts r ?r" by (rule keeps_alerts_trans[OF keeps_alerts_put keeps_alerts_spoofing])
  have "keeps_alerts r (track_beacon se s d p now (put_tracker s t ?r))" for t
    by (rule keeps_alerts_trans[OF a keeps_alerts_trans[OF keeps_alerts_put keeps_alerts_beacon]])
  with a show ?thesis by (simp add: note_source_def Let_def)
qed

lemma keeps_alerts_thresholds:
  "keeps_alerts r (check_thresholds se s d p now r) \<and>
   (30 \<le> ssh_attempts (tracker_of s r) \<longrightarrow>
      key_of se [h32 (se_hash se) s, h64 (se_hash se) 0xAAAA0002] \<in> set (alerted_anomalies (check_thresholds se s d p now r)))"
proof -
  let ?t = "tracker_of s r" and ?k = "key_of se [h32 (se_hash se) s, h64 (se_hash se) 0xAAAA0002]"
  let ?r1 = "check_port_scan se s d p ?t (check_intel se s d p r)"
  let ?r2 = "check_ssh_brute se s d p ?t ?r1"
  let ?r3 = "check_flood se s d p now ?t (fold (check_worm_port se s d p) (port_dst_ips ?t) ?r2)"
  have "keeps_alerts r ?r1"
    by (rule keeps_alerts_trans[of _ "check_intel se s d p r"])
       (simp_all add: check_intel_def check_port_scan_def Let_def split: option.split)
  moreover have "keeps_alerts ?r1 ?r2" by (simp add: check_ssh_brute_def)
  moreover have k3: "keeps_alerts ?r2 ?r3"
    by (rule keeps_alerts_trans[OF worm.counted_fold keeps_alerts_flood])
  moreover have "?k \<in> set (alerted_anomalies ?r2)" if "30 \<le> ssh_attempts ?t"
    using that by (simp add: check_ssh_brute_def emit_alert_key)
  ultimately show ?thesis unfolding check_thresholds_def Let_def
    by (meson keeps_alerts_def keeps_alerts_trans subsetD)
qed

section \<open>The trackers count what was sent\<close>

text \<open>A packet as the detectors see it.\<close>

record observed =
  ob_src :: u32
  ob_dst :: u32
  ob_port :: u16
  ob_syn :: bool
  ob_time :: real
  ob_ttl :: byte

definition observe_packets :: "sensor \<Rightarrow> observed list \<Rightarrow> reassembler \<Rightarrow> reassembler" where
  "observe_packets se obs r =
     fold (\<lambda>ob. check_connection_anomalies se (ob_src ob) (ob_dst ob) (ob_port ob) (ob_syn ob) (ob_time ob) (ob_ttl ob)) obs r"

definition syns_of :: "u32 \<Rightarrow> observed list \<Rightarrow> observed list" where
  "syns_of s obs = filter (\<lambda>ob. ob_src ob = s \<and> ob_syn ob) obs"

definition low_port :: "u16 \<Rightarrow> bool" where
  "low_port p = (unat (bswap16 p) < 1024)"

text \<open>What a tracker has to say after the SYNs \<open>ss\<close> of its source.\<close>

definition tracks :: "observed list \<Rightarrow> source_tracker \<Rightarrow> bool" where
  "tracks ss t =
     (total_syns t = length ss \<and>
      distinct (dst_ports t) \<and> set (dst_ports t) = {p \<in> ob_port ` set ss. low_port p} \<and>
      (\<forall>p. (case map_of (port_syn_counts t) p of None \<Rightarrow> 0 | Some n \<Rightarrow> n) = length (filter (\<lambda>ob. ob_port ob = p) ss)) \<and>
      (\<forall>p. let ds = (case map_of (port_dst_ips t) p of None \<Rightarrow> [] | Some ds \<Rightarrow> ds) in
         distinct ds \<and> set ds = {d. low_port p \<and> (\<exists>ob \<in> set ss. ob_port ob = p \<and> ob_dst ob = d)}) \<and>
      distinct (ext_dsts t) \<and> set (ext_dsts t) = {d \<in> ob_dst ` set ss. \<not> private_range d} \<and>
      (ss \<noteq> [] \<longrightarrow> first_syn_time t = ob_time (hd ss)))"

lemma tracks_ttl: "tracks ss (t\<lparr>initial_ttl := x\<rparr>) = tracks ss t"
  by (simp add: tracks_def)

lemma tracks_new: "tracks [] new_tracker"
  by (simp add: tracks_def new_tracker_def)

lemma tracks_syn:
  assumes "tracks ss t" and "ob_dst ob = d" and "ob_port ob = p" and "ob_time ob = now"
  shows "tracks (ss @ [ob]) (track_syn d p now t)"
proof -
  let ?t = "track_syn d p now t"
  have "total_syns ?t = length (ss @ [ob])" using assms by (simp add: tracks_def track_syn_def Let_def)
  moreover have "distinct (dst_ports ?t) \<and> set (dst_ports ?t) = {p \<in> ob_port ` set (ss @ [ob]). low_port p}"
    using assms by (auto simp: tracks_def track_syn_def Let_def low_port_def)
  moreover have "(case map_of (port_syn_counts ?t) q of None \<Rightarrow> 0 | Some n \<Rightarrow> n) =
      length (filter (\<lambda>ob. ob_port ob = q) (ss @ [ob]))" for q
    using assms by (simp add: tracks_def track_syn_def Let_def count_port_def)
  moreover have "let ds = (case map_of (port_dst_ips ?t) q of None \<Rightarrow> [] | Some ds \<Rightarrow> ds) in
      distinct ds \<and> set ds = {d. low_port q \<and> (\<exists>ob \<in> set (ss @ [ob]). ob_port ob = q \<and> ob_dst ob = d)}" for q
  proof -
    let ?ds = "\<lambda>q. case map_of (port_dst_ips t) q of None \<Rightarrow> [] | Some ds \<Rightarrow> ds"
    have old: "distinct (?ds q)" "set (?ds q) = {d. low_port q \<and> (\<exists>ob \<in> set ss. ob_port ob = q \<and> ob_dst ob = d)}" for q
      using assms(1) unfolding tracks_def Let_def by blast+
    have "(case map_of (port_dst_ips ?t) q of None \<Rightarrow> [] | Some ds \<Rightarrow> ds) =
        (if q = p \<and> low_port p then List.insert d (?ds p) else ?ds q)"
      by (simp add: track_syn_def Let_def add_port_dst_def low_port_def)
    with old[of q] old[of p] assms(2,3) show ?thesis by (auto simp: Let_def)
  qed
  moreover have "distinct (ext_dsts ?t) \<and> set (ext_dsts ?t) = {d \<in> ob_dst ` set (ss @ [ob]). \<not> private_range d}"
    using assms by (auto simp: tracks_def track_syn_def Let_def)
  moreover have "first_syn_time ?t = ob_time (hd (ss @ [ob]))"
    using assms by (cases ss) (auto simp: tracks_def track_syn_def Let_def)
  ultimately show ?thesis by (simp add: tracks_def)
qed

lemma tracker_of_put [simp]: "tracker_of x (put_tracker s t r) = (if x = s then t else tracker_of x r)"
  by (simp add: tracker_of_def put_tracker_def)

lemma tracker_of_emit [simp]: "tracker_of x (emit_alert se cid t s k r) = tracker_of x r"
  by (simp add: tracker_of_def)

lemma tracker_of_beacon [simp]: "tracker_of x (track_beacon se s d p now r) = tracker_of x r"
  by (simp add: tracker_of_def track_beacon_def Let_def)

lemma tracker_of_fold: "(\<And>y r. tracker_of x (f y r) = tracker_of x r) \<Longrightarrow> tracker_of x (fold f ys r) = tracker_of x r"
  by (induction ys arbitrary: r) auto

lemma tracker_of_thresholds [simp]: "tracker_of x (check_thresholds se s d p now r) = tracker_of x r"
proof -
  have "tracker_of x (check_worm_port se s d p e r) = tracker_of x r" for e r
    by (simp add: check_worm_port_def Let_def split: prod.split)
  then show ?thesis
    by (simp add: check_thresholds_def Let_def check_flood_def check_ssh_brute_def check_port_scan_def check_intel_def
        tracker_of_fold split: option.split)
qed

lemma tracker_of_spoofing:
  "\<exists>ttl'. tracker_of x (check_spoofing se s d p ttl r) = (tracker_of x r)\<lparr>initial_ttl := ttl'\<rparr>"
proof -
  have e: "\<exists>ttl'. t = t\<lparr>initial_ttl := ttl'\<rparr>" for t :: source_tracker
    by (rule exI[of _ "initial_ttl t"]) simp
  have u: "\<exists>ttl'. t\<lparr>initial_ttl := a\<rparr> = t\<lparr>initial_ttl := ttl'\<rparr>" for t :: source_tracker and a by blast
  show ?thesis by (simp add: check_spoofing_def Let_def e u)
qed

lemma tracks_step:
  assumes "tracks (syns_of x obs) (tracker_of x r)"
  shows "tracks (syns_of x (obs @ [ob])) (tracker_of x (check_connection_anomalies se (ob_src ob) (ob_dst ob) (ob_port ob)
    (ob_syn ob) (ob_time ob) (ob_ttl ob) r))"
proof -
  let ?r = "check_spoofing se (ob_src ob) (ob_dst ob) (ob_port ob) (ob_ttl ob) (put_tracker (ob_src ob) (tracker_of (ob_src ob) r) r)"
  have sp: "tracks (syns_of x obs) (tracker_of x ?r)"
    using tracker_of_spoofing[of x se "ob_src ob" "ob_dst ob" "ob_port ob" "ob_ttl ob"
        "put_tracker (ob_src ob) (tracker_of (ob_src ob) r) r"] assms
    by (auto simp: tracks_ttl split: if_splits)
  show ?thesis
  proof (cases "ob_syn ob \<and> ob_src ob = x")
    case True
    with tracks_syn[OF sp, of ob] show ?thesis
      by (simp add: check_connection_anomalies_def note_source_def Let_def syns_of_def)
  next
    case False
    with sp show ?thesis
      by (auto simp: check_connection_anomalies_def note_source_def Let_def syns_of_def)
  qed
qed

lemma tracks_observe: "tracks (syns_of x obs) (tracker_of x (observe_packets se obs initial_reassembler))"
proof (induction obs rule: rev_induct)
  case Nil
  show ?case by (simp add: observe_packets_def syns_of_def tracker_of_def initial_reassembler_def tracks_new)
next
  case (snoc ob obs)
  from tracks_step[OF this] show ?case by (simp add: observe_packets_def)
qed


lemma keeps_alerts_anomalies: "keeps_alerts r (check_connection_anomalies se s d p is_syn now ttl r)"
  unfolding check_connection_anomalies_def
  by (rule keeps_alerts_trans[OF keeps_alerts_note]) (use keeps_alerts_thresholds in blast)

interpretation observed: deduplicating
  "\<lambda>ob. check_connection_anomalies se (ob_src ob) (ob_dst ob) (ob_port ob) (ob_syn ob) (ob_time ob) (ob_ttl ob)" for se
  by unfold_locales (rule same_flows_anomalies, rule keeps_alerts_anomalies)

lemma keeps_alerts_observe: "keeps_alerts r (observe_packets se obs r)"
  unfolding observe_packets_def by (rule observed.counted_fold)

definition ssh_syns :: "u32 \<Rightarrow> observed list \<Rightarrow> nat" where
  "ssh_syns s obs = length (filter (\<lambda>ob. ob_port ob = bswap16 22) (syns_of s obs))"

lemma tracks_ssh: "tracks ss t \<Longrightarrow> ssh_attempts t = length (filter (\<lambda>ob. ob_port ob = bswap16 22) ss)"
  by (simp add: tracks_def ssh_attempts_def)

lemma ssh_key_alerted:
  "30 \<le> ssh_syns s obs \<Longrightarrow>
   key_of se [h32 (se_hash se) s, h64 (se_hash se) 0xAAAA0002] \<in> set (alerted_anomalies (observe_packets se obs initial_reassembler))"
proof (induction obs rule: rev_induct)
  case Nil
  then show ?case by (simp add: ssh_syns_def syns_of_def)
next
  case (snoc ob obs)
  let ?r = "observe_packets se obs initial_reassembler" and ?k = "key_of se [h32 (se_hash se) s, h64 (se_hash se) 0xAAAA0002]"
  let ?n = "note_source se (ob_src ob) (ob_dst ob) (ob_port ob) (ob_syn ob) (ob_time ob) (ob_ttl ob) ?r"
  let ?r' = "check_thresholds se (ob_src ob) (ob_dst ob) (ob_port ob) (ob_time ob) ?n"
  have r': "observe_packets se (obs @ [ob]) initial_reassembler = ?r'"
    by (simp add: observe_packets_def check_connection_anomalies_def)
  show ?case
  proof (cases "ob_src ob = s")
    case True
    have "tracker_of s ?n = tracker_of s ?r'" by simp
    then have "ssh_attempts (tracker_of s ?n) = ssh_syns s (obs @ [ob])"
      using tracks_ssh[OF tracks_observe[of s "obs @ [ob]" se]] unfolding r' ssh_syns_def by simp
    with snoc.prems True keeps_alerts_thresholds[where r = ?n and se = se and s = s and d = "ob_dst ob"
        and p = "ob_port ob" and now = "ob_time ob"] show ?thesis unfolding r' by simp
  next
    case False
    then have "ssh_syns s (obs @ [ob]) = ssh_syns s obs" by (simp add: ssh_syns_def syns_of_def)
    then have "?k \<in> set (alerted_anomalies ?r)" using snoc by simp
    moreover have "keeps_alerts ?r ?r'"
      by (rule keeps_alerts_trans[OF keeps_alerts_note]) (use keeps_alerts_thresholds in blast)
    ultimately show ?thesis unfolding r' keeps_alerts_def by blast
  qed
qed

section \<open>Regular beacons\<close>

definition periodic :: "real \<Rightarrow> real \<Rightarrow> nat \<Rightarrow> real list" where
  "periodic t0 T n = map (\<lambda>i. t0 + real i * T) [0..<n]"

lemma intervals_map: "intervals (map f [m..<m + Suc n]) = map (\<lambda>i. f (Suc i) - f i) [m..<m + n]"
proof (induction n arbitrary: m)
  case (Suc n)
  have "[m..<m + Suc (Suc n)] = m # [Suc m..<Suc m + Suc n]" "[m..<m + Suc n] = m # [Suc m..<Suc m + n]"
    by (simp_all add: upt_conv_Cons)
  moreover have "[Suc m..<Suc m + Suc n] = Suc m # [Suc (Suc m)..<Suc m + Suc n]" by (simp add: upt_conv_Cons)
  ultimately show ?case using Suc[of "Suc m"] by simp
qed simp

lemma intervals_periodic: "intervals (periodic t0 T n) = replicate (n - 1) T"
proof (cases n)
  case (Suc m)
  have "intervals (periodic t0 T n) = map (\<lambda>i. t0 + real (Suc i) * T - (t0 + real i * T)) [0..<m]"
    using intervals_map[of "\<lambda>i. t0 + real i * T" 0 m] by (simp add: periodic_def Suc)
  also have "\<dots> = map (\<lambda>i. T) [0..<m]" by (rule map_cong) (simp_all add: algebra_simps)
  finally show ?thesis by (simp add: Suc map_replicate_const)
qed (simp add: periodic_def)

lemma mean_replicate: "0 < n \<Longrightarrow> mean_of (replicate n x) = x"
  by (simp add: mean_of_def sum_list_replicate)

lemma variation_replicate: "0 < n \<Longrightarrow> 0 < x \<Longrightarrow> variation (replicate n x) = 0"
  by (simp add: variation_def deviation_def mean_replicate sum_list_replicate)

section \<open>Properties\<close>

text \<open>
  C17: after any sequence of packets the tracker of every source holds exactly what that source sent: the
  number of its SYNs, the set of low destination ports, the SYNs per port, the hosts contacted on each low
  port and the external hosts, whatever the other sources and the alerts did.
\<close>
theorem trackers_count_syns:
  "tracks (syns_of s obs) (tracker_of s (observe_packets se obs initial_reassembler)) \<and>
   total_syns (tracker_of s (observe_packets se obs initial_reassembler)) = length (syns_of s obs) \<and>
   length (dst_ports (tracker_of s (observe_packets se obs initial_reassembler))) =
     card {p \<in> ob_port ` set (syns_of s obs). low_port p} \<and>
   ssh_attempts (tracker_of s (observe_packets se obs initial_reassembler)) = ssh_syns s obs"
proof -
  have t: "tracks (syns_of s obs) (tracker_of s (observe_packets se obs initial_reassembler))" by (rule tracks_observe)
  then have "distinct (dst_ports (tracker_of s (observe_packets se obs initial_reassembler)))"
    "set (dst_ports (tracker_of s (observe_packets se obs initial_reassembler))) =
      {p \<in> ob_port ` set (syns_of s obs). low_port p}" by (simp_all add: tracks_def)
  then have "length (dst_ports (tracker_of s (observe_packets se obs initial_reassembler))) =
     card {p \<in> ob_port ` set (syns_of s obs). low_port p}" using distinct_card by metis
  with t tracks_ssh[OF t] show ?thesis by (simp add: tracks_def ssh_syns_def)
qed


definition ssh_probe :: observed where
  "ssh_probe = \<lparr>ob_src = 0x0100000A, ob_dst = 0x0200000A, ob_port = 0x1600, ob_syn = True, ob_time = 0, ob_ttl = 64\<rparr>"

definition trivial_hash :: std_hash where
  "trivial_hash = \<lparr>h16 = (\<lambda>v. ucast v), h32 = (\<lambda>v. ucast v), h64 = (\<lambda>v. v)\<rparr>"

definition trivial_sensor :: sensor where
  "trivial_sensor = \<lparr>se_cfg = default_config, se_hash = trivial_hash, se_callback = True\<rparr>"


text \<open>
  a host contacted at least eight times at a constant interval between 15 seconds and two hours is
  reported as beaconing on every port but 80 and 443, and on those exactly if the threat database flags it.
\<close>
theorem periodic_beacon_detected:
  assumes "syn_timestamps bt = periodic t0 T n" and "8 \<le> n" and "15 \<le> T" and "T \<le> 7200"
  shows "is_beacon r bt \<longleftrightarrow>
    (unat (bswap16 (bt_dport bt)) \<noteq> 80 \<and> unat (bswap16 (bt_dport bt)) \<noteq> 443 \<or> intel_tag r (bt_dst bt) \<noteq> None)"
proof -
  have "mean_of (replicate (n - 1) T) = T" "variation (replicate (n - 1) T) = 0"
    using assms by (simp_all add: mean_replicate variation_replicate)
  moreover have "length (periodic t0 T n) = n" by (simp add: periodic_def)
  ultimately show ?thesis using assms by (simp add: is_beacon_def Let_def intervals_periodic)
qed

theorem periodic_beacon_detected_witness:
  "is_beacon initial_reassembler \<lparr>syn_timestamps = periodic 5 60 9, bt_src = 1, bt_dst = 2, bt_dport = bswap16 4443\<rparr> \<and>
   \<not> is_beacon initial_reassembler \<lparr>syn_timestamps = periodic 5 60 9, bt_src = 1, bt_dst = 2, bt_dport = bswap16 443\<rparr>"
proof -
  have n: "intel_tag initial_reassembler 2 = None"
    by (simp add: intel_tag_def initial_reassembler_def new_proxy_db_def)
  show ?thesis
    using periodic_beacon_detected[of "\<lparr>syn_timestamps = periodic 5 60 9, bt_src = 1, bt_dst = 2, bt_dport = bswap16 4443\<rparr>"
        5 60 9 initial_reassembler]
      periodic_beacon_detected[of "\<lparr>syn_timestamps = periodic 5 60 9, bt_src = 1, bt_dst = 2, bt_dport = bswap16 443\<rparr>"
        5 60 9 initial_reassembler] n by simp
qed

end
