(* ===== verification/Tcp_Reassembly.thy ===== *)
theory Tcp_Reassembly
  imports Anomaly_Detection
begin

text \<open>
  The flow paths of \<^verbatim>\<open>src/tcp_reassembly.cpp\<close>: the connection table with its size bound and
  evictions, the completion and the final flush of flows, the behavioral scoring, and the two capture
  loops.  What the capture library delivers is the input of the loops.  The lemmas show the invariant of
  the whole sensor, what is emitted when, and that inline blocking is exact.
\<close>

section \<open>Behavioral scoring\<close>

definition looks_like_bittorrent :: "bytes \<Rightarrow> bool" where
  "looks_like_bittorrent p =
     (if p = [] then False
      else (let head = text_of (take 128 p)
            in contains head ''BitTorrent protocol'' \<or> contains head ''info_hash='' \<or> contains head ''d1:ad2:id20:''))"

definition mix :: "sensor \<Rightarrow> u64 \<Rightarrow> u64 \<Rightarrow> u64" where
  "mix se v key = key XOR (h64 (se_hash se) v + 0x9e3779b97f4a7c15 + push_bit 6 key + drop_bit 2 key)"

definition beh_key :: "sensor \<Rightarrow> connection_id \<Rightarrow> u64" where
  "beh_key se cid = mix se (ucast (dst_port cid)) (mix se (ucast (dst_ip cid)) (mix se (ucast (src_ip cid)) 0))"

text \<open>The suppressors of live mode.\<close>

definition live_scored :: "reassembler \<Rightarrow> connection_id \<Rightarrow> bool" where
  "live_scored r cid =
     (if \<not> (intel_private (src_ip cid) \<and> \<not> intel_private (dst_ip cid)) then False
      else if dst_ip cid \<in> set (p2p_peers r) \<or> src_ip cid \<in> set (p2p_peers r) then False
      else (let dport = unat (bswap16 (dst_port cid))
            in if (dport = 80 \<or> dport = 443 \<or> dport = 53) \<and> intel_tag r (dst_ip cid) = None then False else True))"

definition record_and_score ::
    "sensor \<Rightarrow> connection_id \<Rightarrow> nat \<Rightarrow> real \<Rightarrow> real \<Rightarrow> reassembler \<Rightarrow> reassembler" where
  "record_and_score se cid bytes_total start dur r =
     (if \<not> behavioral_ready r \<and> \<not> beh_export r then r
      else if \<not> beh_export r \<and> \<not> is_forensic (se_cfg se) \<and> \<not> live_scored r cid then r
      else
        (let key = beh_key se cid;
             r = (if max_beh_conns < length (beh_conns r) then r\<lparr>beh_conns := []\<rparr> else r);
             bc = (case map_of (beh_conns r) key of None \<Rightarrow> new_beh_conn | Some b \<Rightarrow> b);
             bc = bc\<lparr>bc_src := src_ip cid, bc_dst := dst_ip cid, bc_dport := dst_port cid,
                     bc_flows := bc_flows bc @ [\<lparr>start_time = start, flow_duration = dur, tot_bytes = bytes_total\<rparr>]\<rparr>;
             r = r\<lparr>beh_conns := al_put key bc (beh_conns r)\<rparr>
         in if beh_export r then r
            else if length (bc_flows bc) < min_flows (beh_cfg r) then r
            else if key \<in> set (beh_alerted r) then r
            else
              (let s = encode_connection (bc_flows bc) (beh_cfg r) in
               if length s < 2 then r
               else if score (beh_botnet r) s - score (beh_normal r) s \<le> behavioral_threshold (se_cfg se) then r
               else r\<lparr>beh_alerted := key # beh_alerted r, beh_suspicious := List.insert key (beh_suspicious r)\<rparr>)))"

definition dump_behavioral_states :: "reassembler \<Rightarrow> string list" where
  "dump_behavioral_states r =
     ''src,dst,dport,state'' #
     concat (map (\<lambda>(k, bc).
       if length (bc_flows bc) < min_flows (beh_cfg r) then []
       else (let s = encode_connection (bc_flows bc) (beh_cfg r) in
             if length s < 2 then []
             else [dotted_quad (bc_src bc) @ '','' @ dotted_quad (bc_dst bc) @ '','' @
                   nat_to_string (unat (bswap16 (bc_dport bc))) @ '','' @ s]))
       (beh_conns r))"

section \<open>Flows\<close>

text \<open>The flow of a connection with the given payload; the statistics are those of all three paths.\<close>

definition flow_of :: "connection_id \<Rightarrow> conn_state \<Rightarrow> bytes \<Rightarrow> flow_data" where
  "flow_of cid st data =
     make_flow_data\<lparr>flow_id := cid, payload := data, timestamp := last_packet_time st, packet_count := packets st,
       inter_arrival_time := (if 1 < packets st then inter_arrival_sum st / real (packets st - 1) else 0),
       length_variance := real (length_sq_sum st) / real (packets st) -
         (real (length_sum st) / real (packets st)) * (real (length_sum st) / real (packets st))\<rparr>"

definition merged :: "conn_state \<Rightarrow> bytes" where
  "merged st = stream st @ concat (map snd (ooo st))"

definition note_p2p :: "connection_id \<Rightarrow> bytes \<Rightarrow> reassembler \<Rightarrow> reassembler" where
  "note_p2p cid data r =
     (if looks_like_bittorrent data
      then r\<lparr>p2p_peers := List.insert (dst_ip cid) (List.insert (src_ip cid) (p2p_peers r))\<rparr> else r)"

definition tagged :: "sensor \<Rightarrow> reassembler \<Rightarrow> flow_data \<Rightarrow> flow_data" where
  "tagged se r f =
     (if behavioral_ready r \<and> beh_key se (flow_id f) \<in> set (beh_suspicious r) then f\<lparr>behavioral_suspect := True\<rparr> else f)"

definition emit_flow :: "flow_data \<Rightarrow> reassembler \<Rightarrow> reassembler" where
  "emit_flow f r = r\<lparr>flows_out := flows_out r @ [f]\<rparr>"

definition score_conn :: "sensor \<Rightarrow> connection_id \<Rightarrow> conn_state \<Rightarrow> reassembler \<Rightarrow> reassembler" where
  "score_conn se cid st r =
     record_and_score se cid (length_sum st) (last_packet_time st) (inter_arrival_sum st) (note_p2p cid (merged st) r)"

definition finished_conn :: "sensor \<Rightarrow> conn_state \<Rightarrow> bool" where
  "finished_conn se st = (fin_received st \<or> max_flow_payload_bytes (se_cfg se) < length (stream st))"

definition complete_flow :: "sensor \<Rightarrow> connection_id \<times> conn_state \<Rightarrow> reassembler \<Rightarrow> reassembler" where
  "complete_flow se cs r =
     (case cs of (cid, st) \<Rightarrow>
        (let r = score_conn se cid st r in emit_flow (tagged se r (flow_of cid st (merged st))) r))"

definition check_complete_flows :: "sensor \<Rightarrow> reassembler \<Rightarrow> reassembler" where
  "check_complete_flows se r =
     (fold (complete_flow se) (filter (\<lambda>(cid, st). finished_conn se st) (connections r)) r)
       \<lparr>connections := filter (\<lambda>(cid, st). \<not> finished_conn se st) (connections r)\<rparr>"

definition flush_conn :: "sensor \<Rightarrow> connection_id \<times> conn_state \<Rightarrow> reassembler \<Rightarrow> reassembler" where
  "flush_conn se cs r =
     (case cs of (cid, st) \<Rightarrow>
        if stream st = [] \<and> packets st < 2 then r
        else emit_flow (flow_of cid st (merged st)) (score_conn se cid st r))"

definition flush_all_flows :: "sensor \<Rightarrow> reassembler \<Rightarrow> reassembler" where
  "flush_all_flows se r =
     (let r = check_beaconing_at_flush se r;
          r = check_mass_mailing_at_flush se r;
          r = check_complete_flows se r
      in (fold (flush_conn se) (connections r) r)\<lparr>connections := []\<rparr>)"

section \<open>Evictions\<close>

definition force_evict_oldest :: "real \<Rightarrow> reassembler \<Rightarrow> reassembler" where
  "force_evict_oldest now r =
     (if now - last_force_evict_time r < 1 then r
      else r\<lparr>last_force_evict_time := now,
             connections := filter (\<lambda>(cid, st). \<not> (stream st = [] \<and> 5 < now - last_packet_time st)) (connections r)\<rparr>)"

definition stale_conn :: "real \<Rightarrow> conn_state \<Rightarrow> bool" where
  "stale_conn now st = (120 < now - last_packet_time st)"

definition evict_stale_state :: "sensor \<Rightarrow> real \<Rightarrow> reassembler \<Rightarrow> reassembler" where
  "evict_stale_state se now r =
     (if now - last_eviction_time r < 60 then r
      else
        (let r = r\<lparr>last_eviction_time := now\<rparr>;
             stale = filter (\<lambda>(cid, st). stale_conn now st) (connections r);
             r = fold (\<lambda>(cid, st) r. if stream st \<noteq> [] then emit_flow (tagged se r (flow_of cid st (stream st))) r else r) stale r;
             r = r\<lparr>connections := filter (\<lambda>(cid, st). \<not> stale_conn now st) (connections r)\<rparr>;
             r = (if max_source_trackers < length (source_trackers r) then r\<lparr>source_trackers := []\<rparr> else r);
             r = (if max_beacon_trackers < length (beacon_trackers r)
                  then (let kept = filter (\<lambda>(k, bt). \<not> length (syn_timestamps bt) < 3) (beacon_trackers r)
                        in r\<lparr>beacon_trackers := (if max_beacon_trackers < length kept then [] else kept)\<rparr>)
                  else r)
         in if max_dedup_hashes < length (alerted_anomalies r) then r\<lparr>alerted_anomalies := []\<rparr> else r))"

section \<open>Packets\<close>

definition segment_id :: "segment \<Rightarrow> connection_id" where
  "segment_id sg = \<lparr>src_ip = sg_src sg, dst_ip = sg_dst sg, src_port = sg_sport sg, dst_port = sg_dport sg\<rparr>"

definition overlap_alert :: "sensor \<Rightarrow> connection_id \<Rightarrow> reassembler \<Rightarrow> reassembler" where
  "overlap_alert se cid r =
     emit_alert se cid ''TCP Evasion''
       ''Overlapping TCP segment with conflicting data (reassembly-ambiguity evasion attempt)''
       (key_of se [h32 (se_hash se) (src_ip cid), h32 (se_hash se) (dst_ip cid), h16 (se_hash se) (src_port cid),
          h16 (se_hash se) (dst_port cid), h64 (se_hash se) 0xEEEE0001]) r"

text \<open>Finding or making room for the connection; \<open>None\<close> when it is shed.\<close>

definition admit :: "real \<Rightarrow> connection_id \<Rightarrow> reassembler \<Rightarrow> reassembler \<times> conn_state option" where
  "admit now cid r =
     (case map_of (connections r) cid of
        Some st \<Rightarrow> (r, Some st)
      | None \<Rightarrow>
          if max_connections \<le> length (connections r) then
            (let r = force_evict_oldest now r in
             if max_connections \<le> length (connections r) then (r\<lparr>shed_count := shed_count r + 1\<rparr>, None)
             else (r, Some new_conn))
          else (r, Some new_conn))"

definition process_segment :: "sensor \<Rightarrow> real \<Rightarrow> segment \<Rightarrow> reassembler \<Rightarrow> reassembler" where
  "process_segment se now sg r =
     (let cid = segment_id sg;
          r = check_connection_anomalies se (sg_src sg) (sg_dst sg) (sg_dport sg) (sg_syn sg) now (sg_ttl sg) r
      in case admit now cid r of
           (r, None) \<Rightarrow> r
         | (r, Some st) \<Rightarrow>
             (case conn_step now sg st of
                (st', conflict) \<Rightarrow>
                  (let r = r\<lparr>connections := al_put cid st' (connections r)\<rparr>
                   in if conflict then overlap_alert se cid r else r)))"

definition note_udp :: "u32 \<Rightarrow> u32 \<Rightarrow> reassembler \<Rightarrow> reassembler" where
  "note_udp s d r =
     (if local_range d then r
      else put_tracker s ((tracker_of s r)\<lparr>ext_dsts := List.insert d (ext_dsts (tracker_of s r))\<rparr>) r)"

definition process_ip_packet :: "sensor \<Rightarrow> real \<Rightarrow> bytes \<Rightarrow> reassembler \<Rightarrow> u32 \<times> reassembler" where
  "process_ip_packet se now p r =
     (case parse_ip p of
        None \<Rightarrow> (0, r)
      | Some No_header \<Rightarrow> (0, r)
      | Some (Udp_packet s d) \<Rightarrow> (s, note_udp s d r)
      | Some (Ignored s) \<Rightarrow> (s, r)
      | Some (Tcp_packet sg) \<Rightarrow> (sg_src sg, process_segment se now sg r))"

definition process_packet :: "sensor \<Rightarrow> real \<Rightarrow> bytes \<Rightarrow> reassembler \<Rightarrow> reassembler" where
  "process_packet se now frame r =
     (case ethernet_payload frame of None \<Rightarrow> r | Some ip \<Rightarrow> snd (process_ip_packet se now ip r))"

section \<open>Capture loops\<close>

definition maintenance :: "sensor \<Rightarrow> reassembler \<Rightarrow> reassembler" where
  "maintenance se r =
     (let r = check_complete_flows se r
      in if connections r \<noteq> [] then evict_stale_state se (last_packet_time (snd (hd (connections r)))) r else r)"

text \<open>What one round of the tap loop sees: that \<open>running\<close> is no longer set, an error, a break, or the
  packets \<open>pcap_dispatch\<close> delivered, with their times.\<close>

datatype dispatch = Not_running | Dispatch_error | Dispatch_break | Batch "(real \<times> bytes) list"

fun run_pcap :: "sensor \<Rightarrow> dispatch list \<Rightarrow> reassembler \<Rightarrow> reassembler" where
  "run_pcap se [] r = r"
| "run_pcap se (Not_running # ds) r = r"
| "run_pcap se (Dispatch_error # ds) r = r"
| "run_pcap se (Dispatch_break # ds) r = r"
| "run_pcap se (Batch ps # ds) r =
     (let r = fold (\<lambda>(now, frame). process_packet se now frame) ps r in
      if ps = [] \<and> is_offline_capture (se_cfg se) then flush_all_flows se r
      else run_pcap se ds (maintenance se r))"

text \<open>The inline loop: every received packet is inspected and then sent on or dropped.\<close>

record divert_state =
  dv_sensor :: reassembler
  dv_sent :: "bytes list"
  dv_since :: nat

definition divert_step :: "sensor \<Rightarrow> real \<times> bytes \<Rightarrow> divert_state \<Rightarrow> divert_state" where
  "divert_step se pkt v =
     (case pkt of (now, p) \<Rightarrow>
        (let (src, r) = (if 20 \<le> length p then process_ip_packet se now p (dv_sensor v) else (0, dv_sensor v));
             drop_it = (inline_block (se_cfg se) \<and> src \<noteq> 0 \<and> is_blocked src r);
             r = (if drop_it then r\<lparr>blocked_packet_count := blocked_packet_count r + 1\<rparr> else r);
             sent = (if drop_it then dv_sent v else dv_sent v @ [p]);
             since = dv_since v + 1
         in if 256 \<le> since then \<lparr>dv_sensor = maintenance se r, dv_sent = sent, dv_since = 0\<rparr>
            else \<lparr>dv_sensor = r, dv_sent = sent, dv_since = since\<rparr>))"

definition run_windivert :: "sensor \<Rightarrow> (real \<times> bytes) list \<Rightarrow> reassembler \<Rightarrow> divert_state" where
  "run_windivert se pkts r = fold (divert_step se) pkts \<lparr>dv_sensor = r, dv_sent = [], dv_since = 0\<rparr>"

section \<open>What scoring and eviction leave alone\<close>

lemma record_and_score_same: "same_flows r (record_and_score se cid n t d r)"
  by (simp add: record_and_score_def same_flows_def blocks_ok_def Let_def)

lemma note_p2p_same: "same_flows r (note_p2p cid data r)"
  by (simp add: note_p2p_def same_flows_def blocks_ok_def)

interpretation scoring: detector "\<lambda>(cid, st). score_conn se cid st" for se
  by unfold_locales (auto simp: score_conn_def intro: same_flows_trans[OF note_p2p_same record_and_score_same])

text \<open>The relation of the paths that emit: the table is untouched until they replace it, flows are only
  appended.\<close>

definition emits :: "flow_data list \<Rightarrow> reassembler \<Rightarrow> reassembler \<Rightarrow> bool" where
  "emits fs r r' =
     (connections r' = connections r \<and>
      map (\<lambda>f. f\<lparr>behavioral_suspect := False\<rparr>) (flows_out r') = map (\<lambda>f. f\<lparr>behavioral_suspect := False\<rparr>) (flows_out r) @ fs \<and>
      allowlist_ips r' = allowlist_ips r \<and> shed_count r' = shed_count r \<and>
      set (blocked_ips r) \<subseteq> set (blocked_ips r') \<and> (blocks_ok r \<longrightarrow> blocks_ok r'))"

lemma emits_trans: "emits fs a b \<Longrightarrow> emits gs b c \<Longrightarrow> emits (fs @ gs) a c"
  by (auto simp: emits_def)

lemma emits_same: "same_flows r r' \<Longrightarrow> emits [] r r'"
  by (simp add: emits_def same_flows_def)

lemma emits_fold: "(\<And>x r. emits (g x) r (f x r)) \<Longrightarrow> emits (concat (map g xs)) r (fold f xs r)"
proof (induction xs arbitrary: r)
  case Nil
  show ?case by (simp add: emits_def)
next
  case (Cons x xs)
  from emits_trans[OF Cons.prems Cons.IH[OF Cons.prems]] show ?case by simp
qed

lemma flow_of_suspect [simp]: "(flow_of cid st d)\<lparr>behavioral_suspect := False\<rparr> = flow_of cid st d"
  by (simp add: flow_of_def make_flow_data_def)

lemma tagged_untag [simp]: "(tagged se r f)\<lparr>behavioral_suspect := False\<rparr> = f\<lparr>behavioral_suspect := False\<rparr>"
  by (simp add: tagged_def)

lemma emit_flow_emits: "emits [f\<lparr>behavioral_suspect := False\<rparr>] r (emit_flow f r)"
  by (simp add: emits_def emit_flow_def blocks_ok_def)

lemma emits_scored:
  "emits [flow_of cid st d] r (emit_flow (tagged se (score_conn se cid st r) (flow_of cid st d)) (score_conn se cid st r))"
  "emits [flow_of cid st d] r (emit_flow (flow_of cid st d) (score_conn se cid st r))"
proof -
  have sc: "emits [] r (score_conn se cid st r)" using emits_same[OF scoring.frame[of r se "(cid, st)"]] by simp
  from emits_trans[OF sc emit_flow_emits[of "tagged se (score_conn se cid st r) (flow_of cid st d)"]]
  show "emits [flow_of cid st d] r (emit_flow (tagged se (score_conn se cid st r) (flow_of cid st d)) (score_conn se cid st r))"
    by simp
  from emits_trans[OF sc emit_flow_emits[of "flow_of cid st d"]]
  show "emits [flow_of cid st d] r (emit_flow (flow_of cid st d) (score_conn se cid st r))" by simp
qed

lemma complete_flow_emits:
  "emits (case cs of (cid, st) \<Rightarrow> [flow_of cid st (merged st)]) r (complete_flow se cs r)"
  by (cases cs) (simp add: complete_flow_def Let_def emits_scored)

lemma emits_nothing: "emits [] r r"
  by (simp add: emits_def)

lemma flush_conn_emits:
  "emits (case cs of (cid, st) \<Rightarrow> if stream st = [] \<and> packets st < 2 then [] else [flow_of cid st (merged st)]) r (flush_conn se cs r)"
  by (cases cs) (simp add: flush_conn_def emits_scored emits_nothing)

text \<open>The flows a list of connections gives, in order.\<close>

definition merged_flows :: "(connection_id \<times> conn_state) list \<Rightarrow> flow_data list" where
  "merged_flows cs = map (\<lambda>(cid, st). flow_of cid st (merged st)) cs"

lemma concat_map_single: "concat (map (\<lambda>x. case x of (a, b) \<Rightarrow> [f a b]) xs) = map (\<lambda>(a, b). f a b) xs"
  by (induction xs) auto

lemma concat_map_filtered:
  "concat (map (\<lambda>x. case x of (a, b) \<Rightarrow> if P a b then [] else [f a b]) xs) = map (\<lambda>(a, b). f a b) (filter (\<lambda>(a, b). \<not> P a b) xs)"
  by (induction xs) auto

lemma emits_connections: "emits fs r r' \<Longrightarrow> emits fs (r\<lparr>connections := cs\<rparr>) (r'\<lparr>connections := cs\<rparr>)"
  by (auto simp: emits_def blocks_ok_def)

lemma check_complete_emits:
  "emits (merged_flows (filter (\<lambda>(cid, st). finished_conn se st) (connections r)))
     (r\<lparr>connections := filter (\<lambda>(cid, st). \<not> finished_conn se st) (connections r)\<rparr>) (check_complete_flows se r)"
  using emits_connections[OF emits_fold[of _ "complete_flow se", OF complete_flow_emits,
      of "filter (\<lambda>(cid, st). finished_conn se st) (connections r)" r]]
  by (simp add: check_complete_flows_def concat_map_single merged_flows_def)

lemma flush_fold_emits:
  "emits (merged_flows (filter (\<lambda>(cid, st). \<not> (stream st = [] \<and> packets st < 2)) cs)) r (fold (flush_conn se) cs r)"
  using emits_fold[of _ "flush_conn se", OF flush_conn_emits, of cs r]
  by (simp add: concat_map_filtered merged_flows_def)

lemma flush_fold_flows:
  "flows_out (fold (flush_conn se) cs r) =
     flows_out r @ merged_flows (filter (\<lambda>(cid, st). \<not> (stream st = [] \<and> packets st < 2)) cs)"
proof (induction cs arbitrary: r)
  case (Cons c cs)
  obtain cid st where c: "c = (cid, st)" by (cases c)
  have "flows_out (score_conn se cid st r) = flows_out r"
    using scoring.frame[of r se "(cid, st)"] by (simp add: same_flows_def)
  with Cons show ?case by (simp add: c flush_conn_def emit_flow_def merged_flows_def)
qed (simp add: merged_flows_def)

section \<open>Statistics\<close>

definition lens_ok :: "nat list \<Rightarrow> conn_state \<Rightarrow> bool" where
  "lens_ok ls st =
     (packets st = length ls \<and> length_sum st = sum_list ls \<and> length_sq_sum st = sum_list (map (\<lambda>l. l * l) ls) \<and>
      (\<forall>l \<in> set ls. l < 2 ^ 16))"

definition stats_ok :: "conn_state \<Rightarrow> bool" where
  "stats_ok st = (\<exists>ls. ls \<noteq> [] \<and> lens_ok ls st)"

lemma insert_data_stats [simp]:
  "packets (insert_data q d st) = packets st" "length_sum (insert_data q d st) = length_sum st"
  "length_sq_sum (insert_data q d st) = length_sq_sum st"
  "packets (baseline q st) = packets st" "length_sum (baseline q st) = length_sum st"
  "length_sq_sum (baseline q st) = length_sq_sum st"
  by (simp_all add: insert_data_def baseline_def split: prod.split)

lemma conn_step_stats:
  "packets (fst (conn_step now sg st)) = packets st + 1"
  "length_sum (fst (conn_step now sg st)) = length_sum st + sg_len sg"
  "length_sq_sum (fst (conn_step now sg st)) = length_sq_sum st + (sg_len sg * sg_len sg) mod 2 ^ 32"
  by (simp_all add: conn_step_def Let_def note_packet_def)

lemma square_bound: "l < 2 ^ 16 \<Longrightarrow> (l * l) mod 2 ^ 32 = (l * l :: nat)"
proof -
  assume "l < 2 ^ 16"
  then have "l * l \<le> (2 ^ 16 - 1) * (2 ^ 16 - 1)" by (intro mult_le_mono) auto
  then show ?thesis by simp
qed

lemma lens_ok_step: "lens_ok ls st \<Longrightarrow> sg_len sg < 2 ^ 16 \<Longrightarrow> lens_ok (ls @ [sg_len sg]) (fst (conn_step now sg st))"
  using square_bound[of "sg_len sg"] by (simp add: lens_ok_def conn_step_stats del: power_numeral)

lemma stats_ok_step: "stats_ok st \<or> st = new_conn \<Longrightarrow> sg_len sg < 2 ^ 16 \<Longrightarrow> stats_ok (fst (conn_step now sg st))"
proof -
  assume a: "stats_ok st \<or> st = new_conn" and l: "sg_len sg < 2 ^ 16"
  have "lens_ok [] new_conn" by (simp add: lens_ok_def new_conn_def)
  with a obtain ls where "lens_ok ls st" by (auto simp: stats_ok_def)
  from lens_ok_step[OF this l] show ?thesis unfolding stats_ok_def by blast
qed

lemma sum_squares_about:
  "sum_list (map (\<lambda>x. (x - m) * (x - m)) xs) = sum_list (map (\<lambda>x. x * x) xs) - 2 * m * sum_list xs + real (length xs) * (m * m)"
  by (induction xs) (simp_all add: algebra_simps)

lemma variance_nonneg:
  assumes "xs \<noteq> []"
  shows "0 \<le> sum_list (map (\<lambda>x. x * x) xs) / real (length xs) - (sum_list xs / real (length xs)) * (sum_list xs / real (length xs))"
proof -
  let ?n = "real (length xs)" and ?S = "sum_list xs" and ?Q = "sum_list (map (\<lambda>x. x * x) xs)"
  have n: "0 < ?n" using assms by simp
  have "0 \<le> sum_list (map (\<lambda>x. (x - ?S / ?n) * (x - ?S / ?n)) xs)" by (rule sum_list_nonneg) auto
  also have "\<dots> = ?Q - 2 * (?S / ?n) * ?S + ?n * ((?S / ?n) * (?S / ?n))" by (rule sum_squares_about)
  also have "\<dots> = ?n * (?Q / ?n - (?S / ?n) * (?S / ?n))" using n by (simp add: field_simps)
  finally show ?thesis using n by (simp add: zero_le_mult_iff)
qed

lemma sum_list_real: "real (sum_list xs) = sum_list (map real xs)"
  by (induction xs) simp_all

definition flow_ok :: "flow_data \<Rightarrow> bool" where
  "flow_ok f = (0 < packet_count f \<and> 0 \<le> length_variance f)"

lemma flow_of_ok: "stats_ok st \<Longrightarrow> flow_ok (flow_of cid st d)"
proof -
  assume "stats_ok st"
  then obtain ls where ls: "ls \<noteq> []" "lens_ok ls st" by (auto simp: stats_ok_def)
  have "length_sq_sum st = sum_list (map (\<lambda>l. l * l) ls)" using ls(2) by (simp add: lens_ok_def)
  then have "real (length_sq_sum st) = sum_list (map (\<lambda>x. x * x) (map real ls))"
    by (simp add: sum_list_real o_def)
  with variance_nonneg[of "map real ls"] ls show ?thesis
    by (simp add: flow_ok_def flow_of_def lens_ok_def sum_list_real)
qed

section \<open>The invariant of the sensor\<close>

definition sensor_ok :: "reassembler \<Rightarrow> bool" where
  "sensor_ok r =
     (keys_distinct (connections r) \<and> length (connections r) \<le> max_connections \<and>
      (\<forall>(cid, st) \<in> set (connections r). stats_ok st) \<and> blocks_ok r \<and> (\<forall>f \<in> set (flows_out r). flow_ok f))"

lemma flow_ok_untag [simp]: "flow_ok (f\<lparr>behavioral_suspect := b\<rparr>) = flow_ok f"
  by (simp add: flow_ok_def)

lemma flow_ok_untagged:
  assumes "map (\<lambda>f. f\<lparr>behavioral_suspect := False\<rparr>) fs = map (\<lambda>f. f\<lparr>behavioral_suspect := False\<rparr>) gs @ hs"
    and "\<forall>f \<in> set gs. flow_ok f" and "\<forall>f \<in> set hs. flow_ok f" and "f \<in> set fs"
  shows "flow_ok f"
proof -
  have "f\<lparr>behavioral_suspect := False\<rparr> \<in> set (map (\<lambda>f. f\<lparr>behavioral_suspect := False\<rparr>) gs @ hs)"
    unfolding assms(1)[symmetric] using assms(4) by simp
  moreover have "\<forall>g \<in> set (map (\<lambda>f. f\<lparr>behavioral_suspect := False\<rparr>) gs @ hs). flow_ok g"
    using assms(2,3) by auto
  ultimately have "flow_ok (f\<lparr>behavioral_suspect := False\<rparr>)" by blast
  then show ?thesis by simp
qed

lemma sensor_ok_emits: "sensor_ok r \<Longrightarrow> emits fs r r' \<Longrightarrow> \<forall>f \<in> set fs. flow_ok f \<Longrightarrow> sensor_ok r'"
  using flow_ok_untagged[of "flows_out r'" "flows_out r" fs] by (simp add: sensor_ok_def emits_def)

lemma sensor_ok_same: "sensor_ok r \<Longrightarrow> same_flows r r' \<Longrightarrow> sensor_ok r'"
  by (simp add: sensor_ok_def same_flows_def)

lemma sensor_ok_filter: "sensor_ok r \<Longrightarrow> sensor_ok (r\<lparr>connections := filter P (connections r)\<rparr>)"
  by (auto simp: sensor_ok_def keys_distinct_filter blocks_ok_def intro: order_trans[OF length_filter_le])

lemma merged_flows_ok: "\<forall>(cid, st) \<in> set cs. stats_ok st \<Longrightarrow> \<forall>f \<in> set (merged_flows cs). flow_ok f"
  by (auto simp: merged_flows_def flow_of_ok)

lemma sensor_ok_complete: "sensor_ok r \<Longrightarrow> sensor_ok (check_complete_flows se r)"
proof -
  assume ok: "sensor_ok r"
  have "\<forall>f \<in> set (merged_flows (filter (\<lambda>(cid, st). finished_conn se st) (connections r))). flow_ok f"
    using ok by (intro merged_flows_ok) (auto simp: sensor_ok_def)
  from sensor_ok_emits[OF sensor_ok_filter[OF ok] check_complete_emits this] show ?thesis .
qed

lemma sensor_ok_flush: "sensor_ok r \<Longrightarrow> sensor_ok (flush_all_flows se r)"
proof -
  assume ok: "sensor_ok r"
  let ?r = "check_complete_flows se (check_mass_mailing_at_flush se (check_beaconing_at_flush se r))"
  have a: "sensor_ok ?r"
    by (intro sensor_ok_complete sensor_ok_same[OF _ same_flows_mailing] sensor_ok_same[OF ok same_flows_beaconing])
  then have "\<forall>f \<in> set (merged_flows (filter (\<lambda>(cid, st). \<not> (stream st = [] \<and> packets st < 2)) (connections ?r))). flow_ok f"
    by (intro merged_flows_ok) (auto simp: sensor_ok_def)
  from sensor_ok_emits[OF a flush_fold_emits this] show ?thesis
    by (simp add: flush_all_flows_def Let_def sensor_ok_def blocks_ok_def)
qed

lemma stale_emits:
  "emits (concat (map (\<lambda>(cid, st). if stream st = [] then [] else [flow_of cid st (stream st)]) cs)) r
     (fold (\<lambda>(cid, st) r. if stream st \<noteq> [] then emit_flow (tagged se r (flow_of cid st (stream st))) r else r) cs r)"
proof (rule emits_fold)
  fix x :: "connection_id \<times> conn_state" and r
  obtain cid st where x: "x = (cid, st)" by (cases x)
  show "emits (case x of (cid, st) \<Rightarrow> if stream st = [] then [] else [flow_of cid st (stream st)]) r
      ((case x of (cid, st) \<Rightarrow> \<lambda>r. if stream st \<noteq> [] then emit_flow (tagged se r (flow_of cid st (stream st))) r else r) r)"
    using emit_flow_emits[of "tagged se r (flow_of cid st (stream st))" r] by (simp add: x emits_nothing)
qed

lemma sensor_ok_stale: "sensor_ok r \<Longrightarrow> sensor_ok (evict_stale_state se now r)"
proof -
  assume ok: "sensor_ok r"
  let ?r = "r\<lparr>last_eviction_time := now\<rparr>"
  let ?stale = "filter (\<lambda>(cid, st). stale_conn now st) (connections ?r)"
  have a: "sensor_ok ?r" using ok by (simp add: sensor_ok_def blocks_ok_def)
  have "\<forall>f \<in> set (concat (map (\<lambda>(cid, st). if stream st = [] then [] else [flow_of cid st (stream st)]) ?stale)). flow_ok f"
    using a by (auto simp: sensor_ok_def flow_of_ok)
  from sensor_ok_filter[OF sensor_ok_emits[OF a stale_emits this]] show ?thesis using ok
    by (simp add: evict_stale_state_def Let_def sensor_ok_def blocks_ok_def)
qed

lemma admit_ok:
  assumes ok: "sensor_ok r" and a: "admit now cid r = (r', st)"
  shows "sensor_ok r' \<and> (\<forall>s. st = Some s \<longrightarrow> (stats_ok s \<or> s = new_conn) \<and>
    (map_of (connections r') cid = None \<longrightarrow> length (connections r') < max_connections))"
proof (cases "map_of (connections r) cid")
  case (Some s)
  then have "(cid, s) \<in> set (connections r)" by (rule map_of_SomeD)
  then have "stats_ok s" using ok by (auto simp: sensor_ok_def)
  with Some assms show ?thesis by (auto simp: admit_def)
next
  case None
  have f: "sensor_ok (force_evict_oldest now r)"
    using sensor_ok_filter[OF ok, of "\<lambda>(cid, st). \<not> (stream st = [] \<and> 5 < now - last_packet_time st)"] ok
    by (simp add: force_evict_oldest_def sensor_ok_def blocks_ok_def)
  then have "sensor_ok (force_evict_oldest now r\<lparr>shed_count := n\<rparr>)" for n by (simp add: sensor_ok_def blocks_ok_def)
  with None assms f show ?thesis by (auto simp: admit_def Let_def split: if_splits)
qed

lemma sensor_ok_segment:
  assumes ok: "sensor_ok r" and l: "sg_len sg < 2 ^ 16"
  shows "sensor_ok (process_segment se now sg r)"
proof -
  let ?cid = "segment_id sg"
  let ?r = "check_connection_anomalies se (sg_src sg) (sg_dst sg) (sg_dport sg) (sg_syn sg) now (sg_ttl sg) r"
  obtain r' st where a: "admit now ?cid ?r = (r', st)" by (cases "admit now ?cid ?r")
  from admit_ok[OF sensor_ok_same[OF ok same_flows_anomalies] a] have r': "sensor_ok r'"
    and st: "\<And>s. st = Some s \<Longrightarrow> (stats_ok s \<or> s = new_conn) \<and>
      (map_of (connections r') ?cid = None \<longrightarrow> length (connections r') < max_connections)" by blast+
  show ?thesis
  proof (cases st)
    case None
    with a r' show ?thesis by (simp add: process_segment_def Let_def)
  next
    case (Some s)
    let ?r2 = "r'\<lparr>connections := al_put ?cid (fst (conn_step now sg s)) (connections r')\<rparr>"
    have "stats_ok (fst (conn_step now sg s))" using st[OF Some] l by (intro stats_ok_step) auto
    then have "\<forall>(c, s') \<in> set (connections ?r2). stats_ok s'"
      using r' set_al_put_subset[of ?cid "fst (conn_step now sg s)" "connections r'"] by (auto simp: sensor_ok_def)
    moreover have "length (connections ?r2) \<le> max_connections"
      using r' st[OF Some] by (auto simp: sensor_ok_def length_al_put)
    ultimately have "sensor_ok ?r2" using r' by (simp add: sensor_ok_def keys_distinct_al_put blocks_ok_def)
    moreover have "sensor_ok (overlap_alert se ?cid ?r2)"
      unfolding overlap_alert_def by (rule sensor_ok_same[OF calculation same_flows_emit])
    ultimately show ?thesis
      by (cases "conn_step now sg s") (simp add: process_segment_def a Some Let_def)
  qed
qed

lemma sensor_ok_ip: "sensor_ok r \<Longrightarrow> sensor_ok (snd (process_ip_packet se now p r))"
proof -
  assume ok: "sensor_ok r"
  then have "sensor_ok (note_udp s d r)" for s d
    by (simp add: note_udp_def put_tracker_def sensor_ok_def blocks_ok_def)
  with ok sensor_ok_segment[OF ok] parse_ip_len[of p] show ?thesis
    by (auto simp: process_ip_packet_def split: option.split parsed.split)
qed

text \<open>Everything the outside can do to a running sensor; the allow list is set once, before the capture starts.\<close>

inductive sensor_reach :: "sensor \<Rightarrow> reassembler \<Rightarrow> bool" for se where
  create: "create_reassembler pf (se_cfg se) = Inr r \<Longrightarrow> sensor_reach se (set_block_allowlist csv r)"
| packet: "sensor_reach se r \<Longrightarrow> sensor_reach se (process_packet se now frame r)"
| raw: "sensor_reach se r \<Longrightarrow> sensor_reach se (snd (process_ip_packet se now p r))"
| maintain: "sensor_reach se r \<Longrightarrow> sensor_reach se (maintenance se r)"
| flush: "sensor_reach se r \<Longrightarrow> sensor_reach se (flush_all_flows se r)"
| block: "sensor_reach se r \<Longrightarrow> sensor_reach se (block_source ip r)"
| unblock: "sensor_reach se r \<Longrightarrow> sensor_reach se (unblock_source ip r)"
| counted: "sensor_reach se r \<Longrightarrow> sensor_reach se (r\<lparr>blocked_packet_count := n\<rparr>)"

lemma created_empty:
  "create_reassembler pf cfg = Inr r \<Longrightarrow>
   connections r = [] \<and> blocked_ips r = [] \<and> flows_out r = [] \<and> alerts_out r = [] \<and> source_trackers r = []"
  by (auto simp: create_reassembler_def load_behavioral_def initial_reassembler_def Let_def
      split: if_splits sum.splits option.splits)

lemma sensor_ok_block: "sensor_ok r \<Longrightarrow> sensor_ok (block_source ip r)"
  using block_source_ok[of r ip] by (simp add: sensor_ok_def)

lemma sensor_reach_ok: "sensor_reach se r \<Longrightarrow> sensor_ok r"
proof (induction rule: sensor_reach.induct)
  case (create pf r csv)
  from created_empty[OF create] show ?case
    by (simp add: set_block_allowlist_def sensor_ok_def blocks_ok_def)
next
  case (packet r now frame)
  then show ?case by (simp add: process_packet_def sensor_ok_ip split: option.split)
next
  case (maintain r)
  then show ?case by (simp add: maintenance_def Let_def sensor_ok_complete sensor_ok_stale)
next
  case (unblock r ip)
  then show ?case by (auto simp: unblock_source_def sensor_ok_def blocks_ok_def)
next
  case (counted r n)
  then show ?case by (simp add: sensor_ok_def blocks_ok_def)
qed (auto intro: sensor_ok_ip sensor_ok_flush sensor_ok_block)

lemma reach_packets: "sensor_reach se r \<Longrightarrow> sensor_reach se (fold (\<lambda>(now, frame). process_packet se now frame) ps r)"
  by (induction ps arbitrary: r) (auto intro: sensor_reach.packet)

lemma reach_run_pcap: "sensor_reach se r \<Longrightarrow> sensor_reach se (run_pcap se ds r)"
proof (induction se ds r rule: run_pcap.induct)
  case (5 se ps ds r)
  from reach_packets[OF "5.prems", of ps] "5.IH" show ?case
    by (auto simp: Let_def intro: sensor_reach.flush sensor_reach.maintain)
qed simp_all

lemma divert_step_sensor:
  obtains r n where "r = (if 20 \<le> length p then snd (process_ip_packet se now p (dv_sensor v)) else dv_sensor v)"
    and "dv_sensor (divert_step se (now, p) v) \<in>
      {r, r\<lparr>blocked_packet_count := n\<rparr>, maintenance se r, maintenance se (r\<lparr>blocked_packet_count := n\<rparr>)}"
proof -
  let ?r = "if 20 \<le> length p then snd (process_ip_packet se now p (dv_sensor v)) else dv_sensor v"
  have "dv_sensor (divert_step se (now, p) v) \<in>
      {?r, ?r\<lparr>blocked_packet_count := blocked_packet_count ?r + 1\<rparr>, maintenance se ?r,
       maintenance se (?r\<lparr>blocked_packet_count := blocked_packet_count ?r + 1\<rparr>)}"
    by (simp add: divert_step_def Let_def case_prod_beta)
  with that show ?thesis by blast
qed

lemma reach_divert_step: "sensor_reach se (dv_sensor v) \<Longrightarrow> sensor_reach se (dv_sensor (divert_step se pkt v))"
proof -
  assume a: "sensor_reach se (dv_sensor v)"
  obtain now p where pkt: "pkt = (now, p)" by (cases pkt)
  obtain r n where r: "r = (if 20 \<le> length p then snd (process_ip_packet se now p (dv_sensor v)) else dv_sensor v)"
    and d: "dv_sensor (divert_step se (now, p) v) \<in>
      {r, r\<lparr>blocked_packet_count := n\<rparr>, maintenance se r, maintenance se (r\<lparr>blocked_packet_count := n\<rparr>)}"
    by (rule divert_step_sensor)
  have b: "sensor_reach se r" using a sensor_reach.raw by (simp add: r)
  with d sensor_reach.counted[OF b, of n] show ?thesis
    unfolding pkt by (auto intro: sensor_reach.maintain)
qed

lemma reach_divert: "sensor_reach se (dv_sensor v) \<Longrightarrow> sensor_reach se (dv_sensor (fold (divert_step se) pkts v))"
  by (induction pkts arbitrary: v) (auto intro: reach_divert_step)

section \<open>Inline blocking\<close>

text \<open>What blocking needs of every operation: it may only add to the block list.\<close>

definition grows :: "reassembler \<Rightarrow> reassembler \<Rightarrow> bool" where
  "grows r r' =
     (set (blocked_ips r) \<subseteq> set (blocked_ips r') \<and> allowlist_ips r' = allowlist_ips r \<and> (blocks_ok r \<longrightarrow> blocks_ok r'))"

lemma grows_trans: "grows a b \<Longrightarrow> grows b c \<Longrightarrow> grows a c"
  by (auto simp: grows_def)

lemma grows_same: "same_flows r r' \<Longrightarrow> grows r r'"
  by (simp add: grows_def same_flows_def)

lemma grows_fields:
  "blocked_ips r' = blocked_ips r \<Longrightarrow> allowlist_ips r' = allowlist_ips r \<Longrightarrow> grows r r'"
  by (simp add: grows_def blocks_ok_def)

lemma grows_cong:
  "grows a b \<Longrightarrow> blocked_ips a' = blocked_ips a \<Longrightarrow> allowlist_ips a' = allowlist_ips a \<Longrightarrow>
   blocked_ips b' = blocked_ips b \<Longrightarrow> allowlist_ips b' = allowlist_ips b \<Longrightarrow> grows a' b'"
  unfolding grows_def blocks_ok_def by metis

lemma grows_emits: "emits fs a b \<Longrightarrow> grows a b"
  by (simp add: grows_def emits_def)

lemma grows_complete: "grows r (check_complete_flows se r)"
  by (rule grows_cong[OF grows_emits[OF check_complete_emits]]) simp_all

lemma grows_stale: "grows r (evict_stale_state se now r)"
proof -
  let ?r = "r\<lparr>last_eviction_time := now\<rparr>"
  from grows_cong[OF grows_emits[OF stale_emits[of "filter (\<lambda>(cid, st). stale_conn now st) (connections r)" ?r se]],
      of r "evict_stale_state se now r"] show ?thesis
    by (auto simp: evict_stale_state_def Let_def grows_fields)
qed

lemma grows_maintenance: "grows r (maintenance se r)"
  using grows_trans[OF grows_complete grows_stale] by (simp add: maintenance_def Let_def grows_complete)

lemma grows_segment: "grows r (process_segment se now sg r)"
proof -
  let ?r = "check_connection_anomalies se (sg_src sg) (sg_dst sg) (sg_dport sg) (sg_syn sg) now (sg_ttl sg) r"
  obtain r' st where a: "admit now (segment_id sg) ?r = (r', st)" by (cases "admit now (segment_id sg) ?r")
  have "grows ?r r'"
    using a by (auto simp: admit_def force_evict_oldest_def Let_def intro!: grows_fields split: option.splits if_splits)
  then have r': "grows r r'" by (rule grows_trans[OF grows_same[OF same_flows_anomalies]])
  have "grows r' (r'\<lparr>connections := cs\<rparr>)" for cs by (simp add: grows_fields)
  moreover have "grows r' (overlap_alert se (segment_id sg) (r'\<lparr>connections := cs\<rparr>))" for cs
    unfolding overlap_alert_def by (rule grows_trans[OF calculation grows_same[OF same_flows_emit]])
  ultimately show ?thesis using grows_trans[OF r']
    by (auto simp: process_segment_def a Let_def r' split: option.split prod.split)
qed

lemma grows_ip: "grows r (snd (process_ip_packet se now p r))"
proof -
  have "grows r (note_udp s d r)" for s d by (simp add: note_udp_def put_tracker_def grows_def blocks_ok_def)
  moreover have "grows r r" by (simp add: grows_def)
  ultimately show ?thesis
    by (simp add: process_ip_packet_def grows_segment split: option.split parsed.split)
qed

text \<open>The source address of a packet, as the parser reports it.\<close>

definition source_of :: "bytes \<Rightarrow> u32" where
  "source_of p = (case u32_at p 12 of None \<Rightarrow> 0 | Some s \<Rightarrow> s)"

lemma process_ip_source: "20 \<le> length p \<Longrightarrow> fst (process_ip_packet se now p r) = source_of p"
  using parse_ip_safe[of p]
  by (auto simp: process_ip_packet_def parse_ip_def source_of_def Let_def split: option.split if_splits bind_splits)

lemma divert_step_grows: "grows (dv_sensor v) (dv_sensor (divert_step se pkt v))"
proof -
  obtain now p where pkt: "pkt = (now, p)" by (cases pkt)
  obtain r n where r: "r = (if 20 \<le> length p then snd (process_ip_packet se now p (dv_sensor v)) else dv_sensor v)"
    and d: "dv_sensor (divert_step se (now, p) v) \<in>
      {r, r\<lparr>blocked_packet_count := n\<rparr>, maintenance se r, maintenance se (r\<lparr>blocked_packet_count := n\<rparr>)}"
    by (rule divert_step_sensor)
  have b: "grows (dv_sensor v) r" using grows_ip by (simp add: r grows_fields)
  moreover have c: "grows (dv_sensor v) (r\<lparr>blocked_packet_count := n\<rparr>)"
    by (rule grows_trans[OF b]) (simp add: grows_fields)
  moreover have "grows (dv_sensor v) (maintenance se r)" by (rule grows_trans[OF b grows_maintenance])
  moreover have "grows (dv_sensor v) (maintenance se (r\<lparr>blocked_packet_count := n\<rparr>))"
    by (rule grows_trans[OF c grows_maintenance])
  moreover note d
  ultimately show ?thesis unfolding pkt by (elim insertE emptyE) simp_all
qed

lemma divert_step_sent:
  "dv_sent (divert_step se (now, p) v) =
     dv_sent v @ (if inline_block (se_cfg se) \<and> 20 \<le> length p \<and> source_of p \<noteq> 0 \<and>
                     is_blocked (source_of p) (snd (process_ip_packet se now p (dv_sensor v))) then [] else [p])"
  using process_ip_source[of p se now "dv_sensor v"]
  by (simp add: divert_step_def Let_def case_prod_beta)

text \<open>Whether a packet is forwarded no matter what the sensor decides.\<close>

definition exempt :: "reassembler \<Rightarrow> bytes \<Rightarrow> bool" where
  "exempt r p = (length p < 20 \<or> source_of p \<in> set (allowlist_ips r))"

definition from_blocked :: "reassembler \<Rightarrow> bytes \<Rightarrow> bool" where
  "from_blocked r p = (20 \<le> length p \<and> source_of p \<noteq> 0 \<and> is_blocked (source_of p) r)"

lemma not_blocked_exempt: "blocks_ok r \<Longrightarrow> exempt r p \<Longrightarrow> \<not> from_blocked r p"
  by (auto simp: blocks_ok_def exempt_def from_blocked_def is_blocked_def)

lemma grows_exempt: "grows r r' \<Longrightarrow> exempt r' p = exempt r p"
  by (simp add: grows_def exempt_def)

lemma grows_from_blocked: "grows r r' \<Longrightarrow> from_blocked r p \<Longrightarrow> from_blocked r' p"
  by (auto simp: grows_def from_blocked_def is_blocked_def)

lemma divert_sent_step:
  assumes "grows r (dv_sensor v)" and "blocks_ok r" and "inline_block (se_cfg se)"
  shows "\<exists>q. dv_sent (divert_step se (now, p) v) = dv_sent v @ q \<and> (q = [] \<or> q = [p]) \<and>
    (exempt r p \<longrightarrow> q = [p]) \<and> (from_blocked r p \<longrightarrow> q = [])"
proof -
  let ?r = "snd (process_ip_packet se now p (dv_sensor v))"
  have g: "grows r ?r" by (rule grows_trans[OF assms(1) grows_ip])
  have ok: "blocks_ok ?r" using g assms(2) by (simp add: grows_def)
  have "dv_sent (divert_step se (now, p) v) = dv_sent v @ (if from_blocked ?r p then [] else [p])"
    using assms(3) by (simp add: divert_step_sent from_blocked_def)
  moreover have "exempt r p \<Longrightarrow> \<not> from_blocked ?r p"
    using not_blocked_exempt[OF ok] grows_exempt[OF g] by simp
  moreover have "from_blocked r p \<Longrightarrow> from_blocked ?r p" by (rule grows_from_blocked[OF g])
  ultimately show ?thesis by auto
qed

lemma divert_sent:
  assumes "grows r (dv_sensor v)" and "blocks_ok r" and "inline_block (se_cfg se)"
  shows "\<exists>q. dv_sent (fold (divert_step se) pkts v) = dv_sent v @ q \<and>
    filter (exempt r) q = filter (exempt r) (map snd pkts) \<and> filter (from_blocked r) q = []"
  using assms(1)
proof (induction pkts arbitrary: v)
  case (Cons pkt pkts)
  obtain now p where pkt: "pkt = (now, p)" by (cases pkt)
  obtain q where q: "dv_sent (divert_step se pkt v) = dv_sent v @ q" "q = [] \<or> q = [p]"
    "exempt r p \<longrightarrow> q = [p]" "from_blocked r p \<longrightarrow> q = []"
    using divert_sent_step[OF Cons.prems assms(2,3)] pkt by blast
  obtain q' where q': "dv_sent (fold (divert_step se) pkts (divert_step se pkt v)) = dv_sent (divert_step se pkt v) @ q'"
    "filter (exempt r) q' = filter (exempt r) (map snd pkts)" "filter (from_blocked r) q' = []"
    using Cons.IH[OF grows_trans[OF Cons.prems divert_step_grows]] by blast
  have "filter (exempt r) (q @ q') = filter (exempt r) (map snd (pkt # pkts))"
    using q q'(2) by (auto simp: pkt)
  moreover have "filter (from_blocked r) (q @ q') = []" using q q'(3) by auto
  ultimately show ?case using q(1) q'(1) by (intro exI[of _ "q @ q'"]) simp
qed simp

section \<open>Properties\<close>


definition ethernet_platform :: platform where
  "ethernet_platform = \<lparr>pf_files = (\<lambda>_. None), pf_real = (\<lambda>_. None), pf_open = (\<lambda>_ _. Inr 1)\<rparr>"

text \<open>A TCP SYN of 40 bytes from 10.0.0.1 to 10.0.0.2, port 22.\<close>

definition syn_packet :: bytes where
  "syn_packet = [0x45, 0, 0, 40, 0, 0, 0, 0, 64, 6, 0, 0, 10, 0, 0, 1, 10, 0, 0, 2,
     0x10, 0x00, 0, 22, 0, 0, 0, 9, 0, 0, 0, 0, 0x50, 0x02, 0, 0, 0, 0, 0, 0]"


text \<open>
  C12: in inline blocking mode no packet of a source that is on the block list when the loop starts is ever
  sent on, and every packet of an allow-listed source, and every packet too short for an IP header, is sent
  on exactly once and in order, whatever alerts are raised in between.
\<close>
theorem inline_blocking:
  assumes "inline_block (se_cfg se)" and "blocks_ok r"
  shows "filter (exempt r) (dv_sent (run_windivert se pkts r)) = filter (exempt r) (map snd pkts) \<and>
    filter (from_blocked r) (dv_sent (run_windivert se pkts r)) = []"
proof -
  have "grows r (dv_sensor \<lparr>dv_sensor = r, dv_sent = [], dv_since = 0\<rparr>)" by (simp add: grows_fields)
  from divert_sent[OF this assms(2,1), of pkts] show ?thesis by (auto simp: run_windivert_def)
qed

theorem inline_blocking_witness:
  "filter (from_blocked (initial_reassembler\<lparr>blocked_ips := [0x0100000A]\<rparr>))
     (dv_sent (run_windivert (trivial_sensor\<lparr>se_cfg := default_config\<lparr>inline_block := True\<rparr>\<rparr>) [(0, syn_packet), (0, [1, 2])]
        (initial_reassembler\<lparr>blocked_ips := [0x0100000A]\<rparr>))) = [] \<and>
   from_blocked (initial_reassembler\<lparr>blocked_ips := [0x0100000A]\<rparr>) syn_packet"
proof -
  have "source_of syn_packet = 0x0100000A" by code_simp
  moreover have "20 \<le> length syn_packet" by code_simp
  ultimately have "from_blocked (initial_reassembler\<lparr>blocked_ips := [0x0100000A]\<rparr>) syn_packet"
    by (simp add: from_blocked_def is_blocked_def)
  moreover have "blocks_ok (initial_reassembler\<lparr>blocked_ips := [0x0100000A]\<rparr>)"
    by (simp add: blocks_ok_def initial_reassembler_def)
  ultimately show ?thesis
    using inline_blocking[of "trivial_sensor\<lparr>se_cfg := default_config\<lparr>inline_block := True\<rparr>\<rparr>"
        "initial_reassembler\<lparr>blocked_ips := [0x0100000A]\<rparr>" "[(0, syn_packet), (0, [1, 2])]"] by simp
qed

text \<open>
  C19: the completion pass removes exactly the connections that saw a FIN or RST or outgrew the payload limit
  and emits one flow for each, in table order, carrying the reassembled bytes followed by the segments still
  out of order.  The final flush empties the table and emits the rest as well, except silent single-packet
  connections, but never with the behavioral mark.
\<close>
theorem flows_emitted:
  "connections (check_complete_flows se r) = filter (\<lambda>(cid, st). \<not> finished_conn se st) (connections r) \<and>
   map (\<lambda>f. f\<lparr>behavioral_suspect := False\<rparr>) (flows_out (check_complete_flows se r)) =
     map (\<lambda>f. f\<lparr>behavioral_suspect := False\<rparr>) (flows_out r) @
     merged_flows (filter (\<lambda>(cid, st). finished_conn se st) (connections r)) \<and>
   connections (flush_all_flows se r) = [] \<and>
   (\<exists>tagged_flows. flows_out (flush_all_flows se r) = tagged_flows @
       merged_flows (filter (\<lambda>(cid, st). \<not> (stream st = [] \<and> packets st < 2))
         (filter (\<lambda>(cid, st). \<not> finished_conn se st) (connections r))) \<and>
     map (\<lambda>f. f\<lparr>behavioral_suspect := False\<rparr>) tagged_flows =
       map (\<lambda>f. f\<lparr>behavioral_suspect := False\<rparr>) (flows_out r) @
       merged_flows (filter (\<lambda>(cid, st). finished_conn se st) (connections r)))"
proof -
  let ?d = "check_mass_mailing_at_flush se (check_beaconing_at_flush se r)"
  have d: "connections ?d = connections r" "flows_out ?d = flows_out r"
    using same_flows_trans[OF same_flows_beaconing same_flows_mailing, of r se se] by (simp_all add: same_flows_def)
  have c: "connections (check_complete_flows se r) = filter (\<lambda>(cid, st). \<not> finished_conn se st) (connections r)" for r
    by (simp add: check_complete_flows_def)
  have f: "map (\<lambda>f. f\<lparr>behavioral_suspect := False\<rparr>) (flows_out (check_complete_flows se r)) =
     map (\<lambda>f. f\<lparr>behavioral_suspect := False\<rparr>) (flows_out r) @
     merged_flows (filter (\<lambda>(cid, st). finished_conn se st) (connections r))" for r
    using check_complete_emits[of se r] by (simp add: emits_def)
  have "flows_out (flush_all_flows se r) = flows_out (check_complete_flows se ?d) @
      merged_flows (filter (\<lambda>(cid, st). \<not> (stream st = [] \<and> packets st < 2))
        (filter (\<lambda>(cid, st). \<not> finished_conn se st) (connections r)))"
    by (simp add: flush_all_flows_def Let_def flush_fold_flows c d)
  with c[of r] f[of r] f[of ?d] d show ?thesis
    by (intro conjI exI[of _ "flows_out (check_complete_flows se ?d)"]) (simp_all add: flush_all_flows_def Let_def)
qed

text \<open>
  an idle eviction emits the reassembled bytes of every connection silent for two minutes, and nothing
  of the segments it still holds out of order; a connection that holds only such segments is dropped
  without a flow.
\<close>
theorem idle_eviction_drops_buffered:
  assumes "60 \<le> now - last_eviction_time r"
  shows "connections (evict_stale_state se now r) = filter (\<lambda>(cid, st). \<not> stale_conn now st) (connections r) \<and>
    map (\<lambda>f. f\<lparr>behavioral_suspect := False\<rparr>) (flows_out (evict_stale_state se now r)) =
      map (\<lambda>f. f\<lparr>behavioral_suspect := False\<rparr>) (flows_out r) @
      map (\<lambda>(cid, st). flow_of cid st (stream st)) (filter (\<lambda>(cid, st). stale_conn now st \<and> stream st \<noteq> []) (connections r))"
proof -
  let ?cs = "filter (\<lambda>(cid, st). stale_conn now st) (connections r)"
  have "concat (map (\<lambda>(cid, st). if stream st = [] then [] else [flow_of cid st (stream st)])
        (filter (\<lambda>(cid, st). stale_conn now st) cs)) =
      map (\<lambda>(cid, st). flow_of cid st (stream st)) (filter (\<lambda>(cid, st). stale_conn now st \<and> stream st \<noteq> []) cs)" for cs
    by (induction cs) auto
  then show ?thesis
    using assms stale_emits[of ?cs "r\<lparr>last_eviction_time := now\<rparr>" se]
    by (simp add: evict_stale_state_def Let_def emits_def)
qed

theorem idle_eviction_drops_buffered_witness:
  "flows_out (evict_stale_state trivial_sensor 1000
     (initial_reassembler\<lparr>connections := [(pair_id 1 2 3, new_conn\<lparr>ooo := [(7, [0x41, 0x42])]\<rparr>)]\<rparr>)) = []"
proof -
  have "60 \<le> 1000 - last_eviction_time
      (initial_reassembler\<lparr>connections := [(pair_id 1 2 3, new_conn\<lparr>ooo := [(7, [0x41, 0x42])]\<rparr>)]\<rparr>)"
    by (simp add: initial_reassembler_def)
  from idle_eviction_drops_buffered[OF this, of trivial_sensor] show ?thesis
    by (simp add: new_conn_def initial_reassembler_def)
qed

text \<open>
  when the table is full and no entry can be evicted, a packet of an unknown connection changes neither
  the table nor the emitted flows, is counted as shed, and is still seen by every packet detector: trackers,
  alerts and block list are those of the detectors alone.
\<close>
theorem full_table_sheds_new_flows:
  assumes "parse_ip p = Some (Tcp_packet sg)" and "segment_id sg \<notin> fst ` set (connections r)"
    and "length (connections r) = max_connections"
    and "\<forall>(cid, st) \<in> set (connections r). stream st \<noteq> [] \<or> now - last_packet_time st \<le> 5"
    and "r1 = check_connection_anomalies se (sg_src sg) (sg_dst sg) (sg_dport sg) (sg_syn sg) now (sg_ttl sg) r"
    and "r' = snd (process_ip_packet se now p r)"
  shows "connections r' = connections r \<and> flows_out r' = flows_out r \<and> shed_count r' = shed_count r + 1 \<and>
    source_trackers r' = source_trackers r1 \<and> beacon_trackers r' = beacon_trackers r1 \<and>
    alerts_out r' = alerts_out r1 \<and> blocked_ips r' = blocked_ips r1"
proof -
  have r1: "connections r1 = connections r" "flows_out r1 = flows_out r" "shed_count r1 = shed_count r"
    using same_flows_anomalies[of r se] by (simp_all add: same_flows_def assms(5))
  have "filter (\<lambda>(cid, st). \<not> (stream st = [] \<and> 5 < now - last_packet_time st)) (connections r) = connections r"
    using assms(4) by (auto intro!: filter_True)
  then have f: "connections (force_evict_oldest now r1) = connections r" "flows_out (force_evict_oldest now r1) = flows_out r"
    "shed_count (force_evict_oldest now r1) = shed_count r"
    "source_trackers (force_evict_oldest now r1) = source_trackers r1"
    "beacon_trackers (force_evict_oldest now r1) = beacon_trackers r1"
    "alerts_out (force_evict_oldest now r1) = alerts_out r1" "blocked_ips (force_evict_oldest now r1) = blocked_ips r1"
    using r1 by (simp_all add: force_evict_oldest_def)
  have "map_of (connections r1) (segment_id sg) = None" using assms(2) r1 by (simp add: map_of_eq_None_iff)
  then have "admit now (segment_id sg) r1 =
      ((force_evict_oldest now r1)\<lparr>shed_count := shed_count (force_evict_oldest now r1) + 1\<rparr>, None)"
    using assms(3) f(1) r1(1) by (simp add: admit_def Let_def)
  then have "r' = (force_evict_oldest now r1)\<lparr>shed_count := shed_count (force_evict_oldest now r1) + 1\<rparr>"
    using assms(1) by (simp add: assms(6) process_ip_packet_def process_segment_def flip: assms(5))
  then show ?thesis using f by simp
qed

definition full_table :: "(connection_id \<times> conn_state) list" where
  "full_table = map (\<lambda>i. (pair_id 0 0 (word_of_nat i), new_conn\<lparr>stream := [0]\<rparr>)) [0..<max_connections]"

theorem full_table_sheds_new_flows_witness:
  "shed_count (snd (process_ip_packet trivial_sensor 7 syn_packet (initial_reassembler\<lparr>connections := full_table\<rparr>))) = 1"
proof -
  let ?r = "initial_reassembler\<lparr>connections := full_table\<rparr>"
  have p: "parse_ip syn_packet = Some (Tcp_packet \<lparr>sg_src = 0x0100000A, sg_dst = 0x0200000A, sg_sport = 0x0010,
      sg_dport = 0x1600, sg_seq = 9, sg_syn = True, sg_fin = False, sg_rst = False, sg_ttl = 64, sg_len = 0,
      sg_captured = True, sg_data = []\<rparr>)" by code_simp
  have a: "segment_id \<lparr>sg_src = 0x0100000A, sg_dst = 0x0200000A, sg_sport = 0x0010, sg_dport = 0x1600, sg_seq = 9,
      sg_syn = True, sg_fin = False, sg_rst = False, sg_ttl = 64, sg_len = 0, sg_captured = True, sg_data = []\<rparr>
      \<notin> fst ` set (connections ?r)" by (auto simp: full_table_def segment_id_def pair_id_def)
  have b: "length (connections ?r) = max_connections" by (simp add: full_table_def)
  have c: "\<forall>(cid, st) \<in> set (connections ?r). stream st \<noteq> [] \<or> 7 - last_packet_time st \<le> 5"
    by (auto simp: full_table_def)
  from full_table_sheds_new_flows[OF p a b c refl refl, of trivial_sensor] show ?thesis
    by (simp add: initial_reassembler_def)
qed

end
