(* ===== verification/Npu_Detectors.thy ===== *)
theory Npu_Detectors
  imports Wirewolf_Types
begin

text \<open>
  The payload detectors of \<^verbatim>\<open>src/npu_filter.cpp\<close>, one predicate per member function, over the
  reassembled bytes and, where the code looks at them, the ports.  Every index the code uses is below the
  payload size by its loop bound.  The search pattern of \<open>detect_benign_http\<close> is delimited by pointers
  outside of its string literal, so its bytes are a parameter.  The lemmas compare the detectors with
  declarative descriptions of what they accept.
\<close>

definition dst_is_external :: "u32 \<Rightarrow> bool" where
  "dst_is_external ip =
     (\<not> (ip_byte ip 0 = 10 \<or> ip_byte ip 0 = 127 \<or> ip_byte ip 0 = 0 \<or>
         ip_byte ip 0 = 172 \<and> ip_byte ip 1 div 16 * 16 = 16 \<or>
         ip_byte ip 0 = 192 \<and> ip_byte ip 1 = 168 \<or> ip_byte ip 0 = 169 \<and> ip_byte ip 1 = 254))"

section \<open>Heartbleed and SPNEGO\<close>

definition heartbleed_at :: "bytes \<Rightarrow> nat \<Rightarrow> bool" where
  "heartbleed_at p i =
     (if p ! i \<noteq> 0x18 then False
      else if p ! (i + 1) \<noteq> 0x03 \<or> 0x03 < p ! (i + 2) then False
      else
        (let record_len = unat (p ! (i + 3)) * 256 + unat (p ! (i + 4)) in
         if length p < i + 5 + record_len then False
         else if record_len < 3 then False
         else if p ! (i + 5) \<noteq> 1 \<and> p ! (i + 5) \<noteq> 2 then False
         else
           (let hb_payload_len = unat (p ! (i + 6)) * 256 + unat (p ! (i + 7));
                actual_data = record_len - 3
            in actual_data + 16 < hb_payload_len)))"

definition detect_heartbleed :: "bytes \<Rightarrow> bool" where
  "detect_heartbleed p = (if length p < 8 then False else list_ex (heartbleed_at p) [0..<length p - 7])"

definition spnego_oid :: bytes where
  "spnego_oid = [0x06, 0x06, 0x2b, 0x06, 0x01, 0x05, 0x05, 0x02]"

definition ntlmssp :: bytes where
  "ntlmssp = [0x4E, 0x54, 0x4C, 0x4D, 0x53, 0x53, 0x50, 0]"

definition detect_spnego :: "bytes \<Rightarrow> bool" where
  "detect_spnego p =
     (if length spnego_oid \<le> length p \<and> contains p spnego_oid then True
      else length ntlmssp \<le> length p \<and> contains p ntlmssp)"

section \<open>FTP uploads\<close>

definition stealer_names :: "string list" where
  "stealer_names =
     [''PW_'', ''password'', ''Password'', ''cred'', ''Cred'', ''keylog'', ''Keylog'', ''wallet'', ''Wallet'', ''cookie'',
      ''Cookie'', ''Login'', ''login_'', ''Contacts'', ''contacts'', ''token'', ''Token'', ''secret'', ''Secret'']"

definition stor_filename :: "string \<Rightarrow> nat \<Rightarrow> string" where
  "stor_filename text pos = takeWhile (\<lambda>c. c \<noteq> CHR 0x0D \<and> c \<noteq> CHR 0x0A) (take 200 (drop (pos + 5) text))"

definition detect_ftp_activity :: "bytes \<Rightarrow> bool" where
  "detect_ftp_activity p =
     (if length p < 10 then False
      else
        (let text = text_of (take 2048 p);
             has_user = contains text ''USER '';
             has_pass = contains text ''PASS '';
             has_stor = contains text ''STOR ''
         in if has_user \<and> has_pass \<and> has_stor then True
            else
              (case find_sub ''STOR '' text of
                 None \<Rightarrow> False
               | Some pos \<Rightarrow>
                   if list_ex (contains (stor_filename text pos)) stealer_names then True
                   else 2 \<le> count_occ ''STOR '' 5 text)))"

section \<open>Credentials in clear text\<close>

definition is_email_char :: "char \<Rightarrow> bool" where
  "is_email_char c = (is_alpha c \<or> is_digit c \<or> c \<in> {CHR ''.'', CHR ''_'', CHR ''-'', CHR ''+''})"

text \<open>The address around the \<open>@\<close> at position \<open>at\<close>.\<close>

definition email_at :: "string \<Rightarrow> nat \<Rightarrow> bool" where
  "email_at text a =
     (let valid_local = (0 < a \<and> is_email_char (text ! (a - 1)));
          dom = takeWhile is_email_char (drop (a + 1) text)
      in valid_local \<and> a + 2 < length text \<and> CHR ''.'' \<in> set dom \<and> 4 \<le> length dom)"

function count_emails :: "string \<Rightarrow> nat \<Rightarrow> nat \<Rightarrow> nat" where
  "count_emails text pos n =
     (if pos < length text \<and> n < 6 then
        (case find_from ''@'' text pos of
           None \<Rightarrow> n
         | Some a \<Rightarrow>
             if a = 0 then n
             else count_emails text (a + 1) (if email_at text a then n + 1 else n))
      else n)"
  by pat_completeness auto
termination
  by (relation "measure (\<lambda>(text, pos, n). length text - pos)") (auto dest!: find_from_Some)

declare count_emails.simps [simp del]

definition proto_uris :: "string list" where
  "proto_uris = [''imap://'', ''smtp://'', ''pop3://'', ''ftp://'', ''oauth://'']"

definition credential_score :: "string \<Rightarrow> nat" where
  "credential_score text =
     (if contains text ''User Name:'' \<or> contains text ''Computer Name:'' \<or> contains text ''OSFullName:'' then 2 else 0) +
     (if contains text ''Password:'' \<or> contains text ''Password='' then 2 else 0) +
     (if contains text ''Username:'' \<or> contains text ''Username='' then 1 else 0) +
     (if contains text ''Application:'' then 1 else 0) +
     (if list_ex (contains text) proto_uris then 1 else 0) +
     (if contains text ''Host:'' \<and> contains text ''Password:'' then 2 else 0)"

definition text_share :: "bytes \<Rightarrow> real" where
  "text_share p = real (length (filter printable_byte p)) / real (length p)"

definition detect_credential_content :: "bytes \<Rightarrow> bool" where
  "detect_credential_content p =
     (if length p < 20 then False
      else if text_share (take 2048 p) < 85 / 100 then False
      else
        (let text = text_of (take 2048 p);
             score = credential_score text;
             score = (if score < 3 then (if 5 \<le> count_emails text 0 0 then score + 3 else score) else score)
         in 3 \<le> score))"

section \<open>HTTP\<close>

definition injection_markers :: "string list" where
  "injection_markers =
     [''{{'', ''<script'', ''<img'', ''<svg'', ''onerror'', ''onload'', CHR 0x27 # '' OR'', CHR 0x22 # '' OR'', ''; DROP'',
      ''UNION SELECT'', ''$('', ''`'', ''||'', ''../'', ''..'' @ [CHR 0x5C], ''%00'', ''%0a'', ''%0d'']"

definition is_request :: "bytes \<Rightarrow> bool" where
  "is_request p =
     (let start = text_of (take 4 p)
      in take 3 start = ''GET'' \<or> start = ''POST'' \<or> start = ''HEAD'' \<or> take 3 start = ''PUT'')"

text \<open>The first line of the request: up to the first CR before the end of the headers, or else the first LF.\<close>

definition first_line :: "bytes \<Rightarrow> bytes \<Rightarrow> bytes" where
  "first_line header_pattern p =
     (let request_end = (case find_sub header_pattern p of None \<Rightarrow> length p | Some h \<Rightarrow> h);
          request = take request_end p;
          upto_cr = takeWhile (\<lambda>b. b \<noteq> 0x0D) request
      in if upto_cr = request then takeWhile (\<lambda>b. b \<noteq> 0x0A) request else upto_cr)"

definition detect_benign_http :: "bytes \<Rightarrow> bytes \<Rightarrow> bool" where
  "detect_benign_http header_pattern p =
     (if length p < 16 then False
      else if \<not> is_request p then False
      else \<not> list_ex (contains (text_of (first_line header_pattern p))) injection_markers)"

definition auth_paths :: "string list" where
  "auth_paths =
     [''login'', ''log-in'', ''signin'', ''sign-in'', ''logon'', ''auth'', ''wp-login'', ''wp-admin'', ''/admin'', ''session'',
      ''oauth'', ''/token'', ''account'', ''/api/login'', ''j_security_check'']"

definition is_auth_path :: "string \<Rightarrow> bool" where
  "is_auth_path lower = list_ex (contains lower) auth_paths"

definition post_path :: "string \<Rightarrow> nat \<Rightarrow> string" where
  "post_path text pos =
     (let path_start = pos + 5;
          path_end = (case find_from '' '' text path_start of None \<Rightarrow> min (path_start + 256) (length text) | Some e \<Rightarrow> e)
      in to_lower (take (path_end - path_start) (drop path_start text)))"

definition detect_http_bruteforce :: "bytes \<Rightarrow> bool" where
  "detect_http_bruteforce p =
     (if length p < 50 then False
      else
        (let text = text_of (take 8192 p)
         in 5 \<le> length (filter (\<lambda>pos. is_auth_path (post_path text pos)) (positions ''POST '' 5 text 0))))"

section \<open>SMB exploits\<close>

record smb_scan =
  has_smb_header :: bool
  has_tree_connect_ipc :: bool
  has_trans_command :: bool
  has_large_write :: bool
  total_write_bytes :: nat

definition ipc_at :: "bytes \<Rightarrow> nat \<Rightarrow> nat \<Rightarrow> bool" where
  "ipc_at p search_end j =
     (p ! j = 0x49 \<and> p ! (j + 1) = 0x50 \<and> p ! (j + 2) = 0x43 \<or>
      j + 5 < search_end \<and> p ! j = 0x49 \<and> p ! (j + 1) = 0 \<and> p ! (j + 2) = 0x50 \<and> p ! (j + 3) = 0 \<and>
        p ! (j + 4) = 0x43 \<and> p ! (j + 5) = 0)"

definition smb_at :: "bytes \<Rightarrow> nat \<Rightarrow> bool" where
  "smb_at p i = (p ! i = 0xFF \<and> p ! (i + 1) = 0x53 \<and> p ! (i + 2) = 0x4D \<and> p ! (i + 3) = 0x42)"

definition ipc_near :: "bytes \<Rightarrow> nat \<Rightarrow> bool" where
  "ipc_near p i =
     (let search_end = min (i + 200) (length p) in list_ex (ipc_at p search_end) [i + 4..<search_end - 3])"

definition smb_step :: "bytes \<Rightarrow> nat \<Rightarrow> smb_scan \<Rightarrow> smb_scan" where
  "smb_step p i s =
     (if \<not> smb_at p i then s
      else
        (let cmd = p ! (i + 4);
             s = s\<lparr>has_smb_header := True\<rparr>;
             s = (if cmd = 0x75 \<and> ipc_near p i then s\<lparr>has_tree_connect_ipc := True\<rparr> else s);
             s = (if cmd \<in> {0x25, 0x32, 0xA0} then s\<lparr>has_trans_command := True\<rparr> else s)
         in if cmd \<in> {0x2F, 0x33, 0x1D}
            then s\<lparr>has_large_write := True, total_write_bytes := total_write_bytes s + 1400\<rparr> else s))"

definition no_smb :: smb_scan where
  "no_smb = \<lparr>has_smb_header = False, has_tree_connect_ipc = False, has_trans_command = False,
     has_large_write = False, total_write_bytes = 0\<rparr>"

definition detect_smb_exploit :: "connection_id \<Rightarrow> bytes \<Rightarrow> bool" where
  "detect_smb_exploit cid p =
     (if length p < 100 then False
      else if bswap16 (src_port cid) \<noteq> 445 \<and> bswap16 (dst_port cid) \<noteq> 445 then False
      else
        (let s = fold (smb_step p) [0..<length p - 8] no_smb in
         if \<not> has_smb_header s then False
         else has_tree_connect_ipc s \<and> has_trans_command s \<and> 10000 < length p))"

section \<open>RAT protocols\<close>

definition standard_ports :: "u16 list" where
  "standard_ports = [80, 443, 8080, 8443, 22, 21, 25, 53, 110, 143, 445, 993, 995, 3306, 3389, 5432]"

definition ascii_digit :: "byte \<Rightarrow> bool" where
  "ascii_digit b = (0x30 \<le> b \<and> b \<le> 0x39)"

definition ascii_letter :: "byte \<Rightarrow> bool" where
  "ascii_letter b = (0x61 \<le> b \<and> b \<le> 0x7A \<or> 0x41 \<le> b \<and> b \<le> 0x5A)"

definition njrat_delim :: string where
  "njrat_delim = [CHR ''|'', CHR 0x27, CHR ''|'', CHR 0x27, CHR ''|'']"

definition rat_command_at :: "bytes \<Rightarrow> nat \<Rightarrow> nat \<Rightarrow> bool" where
  "rat_command_at p scan_len i =
     (p ! i = 0 \<and> 0 < i \<and> i < 10 \<and> list_all (\<lambda>j. ascii_digit (p ! j)) [0..<i] \<and>
      list_all (\<lambda>j. ascii_letter (p ! j)) [i + 1..<min (i + 4) scan_len])"

definition rat_commands :: "bytes \<Rightarrow> nat \<Rightarrow> nat" where
  "rat_commands p scan_len = length (filter (rat_command_at p scan_len) [0..<scan_len - 5])"

definition recon_markers :: "string list" where
  "recon_markers =
     [''Administrator'', CHR 0x5C # ''Desktop'' @ [CHR 0x5C], CHR 0x5C # ''Users'' @ [CHR 0x5C],
      CHR 0x5C # ''AppData'' @ [CHR 0x5C], ''TEMP'', ''.exe'', CHR 0x5C # ''Windows'' @ [CHR 0x5C], ''cmd.exe'',
      ''powershell'', ''tasklist'', ''ipconfig'', ''systeminfo'']"

definition is_b64 :: "byte \<Rightarrow> bool" where
  "is_b64 b = (ascii_letter b \<or> ascii_digit b \<or> b = 0x2B \<or> b = 0x2F \<or> b = 0x3D)"

function b64_runs :: "bytes \<Rightarrow> nat" where
  "b64_runs p =
     (if p = [] then 0
      else (let run = takeWhile is_b64 p
            in (if 20 \<le> length run then 1 else 0) + b64_runs (drop (length run + 1) p)))"
  by pat_completeness auto
termination by (relation "measure length") auto

declare b64_runs.simps [simp del]

definition rat_score :: "bytes \<Rightarrow> nat" where
  "rat_score p =
     (let scan_len = min (length p) 4096;
          text = text_of (take scan_len p)
      in (if 3 \<le> count_occ njrat_delim 5 text then 4 else 0) +
         (if 2 \<le> rat_commands p scan_len then 2 else 0) +
         (if 2 \<le> length (filter (contains text) recon_markers) then 2 else 0) +
         (if 3 \<le> b64_runs (take scan_len p) then 1 else 0))"

definition detect_rat_protocol :: "connection_id \<Rightarrow> bytes \<Rightarrow> bool" where
  "detect_rat_protocol cid p =
     (if length p < 20 then False
      else if list_ex (\<lambda>sp. bswap16 (src_port cid) = sp \<or> bswap16 (dst_port cid) = sp) standard_ports then False
      else 4 \<le> rat_score p)"

section \<open>De-obfuscated injections\<close>

definition obfuscation_markers :: "string list" where
  "obfuscation_markers =
     [CHR 0x27 # '' or 1=1'', CHR 0x22 # '' or 1=1'', [CHR 0x27] @ '' or '' @ [CHR 0x27] @ ''1'' @ [CHR 0x27] @ ''='' @ [CHR 0x27] @ ''1'',
      ''union select'', ''; drop table'', ''waitfor delay'', ''benchmark('', ''sleep('', ''extractvalue('', ''updatexml('',
      ''information_schema'',
      ''<script'', ''javascript:'', ''onerror='', ''onload='', ''onmouseover='', ''<svg'', ''<img src='', ''document.cookie'',
      ''string.fromcharcode('',
      '';cat /etc'', ''|cat /etc'', ''/bin/sh'', ''/bin/bash -i'', ''; nc '', ''| nc '', ''$('', ''`id`'', ''; wget http'',
      ''; curl http'', ''powershell -e'', ''/dev/tcp/'',
      ''../../'', ''..'' @ [CHR 0x5C] @ ''..'' @ [CHR 0x5C], ''/etc/passwd'', ''/etc/shadow'', ''php://filter'', ''php://input'',
      ''/proc/self/environ'',
      ''{{7*7}}'', ''${jndi:'', ''${('', ''#{'', ''t(java.lang.runtime)'',
      ''() {'', ''ac ed 00 05'', ''__proto__'',
      ''<!entity'', ''system '' @ [CHR 0x22] @ ''file:'', ''system '' @ [CHR 0x22] @ ''http'']"

definition detect_obfuscated_injection :: "string \<Rightarrow> bool" where
  "detect_obfuscated_injection n = (if length n < 6 then False else list_ex (contains n) obfuscation_markers)"

section \<open>Statistics\<close>

definition entropy :: "bytes \<Rightarrow> real" where
  "entropy p =
     sum_list (map (\<lambda>b. let c = count_list p b in
       if 0 < c then - (real c / real (length p)) * log 2 (real c / real (length p)) else 0)
       (map word_of_nat [0..<256]))"

definition extract_features :: "flow_data \<Rightarrow> real \<times> real \<times> real" where
  "extract_features f =
     (if payload f = [] then 0 else entropy (payload f), length_variance f, inter_arrival_time f)"

definition cnn_input_seq_len :: nat where "cnn_input_seq_len = 512"
definition cnn_pad_token :: int where "cnn_pad_token = 256"

definition prepare_byte_tensor :: "bytes \<Rightarrow> int list" where
  "prepare_byte_tensor p =
     (let copy_len = min (length p) cnn_input_seq_len
      in map uint (take copy_len p) @ replicate (cnn_input_seq_len - copy_len) cnn_pad_token)"

definition quote_like :: "byte \<Rightarrow> bool" where
  "quote_like b = (b \<in> {0x27, 0x22, 0x7B, 0x7D, 0x7C, 0x60})"

section \<open>What the detectors accept\<close>

lemma smb_fold:
  "has_smb_header (fold (smb_step p) js s) = (has_smb_header s \<or> (\<exists>i \<in> set js. smb_at p i))"
  "has_tree_connect_ipc (fold (smb_step p) js s) =
     (has_tree_connect_ipc s \<or> (\<exists>i \<in> set js. smb_at p i \<and> p ! (i + 4) = 0x75 \<and> ipc_near p i))"
  "has_trans_command (fold (smb_step p) js s) =
     (has_trans_command s \<or> (\<exists>i \<in> set js. smb_at p i \<and> p ! (i + 4) \<in> {0x25, 0x32, 0xA0}))"
  by (induction js arbitrary: s) (auto simp: smb_step_def Let_def)

lemma rat_commands_le: "rat_commands p n \<le> 1"
proof -
  let ?A = "{i \<in> {0..<n - 5}. rat_command_at p n i}"
  have less: "\<not> i < j" if "rat_command_at p n i" "rat_command_at p n j" for i j
  proof
    assume "i < j"
    then have "ascii_digit (p ! i)" using that(2) by (simp add: rat_command_at_def list_all_iff)
    with that(1) show False by (simp add: rat_command_at_def ascii_digit_def)
  qed
  have "\<forall>i \<in> ?A. \<forall>j \<in> ?A. i = j" using less by (auto simp: not_less order_antisym)
  then have "card ?A \<le> Suc 0" by (subst card_le_Suc0_iff_eq) auto
  moreover have "rat_commands p n = card ?A"
    by (simp add: rat_commands_def distinct_length_filter Int_def conj_commute)
  ultimately show ?thesis by simp
qed

section \<open>Entropy\<close>

definition plogp :: "real \<Rightarrow> real" where
  "plogp x = (if 0 < x then - x * log 2 x else 0)"

lemma plogp_nonneg: "x \<le> 1 \<Longrightarrow> 0 \<le> plogp x"
  by (simp add: plogp_def mult_nonneg_nonpos)

lemma plogp_upper: "0 \<le> x \<Longrightarrow> plogp x \<le> 8 * x + (1 / 256 - x) / ln 2"
proof (cases "x = 0")
  case False
  assume "0 \<le> x"
  with False have x: "0 < x" by simp
  have "ln (1 / (256 * x)) \<le> 1 / (256 * x) - 1" using x by (intro ln_le_minus_one) simp
  then have "- ln 256 - ln x \<le> 1 / (256 * x) - 1" using x by (simp add: ln_div ln_mult)
  then have "x * (- ln 256 - ln x) \<le> x * (1 / (256 * x) - 1)" using x by (intro mult_left_mono) auto
  also have "\<dots> = 1 / 256 - x" using x by (simp add: algebra_simps)
  finally have a: "- x * ln x \<le> x * ln 256 + (1 / 256 - x)" by (simp add: algebra_simps)
  have l: "ln (256 :: real) = 8 * ln 2" using ln_realpow[of 2 8] by simp
  have "plogp x = (- x * ln x) / ln 2" using x by (simp add: plogp_def log_def)
  also have "\<dots> \<le> (x * ln 256 + (1 / 256 - x)) / ln 2" using a by (intro divide_right_mono) auto
  also have "\<dots> = 8 * x + (1 / 256 - x) / ln 2" by (simp add: l add_divide_distrib)
  finally show ?thesis .
qed (simp add: plogp_def)

lemma distinct_bytes: "distinct (map (word_of_nat :: nat \<Rightarrow> byte) [0..<256])"
  by (subst distinct_map) (auto simp: inj_on_def word_of_nat_eq_iff take_bit_nat_eq_self)

lemma set_bytes: "set (map (word_of_nat :: nat \<Rightarrow> byte) [0..<256]) = UNIV"
proof -
  have "b \<in> word_of_nat ` {0..<256}" for b :: byte
    using unsigned_less[of b] by (intro image_eqI[of _ _ "unat b"]) auto
  then show ?thesis by auto
qed

lemma sum_bytes: "sum_list (map f (map (word_of_nat :: nat \<Rightarrow> byte) [0..<256])) = sum f UNIV"
  using sum_list_distinct_conv_sum_set[OF distinct_bytes, of f] set_bytes by simp

lemma entropy_plogp: "entropy p = (\<Sum>b \<in> UNIV. plogp (real (count_list p b) / real (length p)))"
proof -
  have "(let c = count_list p b in
      if 0 < c then - (real c / real (length p)) * log 2 (real c / real (length p)) else 0) =
      plogp (real (count_list p b) / real (length p))" for b
  proof (cases "count_list p b = 0")
    case False
    then have "p \<noteq> []" by auto
    with False show ?thesis by (simp add: plogp_def Let_def)
  qed (simp add: plogp_def)
  then show ?thesis unfolding entropy_def sum_bytes by simp
qed

lemma finite_bytes: "finite (UNIV :: byte set)"
  unfolding set_bytes[symmetric] by (rule finite_set)

lemma frequencies_sum: "p \<noteq> [] \<Longrightarrow> (\<Sum>b \<in> UNIV. real (count_list p b) / real (length p)) = 1" for p :: bytes
  using sum_count_set[of p UNIV] finite_bytes by (simp flip: sum_divide_distrib of_nat_sum)

lemma entropy_le_8:
  assumes "p \<noteq> []"
  shows "entropy p \<le> 8"
proof -
  have c: "card (UNIV :: byte set) = 256"
    using distinct_card[OF distinct_bytes] set_bytes by simp
  have "entropy p \<le> (\<Sum>b \<in> UNIV. 8 * (real (count_list p b) / real (length p)) +
      (1 / 256 - real (count_list p b) / real (length p)) / ln 2)"
    unfolding entropy_plogp by (intro sum_mono plogp_upper) simp
  also have "\<dots> = 8 * (\<Sum>b \<in> UNIV. real (count_list p b) / real (length p)) +
      ((\<Sum>b \<in> (UNIV :: byte set). 1 / 256) - (\<Sum>b \<in> UNIV. real (count_list p b) / real (length p))) / ln 2"
    by (simp add: sum.distrib sum_subtractf sum_distrib_left flip: sum_divide_distrib)
  also have "\<dots> = 8" using frequencies_sum[OF assms] c by simp
  finally show ?thesis .
qed

lemma entropy_nonneg: "0 \<le> entropy p"
  unfolding entropy_plogp
proof (intro sum_nonneg plogp_nonneg)
  fix b
  show "real (count_list p b) / real (length p) \<le> 1"
    using count_le_length[of p b] by (cases "p = []") (simp_all add: divide_le_eq)
qed

section \<open>The request line\<close>

lemma contains_butlast: "contains (text_of (butlast xs)) m \<Longrightarrow> contains (text_of xs) m"
proof (cases xs rule: rev_cases)
  case (snoc ys y)
  assume "contains (text_of (butlast xs)) m"
  then show ?thesis using contains_append[of "text_of ys" m "[]" "[byte_char y]"] by (simp add: snoc text_of_def)
qed simp

lemma first_line_cases:
  assumes p: "p = line @ 0x0D # rest" and cr: "0x0D \<notin> set line" "0x0A \<notin> set line"
  shows "first_line [x, 0x0D, 0x0A, 0x0D] p \<in> {line, butlast line}"
proof -
  have w: "takeWhile (\<lambda>b. b \<noteq> 0x0D) (take n p) = take n line" for n
  proof (cases "n \<le> length line")
    case True
    then show ?thesis using cr(1) by (simp add: p takeWhile_eq_all_conv) (metis in_set_takeD)
  next
    case False
    then show ?thesis using cr(1) by (simp add: p takeWhile_append take_Cons' )
  qed
  have lf: "takeWhile (\<lambda>b. b \<noteq> 0x0A) (take n line) = take n line" for n
    using cr(2) by (simp add: takeWhile_eq_all_conv) (metis in_set_takeD)
  show ?thesis
  proof (cases "find_sub [x, 0x0D, 0x0A, 0x0D] p")
    case None
    have "takeWhile (\<lambda>b. b \<noteq> 0x0D) p = line" using w[of "length p"] by (simp add: p)
    then show ?thesis using None by (simp add: first_line_def Let_def) (simp add: p)
  next
    case (Some h)
    define r where "r = drop (h + length [x, 0x0D, 0x0A, 0x0D]) p"
    have d: "p = take h p @ [x, 0x0D, 0x0A, 0x0D] @ r" unfolding r_def by (rule find_sub_decomp[OF Some])
    have b: "h < length p" using find_sub_bound[OF Some] by simp
    have "p ! (h + 1) = (take h p @ [x, 0x0D, 0x0A, 0x0D] @ r) ! (h + 1)" by (rule arg_cong[OF d])
    also have "\<dots> = 0x0D" using b by (simp add: nth_append)
    finally have "p ! (h + 1) = 0x0D" .
    then have h: "length line \<le> h + 1"
      using cr(1) by (metis linorder_not_less nth_append nth_mem p)
    show ?thesis
    proof (cases "h \<le> length line")
      case True
      then have "take h p = take h line" by (simp add: p)
      then have "first_line [x, 0x0D, 0x0A, 0x0D] p = take h line"
        using w[of h] lf[of h] by (simp add: first_line_def Some Let_def)
      moreover have "take h line = (if h = length line then line else butlast line)"
      proof (cases "h = length line")
        case False
        then have "h = length line - 1" using True h by simp
        with False show ?thesis by (simp add: butlast_conv_take)
      qed simp
      ultimately show ?thesis by simp
    next
      case False
      then have "takeWhile (\<lambda>b. b \<noteq> 0x0D) (take h p) = line" "take h p \<noteq> line"
        using w[of h] by (simp_all add: p take_Cons')
      then have "first_line [x, 0x0D, 0x0A, 0x0D] p = line"
        by (simp add: first_line_def Some Let_def del: takeWhile_eq_all_conv)
      then show ?thesis by simp
    qed
  qed
qed

section \<open>Properties\<close>

text \<open>
  The entropy of a payload lies between 0 and 8 bits, whatever its bytes, so a threshold of 8 or more
  never fires.
\<close>
theorem entropy_bounds: "0 \<le> entropy p \<and> entropy p \<le> 8"
  using entropy_le_8[of p] entropy_nonneg[of p] by (cases "p = []") (auto simp: entropy_plogp plogp_def)

text \<open>
  the scoring of the RAT detector collapses to its njRAT rule: the rule for length-prefixed commands can
  match at one offset only and needs two, and the remaining rules do not reach the threshold together.
\<close>
theorem rat_detector_is_njrat_rule:
  "rat_commands p n \<le> 1 \<and>
   (detect_rat_protocol cid p \<longleftrightarrow>
      20 \<le> length p \<and> bswap16 (src_port cid) \<notin> set standard_ports \<and> bswap16 (dst_port cid) \<notin> set standard_ports \<and>
      3 \<le> count_occ njrat_delim 5 (text_of (take 4096 p)))"
proof -
  have t: "take (min (length p) 4096) p = take 4096 p" by (simp add: min_def)
  have "\<not> 2 \<le> rat_commands p m" for m using rat_commands_le[of p m] by simp
  then have "4 \<le> rat_score p \<longleftrightarrow> 3 \<le> count_occ njrat_delim 5 (text_of (take 4096 p))"
    by (simp add: rat_score_def Let_def t)
  then show ?thesis using rat_commands_le by (auto simp: detect_rat_protocol_def list_ex_iff)
qed

text \<open>
  the scan of the SMB detector accepts exactly the flows on port 445 above 10000 bytes that hold an SMBv1
  header of a tree connect with IPC within the next 200 bytes and an SMBv1 header of a transaction, in any
  order, each at least nine bytes before the end.
\<close>
theorem smb_exploit_reference:
  "detect_smb_exploit cid p \<longleftrightarrow>
     10000 < length p \<and> (bswap16 (src_port cid) = 445 \<or> bswap16 (dst_port cid) = 445) \<and>
     (\<exists>i. i + 8 < length p \<and> smb_at p i \<and> p ! (i + 4) = 0x75 \<and> ipc_near p i) \<and>
     (\<exists>i. i + 8 < length p \<and> smb_at p i \<and> p ! (i + 4) \<in> {0x25, 0x32, 0xA0})"
proof -
  have "i \<in> set [0..<length p - 8] \<longleftrightarrow> i + 8 < length p" for i by auto
  then show ?thesis
    by (auto simp: detect_smb_exploit_def Let_def smb_fold no_smb_def)
qed

text \<open>
  a request the HTTP detector calls benign has no injection marker in its request line up to the line's
  last byte, whatever byte precedes the string literal the search pattern starts before.
\<close>
theorem benign_http_request_line:
  assumes "detect_benign_http [x, 0x0D, 0x0A, 0x0D] (line @ 0x0D # rest)"
    and "0x0D \<notin> set line" and "0x0A \<notin> set line" and "m \<in> set injection_markers"
  shows "\<not> contains (text_of (butlast line)) m"
proof
  assume c: "contains (text_of (butlast line)) m"
  have "contains (text_of (first_line [x, 0x0D, 0x0A, 0x0D] (line @ 0x0D # rest))) m"
    using first_line_cases[OF refl assms(2,3), of x rest] c contains_butlast[OF c] by auto
  with assms(1,4) show False by (auto simp: detect_benign_http_def list_ex_iff split: if_splits)
qed

theorem benign_http_request_line_witness:
  "\<not> contains (text_of (butlast (bytes_of ''GET /a HTTP/1.1''))) ''<script''"
proof -
  have a: "detect_benign_http [0, 0x0D, 0x0A, 0x0D] (bytes_of ''GET /a HTTP/1.1'' @ 0x0D # [0x0A, 0x0D, 0x0A])"
    by code_simp
  have b: "0x0D \<notin> set (bytes_of ''GET /a HTTP/1.1'')" "0x0A \<notin> set (bytes_of ''GET /a HTTP/1.1'')" by code_simp+
  show ?thesis by (rule benign_http_request_line[OF a b]) (simp add: injection_markers_def)
qed

end
