(* ===== verification/Npu_Filter.thy ===== *)
theory Npu_Filter
  imports Npu_Detectors Tls_Inspector Payload_Normalizer Threat_Feed Config Flow_Queue
begin

text \<open>
  The filter stage of \<^verbatim>\<open>src/npu_filter.cpp\<close>: the inspection of TLS handshakes, the statistical
  filter, and the decision the worker loop takes for one flow, with its counters, events and the flows it
  hands to the next stage.  The neural model is a parameter: a function from the byte tensor to a
  prediction, which may fail.  \<open>None\<close> is a read outside the payload in the TLS parser.  The lemmas show
  that every flow is accounted for exactly once, what is always escalated, and what never is.
\<close>

record npu =
  np_cfg :: wirewolf_config
  np_hash :: std_hash
  np_feed :: threat_feed
  np_header_pattern :: bytes
  np_model :: "(int list \<Rightarrow> real option) option"
  np_callback :: bool

record npu_state =
  passed_count :: nat
  filtered_count :: nat
  dedup_count :: nat
  seen_payload_hashes :: "u64 list"
  flow_events :: "flow_event list"
  filter_out :: "(int \<times> flow_data) list"

definition initial_npu_state :: npu_state where
  "initial_npu_state = \<lparr>passed_count = 0, filtered_count = 0, dedup_count = 0, seen_payload_hashes = [],
     flow_events = [], filter_out = []\<rparr>"

definition max_payload_hashes :: nat where "max_payload_hashes = 100000"

text \<open>The constructor: the model, when one could be compiled, and the feed of the rules directory.\<close>

definition create_filter ::
    "wirewolf_config \<Rightarrow> std_hash \<Rightarrow> file_system \<Rightarrow> bytes \<Rightarrow> (int list \<Rightarrow> real option) option \<Rightarrow> bool \<Rightarrow> npu" where
  "create_filter cfg H fs header_pattern compiled callback =
     \<lparr>np_cfg = cfg, np_hash = H,
      np_feed = (if rules_dir cfg \<noteq> [] then snd (load_feed fs (rules_dir cfg) empty_feed) else empty_feed),
      np_header_pattern = header_pattern, np_model = (if openvino_enabled cfg then compiled else None),
      np_callback = callback\<rparr>"

section \<open>TLS\<close>

definition builtin_ja3 :: "string list" where
  "builtin_ja3 =
     [''a0e9f5d64349fb13191bc781f81f42e1'', ''72a589da586844d7f0818ce684948eea'', ''6734f37431670b3ab4292b8f60f29984'']"

text \<open>\<open>strchr\<close> also finds the terminating NUL.\<close>

definition sni_consonant :: "char \<Rightarrow> bool" where
  "sni_consonant c = (c \<in> set ''bcdfghjklmnpqrstvwxz'' \<or> c = CHR 0x00)"

definition sni_suspicious :: "string \<Rightarrow> bool" where
  "sni_suspicious s =
     (if s = [] then False
      else if list_all (\<lambda>c. is_digit c \<or> c = CHR ''.'') s then True
      else
        (let label = takeWhile (\<lambda>c. c \<noteq> CHR ''.'') s in
         if 16 \<le> length label then
           (let digits = length (filter is_digit label);
                consonants = length (filter (\<lambda>c. \<not> is_digit c \<and> sni_consonant c) label);
                dr = real digits / real (length label);
                cr = real consonants / real (length label)
            in 3 / 10 < dr \<or> 75 / 100 < cr)
         else False))"

text \<open>0: no ClientHello, 1: suspicious, 2: benign.\<close>

definition inspect_tls :: "npu \<Rightarrow> flow_data \<Rightarrow> (nat \<times> flow_data) option" where
  "inspect_tls np f = do {
     (hello, tls) \<leftarrow> parse_tls_client_hello (payload f) no_tls_info;
     if \<not> hello then Some (0, f)
     else
       (let f = f\<lparr>tls_sni := tls_info_sni tls, tls_ja3 := ja3_hash tls\<rparr> in
        if ja3_hash tls \<in> set builtin_ja3 then Some (1, f\<lparr>protocol_tag := ''Malicious TLS Client''\<rparr>)
        else if is_bad_ja3 (np_feed np) (ja3_hash tls) then Some (1, f\<lparr>protocol_tag := ''Malicious TLS Client''\<rparr>)
        else if is_bad_domain (np_feed np) (tls_info_sni tls) then Some (1, f\<lparr>protocol_tag := ''C2 Beaconing''\<rparr>)
        else if sni_suspicious (tls_info_sni tls) then Some (1, f\<lparr>protocol_tag := ''Suspicious TLS''\<rparr>)
        else Some (2, f))
   }"

section \<open>Statistics\<close>

definition statistical_filter :: "wirewolf_config \<Rightarrow> real \<times> real \<times> real \<Rightarrow> flow_data \<Rightarrow> bool" where
  "statistical_filter cfg features f =
     (case features of (ent, variance, inter_arrival) \<Rightarrow>
        if entropy_high_threshold cfg < ent then True
        else if ent < entropy_low_threshold cfg \<and> min_payload_for_low_entropy cfg < length (payload f) then True
        else if variance_threshold cfg < variance then True
        else if inter_arrival < inter_arrival_floor cfg \<and> 0 < inter_arrival \<and>
                min_packet_count_for_flood cfg < packet_count f then True
        else if payload f \<noteq> [] \<and> length (payload f) < 4096 then
          5 / 100 < real (length (filter quote_like (payload f))) / real (length (payload f))
        else False)"

text \<open>The verdict of the model when there is one and it runs, of the statistics otherwise.\<close>

definition model_verdict :: "npu \<Rightarrow> flow_data \<Rightarrow> bool" where
  "model_verdict np f =
     (case np_model np of
        None \<Rightarrow> statistical_filter (np_cfg np) (extract_features f) f
      | Some infer \<Rightarrow>
          (case infer (prepare_byte_tensor (payload f)) of
             None \<Rightarrow> statistical_filter (np_cfg np) (extract_features f) f
           | Some prediction \<Rightarrow> npu_threshold (np_cfg np) < prediction))"

section \<open>The decision for a flow\<close>

text \<open>
  Every branch of the loop body ends in one of three ways: drop with a reason, pass with a reason, or pass
  unless the deduplication key was seen before.
\<close>

datatype decision =
    Drop string
  | Pass flow_data string
  | Pass_once u64 flow_data string

definition heartbleed_key :: "npu \<Rightarrow> flow_data \<Rightarrow> u64" where
  "heartbleed_key np f =
     hash_combine (hash_combine (hash_combine 0 (h32 (np_hash np) (dst_ip (flow_id f))))
       (h16 (np_hash np) (dst_port (flow_id f)))) (h64 (np_hash np) 0xDEADBEEF)"

definition smb_key :: "npu \<Rightarrow> flow_data \<Rightarrow> u64" where
  "smb_key np f =
     hash_combine (hash_combine (hash_combine 0
       (h32 (np_hash np) (min (src_ip (flow_id f)) (dst_ip (flow_id f)))))
       (h32 (np_hash np) (max (src_ip (flow_id f)) (dst_ip (flow_id f))))) (h64 (np_hash np) 0xDEAD0017)"

definition rat_key :: "npu \<Rightarrow> flow_data \<Rightarrow> u64" where
  "rat_key np f =
     (let sp = bswap16 (src_port (flow_id f)); dp = bswap16 (dst_port (flow_id f));
          server_ip = (if sp < dp then src_ip (flow_id f) else dst_ip (flow_id f));
          server_port = min sp dp
      in hash_combine (hash_combine (hash_combine 0 (h32 (np_hash np) server_ip))
           (h64 (np_hash np) (ucast server_port))) (h64 (np_hash np) 0xDEADC2C2))"

definition payload_key :: "npu \<Rightarrow> flow_data \<Rightarrow> u64" where
  "payload_key np f =
     fold (\<lambda>b seed. hash_combine seed (h64 (np_hash np) (ucast b))) (take 256 (payload f))
       (hash_combine (hash_combine 0 (h32 (np_hash np) (dst_ip (flow_id f)))) (h16 (np_hash np) (dst_port (flow_id f))))"

definition transfer_tag :: "flow_data \<Rightarrow> string" where
  "transfer_tag f = (if dst_is_external (dst_ip (flow_id f)) then ''Data Exfiltration'' else ''Suspicious Transfer'')"

text \<open>The threat feed: a signature match decides in live mode, anything else is left to the model.\<close>

definition feed_decision :: "npu \<Rightarrow> flow_data \<Rightarrow> decision option" where
  "feed_decision np f =
     (if feed_empty (np_feed np) then None
      else
        (let sg = match_signature (np_feed np) (normalized f);
             bad_ip = (is_bad_ip (np_feed np) (dotted_quad (src_ip (flow_id f))) \<or>
                       is_bad_ip (np_feed np) (dotted_quad (dst_ip (flow_id f))))
         in case sg of
              Some s \<Rightarrow> Some (Pass (if \<not> is_forensic (np_cfg np) then f\<lparr>protocol_tag := sig_severity s\<rparr> else f) ''threat-intel'')
            | None \<Rightarrow> if bad_ip then Some (Pass f ''threat-intel'') else None))"

text \<open>The last stage: de-obfuscated injections, the behavioral mark, the model or the statistics.\<close>

definition anomaly_decision :: "npu \<Rightarrow> flow_data \<Rightarrow> decision" where
  "anomaly_decision np f =
     (let suspicious = detect_obfuscated_injection (normalized f) \<or> behavioral_suspect f \<or> model_verdict np f
      in if suspicious \<and> payload f \<noteq> [] \<and> text_share (payload f) < 85 / 100 then Drop ''binary''
         else if suspicious then Pass_once (payload_key np f) f ''anomaly''
         else Drop ''statistical'')"

definition detector_decision :: "npu \<Rightarrow> flow_data \<Rightarrow> decision" where
  "detector_decision np f =
     (if detect_heartbleed (payload f) then Pass_once (heartbleed_key np f) (f\<lparr>protocol_tag := ''Heartbleed''\<rparr>) ''heartbleed''
      else if detect_smb_exploit (flow_id f) (payload f)
      then Pass_once (smb_key np f) (f\<lparr>protocol_tag := ''SMB Exploit''\<rparr>) ''smb-exploit''
      else if detect_spnego (payload f) then Drop ''SPNEGO''
      else if detect_http_bruteforce (payload f) then Pass (f\<lparr>protocol_tag := ''Brute Force''\<rparr>) ''http-bruteforce''
      else if detect_benign_http (np_header_pattern np) (payload f) then Drop ''benign HTTP''
      else if detect_credential_content (payload f) then Pass (f\<lparr>protocol_tag := transfer_tag f\<rparr>) ''credential-content''
      else if detect_ftp_activity (payload f) then Pass (f\<lparr>protocol_tag := transfer_tag f\<rparr>) ''ftp-exfil''
      else if detect_rat_protocol (flow_id f) (payload f)
      then Pass_once (rat_key np f) (f\<lparr>protocol_tag := ''RAT C2''\<rparr>) ''rat-c2''
      else anomaly_decision np f)"

definition decide :: "npu \<Rightarrow> flow_data \<Rightarrow> decision option" where
  "decide np f = do {
     let f = f\<lparr>normalized := normalize_payload (payload f)\<rparr>;
     (tls, f) \<leftarrow> inspect_tls np f;
     let tls = (if tls = 2 \<and> detect_heartbleed (payload f) then 0 else tls);
     Some (if tls = 1 then Pass f ''tls-suspicious''
           else if tls = 2 then Drop ''tls-benign''
           else (case feed_decision np f of Some d \<Rightarrow> d | None \<Rightarrow> detector_decision np f))
   }"

section \<open>Carrying it out\<close>

definition flow_priority :: "flow_data \<Rightarrow> int" where
  "flow_priority f = (if protocol_tag f \<noteq> [] \<or> behavioral_suspect f then 2 else 1)"

definition emit_flow_event :: "npu \<Rightarrow> flow_data \<Rightarrow> flow_action \<Rightarrow> string \<Rightarrow> npu_state \<Rightarrow> npu_state" where
  "emit_flow_event np f act reason st =
     (if \<not> np_callback np then st
      else st\<lparr>flow_events := flow_events st @
             [\<lparr>ev_connection = flow_id f, ev_action = act, ev_reason = reason, ev_payload_size = length (payload f)\<rparr>]\<rparr>)"

definition drop_flow :: "npu \<Rightarrow> flow_data \<Rightarrow> string \<Rightarrow> npu_state \<Rightarrow> npu_state" where
  "drop_flow np f reason st =
     emit_flow_event np f Filtered reason (st\<lparr>filtered_count := filtered_count st + 1\<rparr>)"

definition pass_flow :: "npu \<Rightarrow> flow_data \<Rightarrow> string \<Rightarrow> npu_state \<Rightarrow> npu_state" where
  "pass_flow np f reason st =
     (let st = emit_flow_event np f PassedToLLM reason (st\<lparr>passed_count := passed_count st + 1\<rparr>)
      in st\<lparr>filter_out := filter_out st @ [(flow_priority f, f)]\<rparr>)"

definition carry_out :: "npu \<Rightarrow> flow_data \<Rightarrow> decision \<Rightarrow> npu_state \<Rightarrow> npu_state" where
  "carry_out np f d st =
     (case d of
        Drop reason \<Rightarrow> drop_flow np f reason st
      | Pass f' reason \<Rightarrow> pass_flow np f' reason st
      | Pass_once key f' reason \<Rightarrow>
          if key \<in> set (seen_payload_hashes st)
          then drop_flow np f ''dedup'' (st\<lparr>dedup_count := dedup_count st + 1\<rparr>)
          else pass_flow np f' reason (st\<lparr>seen_payload_hashes := key # seen_payload_hashes st\<rparr>))"

definition filter_flow :: "npu \<Rightarrow> flow_data \<Rightarrow> npu_state \<Rightarrow> npu_state option" where
  "filter_flow np f st =
     (if payload f = [] then Some (drop_flow np f ''empty'' st)
      else
        (let st = (if max_payload_hashes < length (seen_payload_hashes st) then st\<lparr>seen_payload_hashes := []\<rparr> else st)
         in map_option (\<lambda>d. carry_out np f d st) (decide np f)))"

text \<open>The loop on the flows it takes from the queue.\<close>

definition filter_worker :: "npu \<Rightarrow> flow_data list \<Rightarrow> npu_state \<Rightarrow> npu_state option" where
  "filter_worker np = run_stage (filter_flow np)"

section \<open>Every flow is accounted for\<close>

definition same_flow :: "flow_data \<Rightarrow> flow_data \<Rightarrow> bool" where
  "same_flow f f' =
     (flow_id f' = flow_id f \<and> payload f' = payload f \<and> behavioral_suspect f' = behavioral_suspect f \<and>
      timestamp f' = timestamp f \<and> packet_count f' = packet_count f)"

definition decides_for :: "flow_data \<Rightarrow> decision \<Rightarrow> bool" where
  "decides_for f d = (case d of Drop r \<Rightarrow> True | Pass f' r \<Rightarrow> same_flow f f' | Pass_once k f' r \<Rightarrow> same_flow f f')"

lemma inspect_tls_same: "inspect_tls np f = Some (t, f') \<Longrightarrow> same_flow f f' \<and> normalized f' = normalized f"
  by (auto simp: inspect_tls_def same_flow_def Let_def split: bind_splits if_splits)

lemma inspect_tls_total: "\<not> empty_name_at_end (payload f) \<Longrightarrow> inspect_tls np f \<noteq> None"
  using parse_tls_None[of "payload f" no_tls_info]
  by (cases "parse_tls_client_hello (payload f) no_tls_info") (auto simp: inspect_tls_def Let_def)

lemma same_flow_tag [simp]: "same_flow f (g\<lparr>protocol_tag := t\<rparr>) = same_flow f g"
  by (simp add: same_flow_def)

lemma feed_decision_same: "same_flow f g \<Longrightarrow> feed_decision np g = Some d \<Longrightarrow> decides_for f d"
  by (auto simp: feed_decision_def Let_def decides_for_def split: if_splits option.splits)

lemma detector_decision_same: "same_flow f g \<Longrightarrow> decides_for f (detector_decision np g)"
  by (simp add: detector_decision_def anomaly_decision_def Let_def decides_for_def)

lemma decide_same: "decide np f = Some d \<Longrightarrow> decides_for f d"
proof -
  assume d: "decide np f = Some d"
  let ?f = "f\<lparr>normalized := normalize_payload (payload f)\<rparr>"
  obtain t g where g: "inspect_tls np ?f = Some (t, g)"
    using d by (auto simp: decide_def Let_def split: bind_splits)
  then have "same_flow f g" using inspect_tls_same[OF g] by (simp add: same_flow_def)
  with d g feed_decision_same[OF this] detector_decision_same[OF this] show ?thesis
    by (auto simp: decide_def Let_def decides_for_def split: if_splits option.splits)
qed

lemma decide_total: "\<not> empty_name_at_end (payload f) \<Longrightarrow> decide np f \<noteq> None"
  using inspect_tls_total[of "f\<lparr>normalized := normalize_payload (payload f)\<rparr>" np]
  by (auto simp: decide_def Let_def split: bind_splits)

text \<open>What the stage has done with the flows it has taken so far.\<close>

definition flow_key :: "flow_data \<Rightarrow> connection_id \<times> bytes" where
  "flow_key f = (flow_id f, payload f)"

definition flows_accounted :: "npu \<Rightarrow> flow_data list \<Rightarrow> npu_state \<Rightarrow> bool" where
  "flows_accounted np fs st =
     (passed_count st + filtered_count st = length fs \<and> dedup_count st \<le> filtered_count st \<and>
      length (filter_out st) = passed_count st \<and>
      subseq (map (\<lambda>(p, f). flow_key f) (filter_out st)) (map flow_key fs) \<and>
      (\<forall>(p, f) \<in> set (filter_out st). p = flow_priority f \<and> payload f \<noteq> []) \<and>
      distinct (seen_payload_hashes st) \<and> length (seen_payload_hashes st) \<le> max_payload_hashes + 1 \<and>
      (np_callback np \<longrightarrow>
         map ev_connection (flow_events st) = map flow_id fs \<and>
         length (filter (\<lambda>e. ev_action e = PassedToLLM) (flow_events st)) = passed_count st))"

lemma accounted_drop:
  "flows_accounted np fs st \<Longrightarrow> flows_accounted np (fs @ [f]) (drop_flow np f r st)"
  "flows_accounted np fs st \<Longrightarrow> flows_accounted np (fs @ [f]) (drop_flow np f r (st\<lparr>dedup_count := Suc (dedup_count st)\<rparr>))"
  by (auto simp: flows_accounted_def drop_flow_def emit_flow_event_def)

lemma accounted_pass:
  assumes "flows_accounted np fs st" and "same_flow f f'" and "payload f \<noteq> []"
  shows "flows_accounted np (fs @ [f]) (pass_flow np f' r st)"
proof -
  have k: "flow_key f' = flow_key f" "flow_id f' = flow_id f" "payload f' \<noteq> []"
    using assms(2,3) by (simp_all add: same_flow_def flow_key_def)
  have "subseq (map (\<lambda>(p, f). flow_key f) (filter_out st) @ [flow_key f']) (map flow_key fs @ [flow_key f])"
    using assms(1) unfolding k(1) by (intro list_emb_append_mono) (auto simp: flows_accounted_def)
  with assms(1) k show ?thesis
    by (auto simp: flows_accounted_def pass_flow_def emit_flow_event_def Let_def)
qed

lemma accounted_seen:
  "flows_accounted np fs st \<Longrightarrow> distinct ks \<Longrightarrow> length ks \<le> max_payload_hashes + 1 \<Longrightarrow> flows_accounted np fs (st\<lparr>seen_payload_hashes := ks\<rparr>)"
  by (simp add: flows_accounted_def)

lemma accounted_carry_out:
  assumes "flows_accounted np fs st" and "length (seen_payload_hashes st) \<le> max_payload_hashes" and "decides_for f d"
    and "payload f \<noteq> []"
  shows "flows_accounted np (fs @ [f]) (carry_out np f d st)"
proof (cases d)
  case (Pass_once k f' r)
  have "flows_accounted np fs (st\<lparr>seen_payload_hashes := k # seen_payload_hashes st\<rparr>)" if "k \<notin> set (seen_payload_hashes st)"
    using assms(1,2) that by (intro accounted_seen) (auto simp: flows_accounted_def)
  with accounted_pass[OF this _ assms(4)] assms show ?thesis
    by (auto simp: Pass_once carry_out_def decides_for_def accounted_drop)
qed (use assms in \<open>auto simp: carry_out_def decides_for_def accounted_drop accounted_pass\<close>)

lemma accounted_filter_flow:
  assumes "flows_accounted np fs st" and "filter_flow np f st = Some st'"
  shows "flows_accounted np (fs @ [f]) st'"
proof (cases "payload f = []")
  case True
  with assms show ?thesis by (auto simp: filter_flow_def accounted_drop)
next
  case False
  let ?st = "if max_payload_hashes < length (seen_payload_hashes st) then st\<lparr>seen_payload_hashes := []\<rparr> else st"
  obtain d where d: "decide np f = Some d" "st' = carry_out np f d ?st"
    using assms(2) False by (auto simp: filter_flow_def Let_def)
  have "flows_accounted np fs ?st" "length (seen_payload_hashes ?st) \<le> max_payload_hashes"
    using assms(1) accounted_seen[OF assms(1), of "[]"] by auto
  with accounted_carry_out[OF this decide_same[OF d(1)] False] d(2) show ?thesis by simp
qed

interpretation filter_stage: stage "filter_flow np" "\<lambda>f. \<not> empty_name_at_end (payload f)" "flows_accounted np" for np
proof
  show "filter_flow np f st \<noteq> None" if "\<not> empty_name_at_end (payload f)" for f st
    using decide_total[OF that] by (simp add: filter_flow_def Let_def)
qed (rule accounted_filter_flow)

section \<open>The detectors behind the shortcuts\<close>

lemma decide_not_tls:
  assumes "inspect_tls np (f\<lparr>normalized := normalize_payload (payload f)\<rparr>) = Some (t, g)"
    and "t = 0 \<or> t = 2 \<and> detect_heartbleed (payload f)" and "feed_empty (np_feed np)"
  shows "decide np f = Some (detector_decision np g)"
proof -
  have "payload g = payload f" using inspect_tls_same[OF assms(1)] by (simp add: same_flow_def)
  with assms show ?thesis by (auto simp: decide_def Let_def feed_decision_def)
qed

lemma not_tls: "payload f = [] \<or> hd (payload f) \<noteq> 0x16 \<Longrightarrow> inspect_tls np f = Some (0, f)"
  by (auto simp: inspect_tls_def parse_tls_client_hello_def rd_def hd_conv_nth split: if_splits)

lemma inspect_tls_range: "inspect_tls np f = Some (t, g) \<Longrightarrow> t \<in> {0, 1, 2}"
  by (auto simp: inspect_tls_def Let_def split: bind_splits if_splits)

lemma payload_key_cong:
  "dst_ip (flow_id f) = dst_ip (flow_id g) \<Longrightarrow> dst_port (flow_id f) = dst_port (flow_id g) \<Longrightarrow>
   take 256 (payload f) = take 256 (payload g) \<Longrightarrow> payload_key np f = payload_key np g"
  by (simp add: payload_key_def)

lemma carry_out_seen:
  "seen_payload_hashes (carry_out np f (Pass_once k f' r) st) = List.insert k (seen_payload_hashes st)"
  by (simp add: carry_out_def pass_flow_def drop_flow_def emit_flow_event_def Let_def)

section \<open>Properties\<close>


definition live_filter :: npu where
  "live_filter = \<lparr>np_cfg = default_config, np_hash = \<lparr>h16 = ucast, h32 = ucast, h64 = (\<lambda>v. v)\<rparr>, np_feed = empty_feed,
     np_header_pattern = [0, 0x0D, 0x0A, 0x0D], np_model = None, np_callback = True\<rparr>"


lemma inspect_tls_tags:
  "inspect_tls np f = Some (1, g) \<Longrightarrow> protocol_tag g \<in> {''Malicious TLS Client'', ''C2 Beaconing'', ''Suspicious TLS''}"
  by (auto simp: inspect_tls_def Let_def split: if_splits option.splits bind_splits)

lemma heartbleed_decision:
  assumes "detect_heartbleed (payload f)" and "feed_empty (np_feed np)" and "\<not> empty_name_at_end (payload f)"
  obtains g where "same_flow f g" and "decide np f = Some (Pass g ''tls-suspicious'')"
      and "protocol_tag g \<in> {''Malicious TLS Client'', ''C2 Beaconing'', ''Suspicious TLS''}"
    | g where "same_flow f g" and "decide np f = Some (Pass_once (heartbleed_key np f) g ''heartbleed'')"
      and "protocol_tag g = ''Heartbleed''"
proof -
  let ?f = "f\<lparr>normalized := normalize_payload (payload f)\<rparr>"
  obtain t g where g: "inspect_tls np ?f = Some (t, g)"
    using inspect_tls_total[of ?f np] assms(3) by fastforce
  then have s: "same_flow f g" using inspect_tls_same[OF g] by (simp add: same_flow_def)
  show thesis
  proof (cases "t = 1")
    case True
    with g s inspect_tls_tags[of np ?f g] show thesis by (intro that(1)[of g]) (simp_all add: decide_def Let_def)
  next
    case False
    with inspect_tls_range[OF g] assms(1) have "decide np f = Some (detector_decision np g)"
      by (intro decide_not_tls[OF g _ assms(2)]) auto
    with assms(1) s show thesis
      by (intro that(2)[of "g\<lparr>protocol_tag := ''Heartbleed''\<rparr>"]) (simp_all add: detector_decision_def same_flow_def heartbleed_key_def)
  qed
qed

text \<open>
  the TLS shortcut never hides a Heartbleed record: with an empty feed every flow that holds one is
  passed, either as suspicious TLS or tagged Heartbleed, or was passed for this endpoint before.
\<close>
theorem heartbleed_never_masked:
  assumes "detect_heartbleed (payload f)" and "feed_empty (np_feed np)" and "\<not> empty_name_at_end (payload f)"
  shows "\<exists>g. same_flow f g \<and> (decide np f = Some (Pass g ''tls-suspicious'') \<or>
    decide np f = Some (Pass_once (heartbleed_key np f) g ''heartbleed'') \<and> protocol_tag g = ''Heartbleed'')"
  by (rule heartbleed_decision[OF assms]) blast+

definition heartbleed_request :: bytes where
  "heartbleed_request = [0x18, 0x03, 0x02, 0, 3, 0x01, 0x40, 0]"

theorem heartbleed_never_masked_witness:
  "\<exists>g. decide live_filter (make_flow_data\<lparr>payload := heartbleed_request\<rparr>) = Some (Pass g ''tls-suspicious'') \<or>
     decide live_filter (make_flow_data\<lparr>payload := heartbleed_request\<rparr>) =
       Some (Pass_once (heartbleed_key live_filter (make_flow_data\<lparr>payload := heartbleed_request\<rparr>)) g ''heartbleed'')"
proof -
  have a: "detect_heartbleed (payload (make_flow_data\<lparr>payload := heartbleed_request\<rparr>))" by code_simp
  have b: "feed_empty (np_feed live_filter)" by (simp add: live_filter_def feed_empty_def empty_feed_def)
  have c: "\<not> empty_name_at_end (payload (make_flow_data\<lparr>payload := heartbleed_request\<rparr>))" by code_simp
  from heartbleed_never_masked[OF a b c] show ?thesis by blast
qed

text \<open>
  neither the behavioral mark nor a de-obfuscated injection escalates a flow that an earlier shortcut
  drops: a payload with the bytes NTLMSSP and a zero anywhere is dropped, and so is an HTTP request with a
  clean request line, whatever its headers and body carry.
\<close>
theorem shortcuts_override_escalation:
  assumes "payload f \<noteq> []" and "hd (payload f) \<noteq> 0x16" and "feed_empty (np_feed np)"
    and "\<not> detect_heartbleed (payload f)" and "\<not> detect_smb_exploit (flow_id f) (payload f)"
  shows "(contains (payload f) ntlmssp \<longrightarrow> decide np f = Some (Drop ''SPNEGO'')) \<and>
    (\<not> detect_spnego (payload f) \<and> \<not> detect_http_bruteforce (payload f) \<and>
     detect_benign_http (np_header_pattern np) (payload f) \<longrightarrow> decide np f = Some (Drop ''benign HTTP''))"
proof -
  let ?f = "f\<lparr>normalized := normalize_payload (payload f)\<rparr>"
  have "inspect_tls np ?f = Some (0, ?f)" using assms(2) by (intro not_tls) simp
  from decide_not_tls[OF this _ assms(3)] have d: "decide np f = Some (detector_decision np ?f)" by simp
  have "contains (payload f) ntlmssp \<Longrightarrow> detect_spnego (payload f)"
    by (auto simp: detect_spnego_def contains_iff)
  with assms(4,5) show ?thesis by (simp add: d detector_decision_def)
qed

definition login_injection :: bytes where
  "login_injection = bytes_of (''POST /a HTTP/1.1'' @ [CHR 0x0D, CHR 0x0A, CHR 0x0D, CHR 0x0A] @ ''id=1'' @ [CHR 0x27] @ '' or 1=1'')"

theorem shortcuts_override_escalation_witness:
  "decide live_filter (make_flow_data\<lparr>payload := login_injection, behavioral_suspect := True\<rparr>) = Some (Drop ''benign HTTP'') \<and>
   detect_obfuscated_injection (normalize_payload login_injection)"
proof -
  let ?f = "make_flow_data\<lparr>payload := login_injection, behavioral_suspect := True\<rparr>"
  have a1: "login_injection \<noteq> []" by code_simp
  have a2: "hd login_injection \<noteq> 0x16" by code_simp
  have a3: "\<not> detect_heartbleed login_injection" by code_simp
  have a4: "\<not> detect_spnego login_injection" by code_simp
  have a5: "\<not> detect_http_bruteforce login_injection" by code_simp
  have a6: "detect_benign_http [0, 0x0D, 0x0A, 0x0D] login_injection" by code_simp
  have a7: "detect_obfuscated_injection (normalize_payload login_injection)"
  proof -
    have "normalize_payload login_injection = strip_fold False (percent_decode 3
        (''POST /a HTTP/1.1'' @ [CHR 0x0D, CHR 0x0A, CHR 0x0D, CHR 0x0A] @ ''id=1'' @ [CHR 0x27] @ '' or 1=1''))"
      unfolding login_injection_def by (rule normalize_payload_short) simp
    also have "detect_obfuscated_injection \<dots>" by code_simp
    finally show ?thesis .
  qed
  have b: "\<not> detect_smb_exploit i login_injection" for i
  proof -
    have "length login_injection < 100" by code_simp
    then show ?thesis by (simp add: detect_smb_exploit_def)
  qed
  have "feed_empty (np_feed live_filter)" by (simp add: live_filter_def feed_empty_def empty_feed_def)
  from shortcuts_override_escalation[of ?f, OF _ _ this] a1 a2 a3 a4 a5 a6 a7 b show ?thesis by (simp add: live_filter_def)
qed

text \<open>
  After an anomalous flow was passed, any later anomalous flow to the same address and port with the same
  first 256 payload bytes is dropped as a duplicate, whatever follows those bytes, until the table is cleared.
\<close>
theorem repeated_prefix_dropped:
  assumes "payload f \<noteq> []" and "payload g \<noteq> []"
    and "decide np f = Some (Pass_once (payload_key np f) f' r)" and "decide np g = Some (Pass_once (payload_key np g) g' r')"
    and "dst_ip (flow_id f) = dst_ip (flow_id g)" and "dst_port (flow_id f) = dst_port (flow_id g)"
    and "take 256 (payload f) = take 256 (payload g)"
    and "length (seen_payload_hashes st) < max_payload_hashes"
  shows "filter_worker np [f, g] st = map_option (drop_flow np g ''dedup'')
    (map_option (\<lambda>st. st\<lparr>dedup_count := dedup_count st + 1\<rparr>) (filter_worker np [f] st))"
proof -
  have k: "payload_key np g = payload_key np f" by (rule payload_key_cong[symmetric]) (rule assms)+
  let ?st = "carry_out np f (Pass_once (payload_key np f) f' r) st"
  have f: "filter_flow np f st = Some ?st" using assms(1,3,8) by (simp add: filter_flow_def Let_def)
  have "payload_key np f \<in> set (seen_payload_hashes ?st)" "length (seen_payload_hashes ?st) \<le> max_payload_hashes"
    using assms(8) by (simp_all add: carry_out_seen List.insert_def)
  then have "filter_flow np g ?st = Some (drop_flow np g ''dedup'' (?st\<lparr>dedup_count := dedup_count ?st + 1\<rparr>))"
    using assms(2,4) k by (simp add: filter_flow_def Let_def carry_out_def)
  with f show ?thesis by (simp add: filter_worker_def)
qed

definition suspect_flow :: "u32 \<Rightarrow> flow_data" where
  "suspect_flow src = make_flow_data\<lparr>flow_id := empty_id\<lparr>src_ip := src\<rparr>, payload := [0x41, 0x42, 0x43], behavioral_suspect := True\<rparr>"

theorem repeated_prefix_dropped_witness:
  "filter_worker live_filter [suspect_flow 1, suspect_flow 2] initial_npu_state =
     map_option (drop_flow live_filter (suspect_flow 2) ''dedup'')
       (map_option (\<lambda>st. st\<lparr>dedup_count := dedup_count st + 1\<rparr>) (filter_worker live_filter [suspect_flow 1] initial_npu_state))"
proof -
  have e: "feed_empty (np_feed live_filter)" by (simp add: live_filter_def feed_empty_def empty_feed_def)
  have p: "payload (suspect_flow i) = [0x41, 0x42, 0x43]" "behavioral_suspect (suspect_flow i)" for i
    by (simp_all add: suspect_flow_def)
  have d: "decide live_filter (suspect_flow i) =
      Some (Pass_once (payload_key live_filter (suspect_flow i))
        ((suspect_flow i)\<lparr>normalized := normalize_payload (payload (suspect_flow i))\<rparr>) ''anomaly'')" for i
  proof -
    let ?f = "(suspect_flow i)\<lparr>normalized := normalize_payload (payload (suspect_flow i))\<rparr>"
    have "inspect_tls live_filter ?f = Some (0, ?f)" by (intro not_tls) (simp add: p)
    from decide_not_tls[OF this _ e] have "decide live_filter (suspect_flow i) = Some (detector_decision live_filter ?f)"
      by simp
    also have "detector_decision live_filter ?f = anomaly_decision live_filter ?f"
      by (simp add: detector_decision_def p detect_heartbleed_def detect_smb_exploit_def detect_spnego_def
          spnego_oid_def ntlmssp_def detect_http_bruteforce_def detect_benign_http_def detect_credential_content_def
          detect_ftp_activity_def detect_rat_protocol_def)
    also have "\<dots> = Pass_once (payload_key live_filter ?f) ?f ''anomaly''"
      by (simp add: anomaly_decision_def p text_share_def printable_byte_def)
    also have "payload_key live_filter ?f = payload_key live_filter (suspect_flow i)" by (rule payload_key_cong) simp_all
    finally show ?thesis .
  qed
  show ?thesis
    by (rule repeated_prefix_dropped[OF _ _ d d]) (simp_all add: p, simp_all add: suspect_flow_def empty_id_def
      initial_npu_state_def max_payload_hashes_def)
qed

end
