(* ===== verification/Llm_Prompt.thy ===== *)
theory Llm_Prompt
  imports Alert_Json
begin

text \<open>
  What \<^verbatim>\<open>src/llm_inference.cpp\<close> does around the model: the neutralisation of attacker text, the
  context block, the normalisation of threat types and the two checks every answer has to pass.  The
  lemmas show that no control token of the chat template and no section marker survives in the text that
  enters the prompt.
\<close>

section \<open>Neutralising the payload\<close>

definition sanitize_for_prompt :: "string \<Rightarrow> string" where
  "sanitize_for_prompt s =
     (let s = replace_all ''<|'' ''< |'' s;
          s = replace_all ''|>'' ''| >'' s;
          s = replace_all ''[Context]'' ''(Context)'' s;
          s = replace_all ''[Payload]'' ''(Payload)'' s
      in replace_all ''[Decoded]'' ''(Decoded)'' s)"

section \<open>The context block\<close>

definition server_ports :: "nat list" where
  "server_ports = [20, 21, 22, 23, 25, 53, 80, 110, 143, 443, 445, 993, 995, 3306, 3389, 5432, 8080, 8443]"

definition is_server_port :: "u16 \<Rightarrow> bool" where
  "is_server_port p = (unat p \<in> set server_ports)"

definition port_hints :: "(nat \<times> string) list" where
  "port_hints =
     [(80, ''HTTP''), (8080, ''HTTP''), (443, ''HTTPS/TLS''), (8443, ''HTTPS/TLS''), (22, ''SSH''), (53, ''DNS''),
      (25, ''SMTP''), (21, ''FTP''), (445, ''SMB''), (3306, ''MySQL''), (5432, ''PostgreSQL''), (3389, ''RDP''),
      (110, ''POP3''), (143, ''IMAP'')]"

definition protocol_from_ports :: "u16 \<Rightarrow> u16 \<Rightarrow> string" where
  "protocol_from_ports sp dp =
     (case map_of port_hints (unat dp) of
        Some h \<Rightarrow> h
      | None \<Rightarrow> (case map_of port_hints (unat sp) of Some h \<Rightarrow> h | None \<Rightarrow> ''Unknown''))"

definition http_methods :: "string list" where
  "http_methods = [''GET'', ''POST'', ''PUT'', ''DELETE'', ''HEAD'', ''OPTIONS'', ''PATCH'', ''CONNECT'', ''TRACE'']"

definition head_line :: "string \<Rightarrow> string" where
  "head_line text =
     (let l = takeWhile (\<lambda>c. c \<noteq> CHR 0x0D \<and> c \<noteq> CHR 0x0A) text
      in if length l = length text then take 128 text else l)"

definition detect_http_line :: "string \<Rightarrow> string" where
  "detect_http_line text =
     (let fl = head_line text in
      if list_ex (\<lambda>m. length m < length fl \<and> starts_with m fl \<and> fl ! length m = CHR '' '') http_methods
      then ''HTTP Request: '' @ fl
      else if 12 < length fl \<and> take 5 fl = ''HTTP/'' then ''HTTP Response: '' @ fl
      else [])"

definition nl :: string where "nl = [CHR 0x0A]"

definition flow_direction :: "u16 \<Rightarrow> u16 \<Rightarrow> string" where
  "flow_direction sp dp =
     (if is_server_port dp \<and> \<not> is_server_port sp then ''client -> server (request)''
      else if is_server_port sp \<and> \<not> is_server_port dp then ''server -> client (response)''
      else ''unknown'')"

definition build_flow_context :: "flow_data \<Rightarrow> string \<Rightarrow> string" where
  "build_flow_context f payload_str =
     (let sp = bswap16 (src_port (flow_id f)); dp = bswap16 (dst_port (flow_id f));
          http_line = detect_http_line payload_str
      in ''[Context]'' @ nl @
         ''Direction: '' @ flow_direction sp dp @ nl @
         ''Src: '' @ dotted_quad (src_ip (flow_id f)) @ '':'' @ nat_to_string (unat sp) @ nl @
         ''Dst: '' @ dotted_quad (dst_ip (flow_id f)) @ '':'' @ nat_to_string (unat dp) @ nl @
         ''Protocol: '' @ protocol_from_ports sp dp @ nl @
         (if http_line \<noteq> [] then http_line @ nl else []) @
         ''Packets: '' @ nat_to_string (packet_count f) @ nl @
         ''Payload size: '' @ nat_to_string (length (payload f)) @ '' bytes'' @ nl @
         nl @ ''[Payload]'' @ nl)"

section \<open>Checks on the answer\<close>

definition benign_header_prefixes :: "string list" where
  "benign_header_prefixes =
     [''X-XSS-Protection'', ''X-Content-Type-Options'', ''X-Frame-Options'', ''Content-Security-Policy'',
      ''Strict-Transport-Security'', ''X-Permitted-Cross-Domain'', ''Referrer-Policy'', ''Permissions-Policy'',
      ''Feature-Policy'', ''X-Download-Options'', ''X-DNS-Prefetch-Control'', ''Cross-Origin-Opener-Policy'',
      ''Cross-Origin-Embedder-Policy'', ''Cross-Origin-Resource-Policy'', ''Set-Cookie'', ''WWW-Authenticate'',
      ''Authorization: Bearer'', ''Authorization: Basic'']"

definition response_threats :: "string list" where
  "response_threats =
     [''Heartbleed'', ''Data Exfiltration'', ''Credential Theft'', ''DNS Exfiltration'', ''Session Hijacking'',
      ''SMB Exploit'', ''RAT C2'', ''C2 Beaconing'', ''Reverse Shell'', ''Webshell'', ''Ransomware C2'',
      ''Botnet Communication'', ''Malware Payload'', ''Dropper Download'', ''Cryptominer Traffic'']"

definition crlf2 :: string where "crlf2 = [CHR 0x0D, CHR 0x0A, CHR 0x0D, CHR 0x0A]"

definition only_in_headers :: "string \<Rightarrow> string \<Rightarrow> bool" where
  "only_in_headers text snippet =
     (if 9 < length text \<and> take 5 text = ''HTTP/'' then
        (let header_end = (case find_sub crlf2 text of None \<Rightarrow> length text | Some h \<Rightarrow> h);
             in_headers = contains (take header_end text) snippet;
             in_body = (header_end + 4 < length text \<and> contains (drop (header_end + 4) text) snippet)
         in in_headers \<and> \<not> in_body)
      else False)"

definition attack_char :: "char \<Rightarrow> bool" where
  "attack_char c = (c \<in> set ''<>;|&${}()`'' \<or> c = CHR 0x27 \<or> c = dq \<or> c = bsl)"

definition has_attack_syntax :: "string \<Rightarrow> bool" where
  "has_attack_syntax snippet =
     (if list_ex attack_char snippet then True
      else contains snippet ''../'' \<or> contains snippet ''://'' \<or> contains snippet ''--'')"

definition is_false_positive :: "string \<Rightarrow> string \<Rightarrow> string \<Rightarrow> flow_data \<Rightarrow> bool" where
  "is_false_positive threat_type snippet payload_str f =
     (if list_ex (\<lambda>prefix. starts_with prefix snippet) benign_header_prefixes then True
      else if only_in_headers payload_str snippet then True
      else if is_server_port (bswap16 (src_port (flow_id f))) \<and> threat_type \<notin> set response_threats then True
      else if threat_type = ''Data Exfiltration'' \<or> threat_type = ''Credential Theft'' then False
      else \<not> has_attack_syntax snippet)"

definition payload_contains_snippet :: "string \<Rightarrow> string \<Rightarrow> bool" where
  "payload_contains_snippet payload_str snippet =
     (if snippet = [] \<or> payload_str = [] then False
      else if contains payload_str snippet then True
      else contains (to_lower payload_str) (to_lower snippet))"

definition threat_aliases :: "(string \<times> string) list" where
  "threat_aliases =
     [(''SQL Injection'', ''SQLi''), (''SQL injection'', ''SQLi''), (''sql injection'', ''SQLi''),
      (''Cross-Site Scripting'', ''XSS''), (''cross-site scripting'', ''XSS''),
      (''Server-Side Template Injection'', ''SSTI''), (''Server-Side Request Forgery'', ''SSRF''),
      (''Remote Code Execution'', ''Command Injection''), (''RCE'', ''Command Injection''),
      (''OS Command Injection'', ''Command Injection''), (''command injection'', ''Command Injection''),
      (''Directory Traversal'', ''Path Traversal''), (''Local File Inclusion'', ''File Inclusion''),
      (''Remote File Inclusion'', ''File Inclusion''), (''LFI'', ''File Inclusion''), (''RFI'', ''File Inclusion''),
      (''XML External Entity'', ''XXE''), (''Insecure Deserialization'', ''Deserialization Attack''),
      (''HTTP Smuggling'', ''HTTP Request Smuggling''), (''Request Smuggling'', ''HTTP Request Smuggling''),
      (''Header Injection'', ''CRLF Injection''), (''Log4j'', ''Log4Shell''), (''CVE-2021-44228'', ''Log4Shell''),
      (''CVE-2014-6271'', ''Shellshock''), (''CVE-2014-0160'', ''Heartbleed''), (''CVE-2022-22965'', ''Spring4Shell''),
      (''EternalBlue'', ''SMB Exploit''), (''MS17-010'', ''SMB Exploit''), (''Reverse TCP'', ''Reverse Shell''),
      (''Bind Shell'', ''Reverse Shell''), (''Web Shell'', ''Webshell''), (''RAT'', ''RAT C2''), (''Trojan'', ''RAT C2''),
      (''Backdoor'', ''RAT C2''), (''Ransomware'', ''Ransomware C2''), (''Crypto Miner'', ''Cryptominer Traffic''),
      (''Cryptojacking'', ''Cryptominer Traffic''), (''Botnet'', ''Botnet Communication''),
      (''Bot C2'', ''Botnet Communication''), (''Exfiltration'', ''Data Exfiltration''),
      (''Data Theft'', ''Data Exfiltration''), (''Data Leak'', ''Data Exfiltration''),
      (''Credential Stuffing Attack'', ''Credential Stuffing''), (''Password Brute Force'', ''Brute Force''),
      (''Login Brute Force'', ''Brute Force''), (''SYN Flood'', ''DDoS''), (''DoS'', ''DDoS''),
      (''Denial of Service'', ''DDoS''), (''Port Scanning'', ''Port Scan''), (''Network Scan'', ''Port Scan''),
      (''Reconnaissance'', ''Port Scan''), (''DNS Tunnel'', ''DNS Tunneling''), (''DNS Exfil'', ''DNS Exfiltration''),
      (''MITM'', ''TLS Downgrade''), (''Man-in-the-Middle'', ''TLS Downgrade''), (''SSL Stripping'', ''TLS Downgrade'')]"

definition canonical_threat :: "string \<Rightarrow> string" where
  "canonical_threat t = (case map_of threat_aliases t of Some c \<Rightarrow> c | None \<Rightarrow> t)"

text \<open>The threat types the system prompt allows the model to name, in its order.\<close>

definition prompt_threat_types :: "string list" where
  "prompt_threat_types =
     [''SQLi'', ''XSS'', ''SSTI'', ''SSRF'', ''Command Injection'', ''Path Traversal'', ''XXE'', ''File Inclusion'',
      ''LDAP Injection'', ''XPath Injection'', ''NoSQL Injection'', ''Deserialization Attack'', ''Malicious File Upload'',
      ''CSRF'', ''Open Redirect'', ''HTTP Response Splitting'', ''CRLF Injection'', ''HTTP Request Smuggling'',
      ''Prototype Pollution'', ''Log4Shell'', ''Shellshock'', ''Spring4Shell'', ''Apache Struts RCE'', ''Heartbleed'',
      ''SMB Exploit'', ''RAT C2'', ''C2 Beaconing'', ''Reverse Shell'', ''Webshell'', ''Ransomware C2'',
      ''Cryptominer Traffic'', ''Botnet Communication'', ''Worm Propagation Scan'', ''Dropper Download'',
      ''Malware Payload'', ''Data Exfiltration'', ''Credential Theft'', ''DNS Exfiltration'', ''Session Hijacking'',
      ''Brute Force'', ''SSH Brute Force'', ''Credential Stuffing'', ''Password Spraying'', ''Kerberoasting'', ''DDoS'',
      ''Slowloris'', ''HTTP Flood'', ''DNS Amplification'', ''ReDoS'', ''Port Scan'', ''Directory Enumeration'',
      ''Version Fingerprinting'', ''Vulnerability Scanning'', ''User Enumeration'', ''DNS Tunneling'', ''DNS Rebinding'',
      ''DNS Poisoning'', ''TLS Downgrade'', ''SMTP Relay Abuse'']"

section \<open>Replacement removes its pattern\<close>

lemma contains_around:
  assumes "a \<notin> set pat" and "pat \<noteq> []"
  shows "contains (u @ a # v) pat \<longleftrightarrow> contains u pat \<or> contains v pat"
proof
  assume "contains (u @ a # v) pat"
  then obtain x y where e: "u @ a # v = x @ pat @ y" by (auto simp: contains_iff)
  from e consider (left) us where "u = x @ us" "us @ a # v = pat @ y" | (right) us where "u @ us = x" "a # v = us @ pat @ y"
    by (auto simp: append_eq_append_conv2)
  then show "contains u pat \<or> contains v pat"
  proof cases
    case left
    then obtain zs where "us = pat @ zs \<and> zs @ a # v = y \<or> us @ zs = pat \<and> a # v = zs @ y"
      by (auto simp: append_eq_append_conv2)
    then show ?thesis
    proof
      assume "us = pat @ zs \<and> zs @ a # v = y"
      with left(1) show ?thesis by (auto simp: contains_iff)
    next
      assume z: "us @ zs = pat \<and> a # v = zs @ y"
      with assms(1) have "zs = []" by (cases zs) auto
      with z left(1) have "u = x @ pat @ []" by simp
      then show ?thesis unfolding contains_iff by blast
    qed
  next
    case right
    with assms have "us \<noteq> []" by (cases pat) auto
    then obtain us' where "us = a # us'" using right(2) by (cases us) auto
    with right(2) have "v = us' @ pat @ y" by simp
    then show ?thesis by (auto simp: contains_iff)
  qed
next
  assume "contains u pat \<or> contains v pat"
  then show "contains (u @ a # v) pat"
    using contains_append[of u pat "[]" "a # v"] contains_append[of v pat "u @ [a]" "[]"] by auto
qed

lemma replace_all_step:
  assumes "old \<noteq> []" and "find_sub old s = Some i"
  obtains u rest where "s = u @ old @ rest" and "\<not> contains (u @ butlast old) old"
    and "replace_all old new s = u @ new @ replace_all old new rest"
proof -
  let ?u = "take i s" and ?r = "drop (i + length old) s"
  have s: "s = ?u @ old @ ?r" by (rule find_sub_decomp[OF assms(2)])
  have "\<not> contains (?u @ butlast old) old"
  proof
    assume "contains (?u @ butlast old) old"
    then obtain x y where e: "?u @ butlast old = x @ old @ y" by (auto simp: contains_iff)
    have l: "length x + length old \<le> length (?u @ butlast old)" unfolding e by simp
    then have x: "length x < i" using assms(1) find_sub_bound[OF assms(2)] by (cases old rule: rev_cases) auto
    have "s = (?u @ butlast old) @ [last old] @ ?r" using s assms(1) by (metis append.assoc append_butlast_last_id)
    then have "s = x @ old @ (y @ [last old] @ ?r)" unfolding e by simp
    then have "starts_with old (drop (length x) s)" by (metis append_eq_conv_conj starts_with_append)
    with find_sub_least[OF assms(2) x] show False by simp
  qed
  moreover have "replace_all old new s = ?u @ new @ replace_all old new ?r"
    using assms by (subst replace_all.simps) simp
  ultimately show ?thesis using s that by blast
qed

lemma replace_all_None: "find_sub old s = None \<Longrightarrow> replace_all old new s = s"
  by (subst replace_all.simps) simp

lemma contains_prefix: "\<not> contains (u @ v) pat \<Longrightarrow> \<not> contains u pat"
  using contains_append[of u pat "[]" v] by auto

lemma contains_suffix: "\<not> contains (u @ v) pat \<Longrightarrow> \<not> contains v pat"
  using contains_append[of v pat u "[]"] by auto

text \<open>
  A replacement guarded by a character the pattern does not have cannot create the pattern: the text before
  that character and the text after it are checked on their own.
\<close>

lemma replace_all_clean:
  assumes "old \<noteq> []" and "pat \<noteq> []" and "new = p @ a # m" and "a \<notin> set pat"
    and "\<And>u rest. P (u @ old @ rest) \<Longrightarrow> \<not> contains (u @ butlast old) old \<Longrightarrow> \<not> contains (u @ p) pat"
    and "\<And>t. \<not> contains t pat \<Longrightarrow> \<not> contains (m @ t) pat"
    and "\<And>u rest. P (u @ rest) \<Longrightarrow> P rest" and "\<And>s. P s \<Longrightarrow> find_sub old s = None \<Longrightarrow> \<not> contains s pat"
    and "P s"
  shows "\<not> contains (replace_all old new s) pat"
  using assms(9)
proof (induction "length s" arbitrary: s rule: less_induct)
  case less
  show ?case
  proof (cases "find_sub old s")
    case None
    with assms(8) less.prems show ?thesis by (simp add: replace_all_None)
  next
    case (Some i)
    obtain u rest where s: "s = u @ old @ rest" and u: "\<not> contains (u @ butlast old) old"
      and r: "replace_all old new s = u @ new @ replace_all old new rest"
      by (rule replace_all_step[OF assms(1) Some])
    have "P rest" using assms(7)[of "u @ old" rest] less.prems by (simp add: s)
    moreover have "length rest < length s" using assms(1) by (simp add: s)
    ultimately have "\<not> contains (m @ replace_all old new rest) pat" by (intro assms(6) less.hyps)
    moreover have "\<not> contains (u @ p) pat" using assms(5)[of u rest] u less.prems by (simp add: s)
    ultimately have "\<not> contains ((u @ p) @ a # (m @ replace_all old new rest)) pat"
      using contains_around[OF assms(4,2)] by blast
    moreover have "u @ new @ R = (u @ p) @ a # (m @ R)" for R by (simp add: assms(3))
    ultimately show ?thesis unfolding r by simp
  qed
qed

lemma angle_clean:
  assumes "new = [x, CHR '' '', y]" and "x \<noteq> y" and "x \<noteq> CHR '' ''" and "y \<noteq> CHR '' ''"
  shows "\<not> contains (replace_all [x, y] new s) [x, y]"
proof (rule replace_all_clean[where P = "\<lambda>_. True" and p = "[x]" and a = "CHR '' ''" and m = "[y]"])
  show "\<not> contains (u @ [x]) [x, y]" if "\<not> contains (u @ butlast [x, y]) [x, y]" for u using that by simp
  show "\<not> contains ([y] @ t) [x, y]" if "\<not> contains t [x, y]" for t using that assms(2) by (simp add: contains_Cons)
qed (use assms in \<open>auto simp: contains_def\<close>)

lemma angle_keeps:
  assumes "\<not> contains s ''<|''"
  shows "\<not> contains (replace_all ''|>'' ''| >'' s) ''<|''"
proof (rule replace_all_clean[where P = "\<lambda>s. \<not> contains s ''<|''" and p = "''|''" and a = "CHR '' ''" and m = "''>''"])
  show "\<not> contains (u @ ''|'') ''<|''" if "\<not> contains (u @ ''|>'' @ rest) ''<|''" for u rest
    using that contains_prefix[of "u @ ''|''" "''>'' @ rest"] by simp
  show "\<not> contains (''>'' @ t) ''<|''" if "\<not> contains t ''<|''" for t using that by (simp add: contains_Cons)
  show "\<not> contains rest ''<|''" if "\<not> contains (u @ rest) ''<|''" for u rest by (rule contains_suffix[OF that])
qed (use assms in auto)

lemma bracket_clean:
  assumes "new = CHR ''('' # w @ [CHR '')'']" and "old \<noteq> []" and "pat \<noteq> []" and "CHR ''('' \<notin> set pat"
    and "CHR '')'' \<notin> set pat" and "\<not> contains w pat" and "pat = old \<or> \<not> contains s pat"
  shows "\<not> contains (replace_all old new s) pat"
proof (rule replace_all_clean[where P = "\<lambda>s. pat = old \<or> \<not> contains s pat" and p = "[]" and a = "CHR ''(''" and m = "w @ [CHR '')'']"])
  show "\<not> contains (u @ []) pat" if "pat = old \<or> \<not> contains (u @ old @ rest) pat" "\<not> contains (u @ butlast old) old" for u rest
    using that contains_prefix[of u "old @ rest" pat] contains_prefix[of u "butlast old" old] by auto
  show "\<not> contains ((w @ [CHR '')'']) @ t) pat" if "\<not> contains t pat" for t
    using that contains_around[OF assms(5,3), of w t] assms(6) by simp
  show "pat = old \<or> \<not> contains rest pat" if "pat = old \<or> \<not> contains (u @ rest) pat" for u rest
    using that contains_suffix[of u rest pat] by auto
  show "\<not> contains s pat" if "pat = old \<or> \<not> contains s pat" "find_sub old s = None" for s
    using that by (auto simp: contains_def)
qed (use assms in auto)

definition template_markers :: "string list" where
  "template_markers = [''<|'', ''|>'', ''[Context]'', ''[Payload]'', ''[Decoded]'']"

lemma bracket_step:
  assumes "pat \<in> set template_markers" and "old \<in> set template_markers"
    and "new = CHR ''('' # w @ [CHR '')'']" and "w \<in> {''Context'', ''Payload'', ''Decoded''}"
    and "pat = old \<or> \<not> contains s pat"
  shows "\<not> contains (replace_all old new s) pat"
proof (rule bracket_clean[OF assms(3)])
  show "\<not> contains w pat" using assms(1,4) by (auto simp: template_markers_def contains_Cons)
qed (use assms in \<open>auto simp: template_markers_def\<close>)

lemma sanitize_removes_markers:
  assumes "pat \<in> set template_markers"
  shows "\<not> contains (sanitize_for_prompt s) pat"
proof -
  let ?s1 = "replace_all ''<|'' ''< |'' s"
  let ?s2 = "replace_all ''|>'' ''| >'' ?s1"
  let ?s3 = "replace_all ''[Context]'' ''(Context)'' ?s2"
  let ?s4 = "replace_all ''[Payload]'' ''(Payload)'' ?s3"
  have 2: "\<not> contains ?s2 ''<|''" "\<not> contains ?s2 ''|>''"
    by (rule angle_keeps[OF angle_clean]; simp) (rule angle_clean; simp)
  have 3: "pat = ''<|'' \<or> pat = ''|>'' \<or> pat = ''[Context]'' \<Longrightarrow> \<not> contains ?s3 pat"
    by (rule bracket_step[OF assms, where w = "''Context''"]) (use 2 in \<open>auto simp: template_markers_def\<close>)
  have 4: "pat = ''<|'' \<or> pat = ''|>'' \<or> pat = ''[Context]'' \<or> pat = ''[Payload]'' \<Longrightarrow> \<not> contains ?s4 pat"
    by (rule bracket_step[OF assms, where w = "''Payload''"]) (use 3 in \<open>auto simp: template_markers_def\<close>)
  have "\<not> contains (replace_all ''[Decoded]'' ''(Decoded)'' ?s4) pat"
    by (rule bracket_step[OF assms, where w = "''Decoded''"]) (use 4 assms in \<open>auto simp: template_markers_def\<close>)
  then show ?thesis by (simp add: sanitize_for_prompt_def Let_def)
qed

end
