(* ===== verification/Llm_Inference.thy ===== *)
theory Llm_Inference
  imports Llm_Prompt Config
begin

text \<open>
  The classification stage of \<^verbatim>\<open>src/llm_inference.cpp\<close>: generation with its token window, the
  deterministic alerts of flows a detector has named, and the path of every other flow through the model
  and back.  The language model library is a parameter: the tokenizer, the next token for the tokens seen
  so far, and whether decoding succeeds; so is the text of the system prompt.  The lemmas show what can
  enter the prompt, what an alert of the model must satisfy, and the bounds on its use.
\<close>

section \<open>Generation\<close>

record llama =
  ll_tokenize :: "string \<Rightarrow> int list option"
  ll_batch_ok :: "int \<Rightarrow> bool"
  ll_decode :: "int list \<Rightarrow> bool"
  ll_sample :: "int list \<Rightarrow> int"
  ll_is_eog :: "int \<Rightarrow> bool"
  ll_piece :: "int \<Rightarrow> string"

text \<open>Head and tail of a prompt that is too long; \<open>None\<close> is an iterator before the beginning.\<close>

definition trim_tokens :: "int \<Rightarrow> int list \<Rightarrow> int list option" where
  "trim_tokens max_prompt tokens =
     (if max_prompt < int (length tokens) then
        (let keep_tail = min 1024 (if 0 \<le> max_prompt then max_prompt div 2 else - ((- max_prompt) div 2));
             keep_head = max_prompt - keep_tail
         in if keep_head < 0 \<or> keep_tail < 0 then None
            else Some (take (nat keep_head) tokens @ drop (length tokens - nat keep_tail) tokens))
      else Some tokens)"

text \<open>The sampling loop, with the tokens decoded so far and the rounds left.\<close>

fun generate_loop :: "llama \<Rightarrow> nat \<Rightarrow> int list \<Rightarrow> string \<Rightarrow> string \<times> int list" where
  "generate_loop m 0 ctx response = (response, ctx)"
| "generate_loop m (Suc n) ctx response =
     (let tok = ll_sample m ctx in
      if ll_is_eog m tok then (response, ctx)
      else
        (let response = response @ ll_piece m tok; ctx = ctx @ [tok] in
         if \<not> ll_decode m ctx then (response, ctx) else generate_loop m n ctx response))"

text \<open>
  The batch has room for the prompt and \<open>max_tokens\<close> more; filling in a prompt that is longer than the batch is
  a write outside of it.
\<close>

definition generate_response :: "llama \<Rightarrow> wirewolf_config \<Rightarrow> string \<Rightarrow> string option" where
  "generate_response m cfg prompt =
     (if prompt = [] then Some ''{}''
      else (case ll_tokenize m prompt of
              None \<Rightarrow> Some ''{}''
            | Some tokens \<Rightarrow>
                (case trim_tokens (max_prompt_tokens cfg) tokens of
                   None \<Rightarrow> None
                 | Some tokens \<Rightarrow>
                     if \<not> ll_batch_ok m (int (length tokens) + max_tokens cfg) then Some ''{}''
                     else if int (length tokens) + max_tokens cfg < int (length tokens) \<and> tokens \<noteq> [] then None
                     else if \<not> ll_decode m tokens then Some ''{}''
                     else Some (fst (generate_loop m (nat (max_tokens cfg)) tokens [])))))"

section \<open>The stage\<close>

record llm =
  lm_cfg :: wirewolf_config
  lm_llama :: llama
  lm_sys_prompt :: string
  lm_alert_callback :: bool
  lm_event_callback :: bool

record llm_state =
  llm_runs :: nat
  llm_prompts :: "string list"
  llm_alerts :: "(string \<times> flow_data \<times> string) list"
  llm_events :: "flow_event list"

definition initial_llm_state :: llm_state where
  "initial_llm_state = \<lparr>llm_runs = 0, llm_prompts = [], llm_alerts = [], llm_events = []\<rparr>"

definition raise_alert :: "llm \<Rightarrow> string \<Rightarrow> flow_data \<Rightarrow> string \<Rightarrow> llm_state \<Rightarrow> llm_state" where
  "raise_alert lm result f text st =
     (if lm_alert_callback lm then st\<lparr>llm_alerts := llm_alerts st @ [(result, f, text)]\<rparr> else st)"

section \<open>Flows a detector has named\<close>

definition printable_ascii :: "byte \<Rightarrow> bool" where
  "printable_ascii b = (32 \<le> unat b \<and> unat b \<le> 126)"

definition transfer_preview :: "bytes \<Rightarrow> string" where
  "transfer_preview p =
     concat (map (\<lambda>b. if printable_ascii b then [byte_char b] else if b = 0x0D \<or> b = 0x0A then '' '' else []) (take 512 p))"

definition find_between :: "string \<Rightarrow> string \<Rightarrow> string \<Rightarrow> nat \<Rightarrow> string" where
  "find_between preview start_marker end_marker max_len =
     (case find_sub start_marker preview of None \<Rightarrow> []
      | Some pos \<Rightarrow>
          (let e = (case find_from end_marker preview (pos + length start_marker) of
                      None \<Rightarrow> min (pos + max_len) (length preview) | Some e \<Rightarrow> e)
           in take (e - pos) (drop pos preview)))"

definition word_break :: "char \<Rightarrow> bool" where
  "word_break c = (c \<in> {CHR '' '', CHR 0x0A, CHR 0x0D, CHR 0x09, CHR '','', CHR '';''})"

text \<open>
  The word around the \<open>@\<close> at position \<open>a\<close>.  At position 0 the backward search starts at
  \<open>npos\<close>, so it covers the whole preview, and a negative length wraps to the rest of the preview.
\<close>

definition email_around :: "string \<Rightarrow> nat \<Rightarrow> string" where
  "email_around preview a =
     (let before = (if a = 0 then preview else take a preview);
          start = (case find (\<lambda>i. word_break (before ! i)) (rev [0..<length before]) of None \<Rightarrow> 0 | Some i \<Rightarrow> i + 1);
          e = (case find (\<lambda>i. word_break (preview ! i)) [a + 1..<length preview] of None \<Rightarrow> length preview | Some i \<Rightarrow> i)
      in if start \<le> e then take (e - start) (drop start preview) else drop start preview)"

function emails_in :: "string \<Rightarrow> nat \<Rightarrow> string list \<Rightarrow> string list" where
  "emails_in preview pos found =
     (if pos < length preview \<and> length found < 3 then
        (case find_from ''@'' preview pos of None \<Rightarrow> found
         | Some a \<Rightarrow> emails_in preview (a + 1) (found @ [email_around preview a]))
      else found)"
  by pat_completeness auto
termination
  by (relation "measure (\<lambda>(preview, pos, found). length preview - pos)") (auto dest!: find_from_Some)

declare emails_in.simps [simp del]

definition transfer_snippet :: "bytes \<Rightarrow> severity_info \<Rightarrow> severity_info \<times> string" where
  "transfer_snippet p sev =
     (let preview = transfer_preview p;
          pw_snippet = find_between preview ''Password:'' ''<'' 60;
          user_snippet = find_between preview ''Username:'' ''<'' 60;
          stor_snippet = find_between preview ''STOR '' [CHR 0x0D] 80
      in if user_snippet \<noteq> [] \<and> pw_snippet \<noteq> [] then (sev, user_snippet @ '' | '' @ pw_snippet)
         else if stor_snippet \<noteq> [] then (sev, stor_snippet)
         else if user_snippet \<noteq> [] then (sev, user_snippet)
         else (case emails_in preview 0 [] of
                 first_email # second_email # _ \<Rightarrow>
                   if first_email \<noteq> []
                   then (\<lparr>level = High, cvss = 87 / 10\<rparr>,
                         ''Exfiltrated contact list: '' @ first_email @ '', '' @ second_email @ '', ...'')
                   else (sev, take 80 preview)
               | _ \<Rightarrow> (sev, take 80 preview)))"

definition smb_snippet :: "flow_data \<Rightarrow> string" where
  "smb_snippet f =
     (let target_ip =
            (if bswap16 (dst_port (flow_id f)) = 445 then dotted_quad (dst_ip (flow_id f))
             else if bswap16 (src_port (flow_id f)) = 445 then dotted_quad (src_ip (flow_id f))
             else dotted_quad (dst_ip (flow_id f)))
      in ''SMBv1 remote code execution via IPC$ against '' @ target_ip @ '':445 (EternalBlue/MS17-010 pattern, '' @
         nat_to_string (length (payload f)) @ '' bytes delivered)'')"

definition brute_force_snippet :: "bytes \<Rightarrow> string" where
  "brute_force_snippet p =
     (let preview = map byte_char (filter (\<lambda>b. printable_ascii b \<or> b = 0x0A \<or> b = 0x0D) (take 4096 p));
          post_count = count_occ ''POST '' 5 preview;
          get_count = count_occ ''GET '' 4 preview
      in nat_to_string (post_count + get_count) @ '' HTTP requests in single flow ('' @ nat_to_string post_count @
         '' POST, '' @ nat_to_string get_count @ '' GET)'')"

definition rat_commands_known :: "string list" where
  "rat_commands_known = [''ll|'', ''inf|'', ''act|'', ''CAP|'', ''rs|'', ''scP|'', ''pro|'', ''tcp|'', ''Ex|'']"

definition rat_snippet :: "flow_data \<Rightarrow> string" where
  "rat_snippet f =
     (let preview = concat (map (\<lambda>b. if printable_ascii b then [byte_char b] else if b = 0 then '' '' else [])
            (take 1024 (payload f)));
          family = (if contains preview [CHR ''|'', CHR 0x27, CHR ''|'', CHR 0x27, CHR ''|''] then ''njRAT/Bladabindi'' else ''Unknown RAT'');
          cmd_count = length (filter (contains preview) rat_commands_known)
      in family @ '' C2 on '' @ dotted_quad (dst_ip (flow_id f)) @ '':'' @
         nat_to_string (unat (bswap16 (dst_port (flow_id f)))) @
         (if 0 < cmd_count then '' ('' @ nat_to_string cmd_count @ '' RAT command types detected)'' else []) @
         '' payload='' @ nat_to_string (length (payload f)) @ ''B'')"

definition tag_snippet :: "flow_data \<Rightarrow> severity_info \<times> string" where
  "tag_snippet f =
     (let tag = protocol_tag f; sev = severity_for_threat tag in
      if tag = ''Heartbleed'' then (sev, ''TLS Heartbeat with oversized payload length (CVE-2014-0160)'')
      else if tag = ''Data Exfiltration'' \<or> tag = ''Suspicious Transfer'' then transfer_snippet (payload f) sev
      else if tag = ''SMB Exploit'' then (sev, smb_snippet f)
      else if tag = ''Brute Force'' then (sev, brute_force_snippet (payload f))
      else if tag = ''RAT C2'' then (sev, rat_snippet f)
      else if tag = ''Malicious TLS Client'' \<or> tag = ''Suspicious TLS'' then
        (sev, ''TLS SNI='' @ (if tls_sni f = [] then ''(none)'' else tls_sni f) @ '' JA3='' @ tls_ja3 f)
      else (sev, tag))"

text \<open>The payload as text: what is not printable becomes a dot.\<close>

definition payload_text :: "wirewolf_config \<Rightarrow> bytes \<Rightarrow> string" where
  "payload_text cfg p =
     map (\<lambda>b. if printable_byte b then byte_char b else CHR ''.'') (take (payload_char_limit cfg) p)"

definition tag_payload :: "wirewolf_config \<Rightarrow> flow_data \<Rightarrow> string" where
  "tag_payload cfg f =
     (if protocol_tag f \<in> {''Data Exfiltration'', ''Suspicious Transfer'', ''Brute Force'', ''RAT C2''}
      then payload_text cfg (payload f) else ''[protocol-detected: '' @ protocol_tag f @ '']'')"

definition tagged_flow :: "llm \<Rightarrow> flow_data \<Rightarrow> llm_state \<Rightarrow> llm_state" where
  "tagged_flow lm f st =
     (case tag_snippet f of
        (sev, snippet) \<Rightarrow> raise_alert lm (build_alert_json (protocol_tag f) sev snippet) f (tag_payload (lm_cfg lm) f) st)"

section \<open>Flows for the model\<close>

definition binary_payload :: "wirewolf_config \<Rightarrow> bytes \<Rightarrow> bool" where
  "binary_payload cfg p =
     (let char_limit = min (payload_char_limit cfg) (length p) in
      16 \<le> char_limit \<and> real (length (filter printable_byte (take char_limit p))) / real char_limit < 60 / 100)"

text \<open>The text that enters the prompt and that snippets are checked against.\<close>

definition prompt_text :: "wirewolf_config \<Rightarrow> flow_data \<Rightarrow> string" where
  "prompt_text cfg f =
     (let s = sanitize_for_prompt (payload_text cfg (payload f)) in
      if contains s ''%'' \<and> normalized f \<noteq> []
      then s @ nl @ ''[Decoded]'' @ nl @ sanitize_for_prompt (take (payload_char_limit cfg) (normalized f))
      else s)"

definition flow_prompt :: "llm \<Rightarrow> flow_data \<Rightarrow> string" where
  "flow_prompt lm f =
     lm_sys_prompt lm @ (build_flow_context f (prompt_text (lm_cfg lm) f) @ prompt_text (lm_cfg lm) f) @
     ''<|eot_id|><|start_header_id|>assistant<|end_header_id|>'' @ nl @ nl @ ''{''"

definition json_space :: "char \<Rightarrow> bool" where
  "json_space c = (c \<in> {CHR '' '', CHR 0x09, CHR 0x0A, CHR 0x0D})"

text \<open>The answer up to its first closing brace; \<open>None\<close> when nothing precedes it.\<close>

definition first_object :: "string \<Rightarrow> string option" where
  "first_object result =
     (case find_sub ''}'' result of
        None \<Rightarrow> Some result
      | Some i \<Rightarrow> if list_all json_space (drop 1 (take i result)) then None else Some (take (i + 1) result))"

text \<open>What an answer amounts to: the alert's JSON, or why there is none.\<close>

datatype verdict = Benign | Missing_fields | Not_in_payload | False_positive | Alert string severity_info string

definition judge :: "flow_data \<Rightarrow> string \<Rightarrow> string \<Rightarrow> verdict" where
  "judge f text analysis =
     (case first_object (''{'' @ analysis) of
        None \<Rightarrow> Benign
      | Some result \<Rightarrow>
          (let threat_type = canonical_threat (extract_json_field result ''threat_type'');
               severity_text = extract_json_field result ''severity'';
               snippet = extract_json_field result ''snippet''
           in if threat_type = [] \<or> severity_text = [] \<or> snippet = [] then Missing_fields
              else if \<not> payload_contains_snippet text snippet then Not_in_payload
              else if is_false_positive threat_type snippet text f then False_positive
              else Alert threat_type (resolve_severity threat_type severity_text) snippet))"

definition classified :: "llm \<Rightarrow> flow_data \<Rightarrow> string \<Rightarrow> llm_state \<Rightarrow> llm_state" where
  "classified lm f analysis st =
     (case judge f (prompt_text (lm_cfg lm) f) analysis of
        Alert t sev snippet \<Rightarrow> raise_alert lm (build_alert_json t sev snippet) f (prompt_text (lm_cfg lm) f) st
      | Benign \<Rightarrow>
          if lm_event_callback lm then st\<lparr>llm_events := llm_events st @
            [\<lparr>ev_connection = flow_id f, ev_action = LLMCleared, ev_reason = ''llm:benign'', ev_payload_size = length (payload f)\<rparr>]\<rparr>
          else st
      | _ \<Rightarrow> st)"

definition classify_flow :: "llm \<Rightarrow> flow_data \<Rightarrow> llm_state \<Rightarrow> llm_state option" where
  "classify_flow lm f st =
     (if payload f = [] then Some st
      else if protocol_tag f \<noteq> [] then Some (tagged_flow lm f st)
      else if binary_payload (lm_cfg lm) (payload f) then Some st
      else if 0 < max_llm_flows (lm_cfg lm) \<and> max_llm_flows (lm_cfg lm) \<le> llm_runs st then
        Some (if llm_runs st = max_llm_flows (lm_cfg lm) then st\<lparr>llm_runs := llm_runs st + 1\<rparr> else st)
      else
        (let st = st\<lparr>llm_runs := llm_runs st + 1, llm_prompts := llm_prompts st @ [flow_prompt lm f]\<rparr>
         in map_option (\<lambda>analysis. classified lm f analysis st)
              (generate_response (lm_llama lm) (lm_cfg lm) (flow_prompt lm f))))"

definition llm_worker :: "llm \<Rightarrow> flow_data list \<Rightarrow> llm_state \<Rightarrow> llm_state option" where
  "llm_worker lm = run_stage (classify_flow lm)"

section \<open>What enters the prompt\<close>

lemma contains_needs: "contains s pat \<Longrightarrow> set pat \<subseteq> set s"
  by (auto simp: contains_iff)

text \<open>A line of the context without a vertical bar is inert; so is a concatenation of inert lines.\<close>

definition inert :: "string \<Rightarrow> bool" where
  "inert s = (\<not> contains s ''<|'')"

lemma inert_plain: "CHR ''|'' \<notin> set s \<Longrightarrow> inert s"
  using contains_needs[of s "''<|''"] by (auto simp: inert_def)

lemma inert_lines: "inert u \<Longrightarrow> inert v \<Longrightarrow> inert (u @ nl @ v)"
  using contains_around[of "CHR 0x0A" "''<|''" u v] by (simp add: inert_def nl_def)

lemma inert_line_Nil: "inert u \<Longrightarrow> inert (u @ nl)"
  using inert_lines[of u "[]"] by (simp add: inert_plain)

lemma inert_prefix: "inert (u @ v) \<Longrightarrow> inert u"
  using contains_prefix unfolding inert_def by blast

lemma inert_take: "inert s \<Longrightarrow> inert (take n s)"
  using inert_prefix[of "take n s" "drop n s"] by simp

lemma inert_after: "CHR ''|'' \<notin> set u \<Longrightarrow> a \<noteq> CHR ''<'' \<Longrightarrow> a \<noteq> CHR ''|'' \<Longrightarrow> inert v \<Longrightarrow> inert (u @ a # v)"
  using contains_around[of a "''<|''" u v] inert_plain[of u] by (auto simp: inert_def)

lemma no_bar_digits: "CHR ''|'' \<notin> set (nat_to_string n)"
  using nat_to_string_digits[of "CHR ''|''" n] by (auto simp: is_digit_def)

lemma no_bar_quad: "CHR ''|'' \<notin> set (dotted_quad ip)"
  by (simp add: dotted_quad_def no_bar_digits)

lemma no_bar_direction: "CHR ''|'' \<notin> set (flow_direction sp dp)"
  by (simp add: flow_direction_def)

lemma no_bar_protocol: "CHR ''|'' \<notin> set (protocol_from_ports sp dp)"
proof -
  have "list_all (\<lambda>(p, h). CHR ''|'' \<notin> set h) port_hints" by code_simp
  then have "map_of port_hints p = Some h \<Longrightarrow> CHR ''|'' \<notin> set h" for p h by (rule map_of_all)
  then show ?thesis by (auto simp: protocol_from_ports_def split: option.split)
qed

lemma head_line_take: "\<exists>n. head_line s = take n s"
proof -
  have "\<exists>n. takeWhile P s = take n s" for P by (metis takeWhile_eq_take)
  then show ?thesis by (auto simp: head_line_def Let_def)
qed

lemma inert_http_line: "inert s \<Longrightarrow> inert (detect_http_line s)"
proof -
  assume s: "inert s"
  obtain n where n: "head_line s = take n s" using head_line_take by blast
  have "inert (''HTTP Request:'' @ CHR '' '' # head_line s)" "inert (''HTTP Response:'' @ CHR '' '' # head_line s)"
    unfolding n by (rule inert_after; simp add: inert_take s)+
  then show ?thesis by (simp add: detect_http_line_def Let_def inert_plain)
qed

lemma inert_context:
  assumes "inert s"
  shows "inert (build_flow_context f s @ s)"
proof -
  let ?sp = "bswap16 (src_port (flow_id f))" and ?dp = "bswap16 (dst_port (flow_id f))"
  have tail: "inert (''Packets: '' @ nat_to_string (packet_count f) @ nl @ ''Payload size: '' @
      nat_to_string (length (payload f)) @ '' bytes'' @ nl @ nl @ ''[Payload]'' @ nl @ s)"
    using inert_lines[OF inert_plain inert_lines[OF inert_plain inert_lines[OF inert_plain inert_lines[OF inert_plain assms]]],
        of "''Packets: '' @ nat_to_string (packet_count f)" "''Payload size: '' @ nat_to_string (length (payload f)) @ '' bytes''"
        "[]" "''[Payload]''"] by (simp add: no_bar_digits)
  have http: "inert ((if detect_http_line s \<noteq> [] then detect_http_line s @ nl else []) @ t)" if "inert t" for t
    using inert_lines[OF inert_http_line[OF assms] that] that by simp
  have proto: "inert (''Protocol: '' @ protocol_from_ports ?sp ?dp @ nl @ t)" if "inert t" for t
    using inert_lines[OF inert_plain that, of "''Protocol: '' @ protocol_from_ports ?sp ?dp"] by (simp add: no_bar_protocol)
  have ends: "inert (''Src: '' @ dotted_quad a @ '':'' @ nat_to_string m @ nl @ ''Dst: '' @ dotted_quad b @ '':'' @
      nat_to_string n @ nl @ t)" if "inert t" for a b m n t
    using inert_lines[OF inert_plain inert_lines[OF inert_plain that], of "''Src: '' @ dotted_quad a @ '':'' @ nat_to_string m"
        "''Dst: '' @ dotted_quad b @ '':'' @ nat_to_string n"] by (simp add: no_bar_digits no_bar_quad)
  have start: "inert (''[Context]'' @ nl @ ''Direction: '' @ flow_direction ?sp ?dp @ nl @ t)" if "inert t" for t
    using inert_lines[OF inert_plain inert_lines[OF inert_plain that], of "''[Context]''" "''Direction: '' @ flow_direction ?sp ?dp"]
    by (simp add: no_bar_direction)
  show ?thesis
    using start[OF ends[OF proto[OF http[OF tail]]]] by (simp add: build_flow_context_def Let_def)
qed

lemma inert_prompt_text: "inert (prompt_text cfg f)"
proof -
  have s: "inert (sanitize_for_prompt t)" for t
    using sanitize_removes_markers[of "''<|''" t] by (simp add: inert_def template_markers_def)
  have "inert (sanitize_for_prompt t @ nl @ ''[Decoded]'' @ nl @ sanitize_for_prompt u)" for t u
    by (intro inert_lines s inert_plain) simp
  with s show ?thesis by (simp add: prompt_text_def Let_def)
qed

section \<open>What an alert of the model has passed\<close>

lemma read_quoted_chars: "read_quoted s = Some v \<Longrightarrow> set v \<subseteq> unesc_char ` set (butlast s) \<union> set (butlast s)"
proof (induction s arbitrary: v rule: read_quoted.induct)
  case (3 c d ds)
  show ?case
  proof (cases "c = bsl")
    case True
    then obtain w where w: "read_quoted ds = Some w" "v = unesc_char d # w" using "3.prems" by auto
    then have "ds \<noteq> []" by auto
    with "3.IH"(1)[OF True w(1)] w(2) show ?thesis by auto
  next
    case False
    show ?thesis
    proof (cases "c = dq")
      case True
      with "3.prems" False show ?thesis by auto
    next
      case nq: False
      then obtain w where w: "read_quoted (d # ds) = Some w" "v = c # w" using "3.prems" False by auto
      from "3.IH"(2)[OF False nq w(1)] w(2) show ?thesis by auto
    qed
  qed
qed (auto split: if_splits)

lemma unesc_brace: "unesc_char c = CHR ''}'' \<Longrightarrow> c = CHR ''}''"
  by (auto simp: unesc_char_def split: if_splits)

lemma extract_json_field_cases:
  "extract_json_field json key = [] \<or> (\<exists>n v. read_quoted (drop n json) = Some v \<and> extract_json_field json key = v)"
  by (auto simp: extract_json_field_def split: option.split)

lemma extract_no_brace:
  assumes "CHR ''}'' \<notin> set (butlast json)"
  shows "CHR ''}'' \<notin> set (extract_json_field json key)"
proof (cases "extract_json_field json key = []")
  case False
  then obtain n v where v: "read_quoted (drop n json) = Some v" "extract_json_field json key = v"
    using extract_json_field_cases[of json key] by blast
  have "set (butlast (drop n json)) \<subseteq> set (butlast json)" by (metis butlast_drop set_drop_subset)
  then have b: "CHR ''}'' \<notin> set (butlast (drop n json))" using assms by blast
  then have "CHR ''}'' \<notin> unesc_char ` set (butlast (drop n json))" using unesc_brace by (metis imageE)
  with b read_quoted_chars[OF v(1)] show ?thesis unfolding v(2) by blast
qed simp

lemma first_object_brace: "first_object s = Some r \<Longrightarrow> CHR ''}'' \<notin> set (butlast r)"
proof (cases "find_sub ''}'' s")
  case None
  assume "first_object s = Some r"
  with None have "r = s" by (simp add: first_object_def)
  moreover have "CHR ''}'' \<notin> set s"
    using None unfolding find_sub_None_iff by (auto dest!: split_list)
  ultimately show ?thesis by (auto dest: in_set_butlastD)
next
  case (Some i)
  assume "first_object s = Some r"
  with Some have r: "r = take (i + 1) s" by (simp add: first_object_def split: if_splits)
  have i: "i < length s" using find_sub_bound[OF Some] by simp
  have "CHR ''}'' \<notin> set (take i s)"
  proof
    assume "CHR ''}'' \<in> set (take i s)"
    then obtain j where j: "j < i" "s ! j = CHR ''}''" using i by (auto simp: in_set_conv_nth)
    then have "starts_with ''}'' (drop j s)" using i by (metis Cons_nth_drop_Suc order.strict_trans starts_with.simps)
    with find_sub_least[OF Some j(1)] show False by simp
  qed
  then show ?thesis using i by (simp add: r butlast_take)
qed

lemma canonical_no_brace: "CHR ''}'' \<notin> set t \<Longrightarrow> CHR ''}'' \<notin> set (canonical_threat t)"
proof -
  have "list_all (\<lambda>(a, c). CHR ''}'' \<notin> set c) threat_aliases" by code_simp
  then have "map_of threat_aliases t = Some c \<Longrightarrow> CHR ''}'' \<notin> set c" for c by (rule map_of_all)
  then show "CHR ''}'' \<notin> set t \<Longrightarrow> CHR ''}'' \<notin> set (canonical_threat t)"
    by (auto simp: canonical_threat_def split: option.split)
qed

lemma contains_lower: "contains s t \<Longrightarrow> contains (to_lower s) (to_lower t)"
proof -
  assume "contains s t"
  then obtain u v where "s = u @ t @ v" by (auto simp: contains_iff)
  then have "to_lower s = to_lower u @ to_lower t @ to_lower v" by (simp add: to_lower_def)
  then show ?thesis unfolding contains_iff by blast
qed

lemma judge_Alert:
  assumes "judge f text analysis = Alert t sev snippet"
  shows "t \<noteq> [] \<and> snippet \<noteq> [] \<and> contains (to_lower text) (to_lower snippet) \<and>
    \<not> is_false_positive t snippet text f \<and> CHR ''}'' \<notin> set snippet \<and> CHR ''}'' \<notin> set t \<and>
    (\<exists>s. s \<noteq> [] \<and> sev = resolve_severity t s)"
proof -
  obtain r where r: "first_object (''{'' @ analysis) = Some r"
    using assms by (auto simp: judge_def split: option.splits)
  have b: "CHR ''}'' \<notin> set (extract_json_field r k)" for k by (rule extract_no_brace[OF first_object_brace[OF r]])
  have j: "t = canonical_threat (extract_json_field r ''threat_type'')" "snippet = extract_json_field r ''snippet''"
    "t \<noteq> []" "snippet \<noteq> []" "payload_contains_snippet text snippet" "\<not> is_false_positive t snippet text f"
    "\<exists>s. s \<noteq> [] \<and> sev = resolve_severity t s"
    using assms unfolding judge_def r Let_def by (auto split: if_splits)
  then have "contains (to_lower text) (to_lower snippet)"
    using contains_lower by (auto simp: payload_contains_snippet_def split: if_splits)
  with j b canonical_no_brace[OF b] show ?thesis by simp
qed

section \<open>Budget\<close>

definition llm_accounted :: "llm \<Rightarrow> flow_data list \<Rightarrow> llm_state \<Rightarrow> bool" where
  "llm_accounted lm fs st =
     ((0 < max_llm_flows (lm_cfg lm) \<longrightarrow>
         length (llm_prompts st) = min (llm_runs st) (max_llm_flows (lm_cfg lm)) \<and> llm_runs st \<le> max_llm_flows (lm_cfg lm) + 1) \<and>
      length (llm_prompts st) \<le> length (filter (\<lambda>f. protocol_tag f = []) fs) \<and>
      subseq (map (\<lambda>(j, f, t). f) (llm_alerts st)) fs \<and>
      (lm_alert_callback lm \<longrightarrow>
         filter (\<lambda>f. protocol_tag f \<noteq> []) (map (\<lambda>(j, f, t). f) (llm_alerts st)) =
         filter (\<lambda>f. protocol_tag f \<noteq> [] \<and> payload f \<noteq> []) fs))"

lemma accounted_no_alert:
  assumes "llm_accounted lm fs st" and "payload f = [] \<or> protocol_tag f = []"
  shows "llm_accounted lm (fs @ [f]) st"
  using assms by (auto simp: llm_accounted_def)

lemma accounted_tagged:
  assumes "llm_accounted lm fs st" and "payload f \<noteq> []" and "protocol_tag f \<noteq> []"
  shows "llm_accounted lm (fs @ [f]) (tagged_flow lm f st)"
proof -
  have "subseq (map (\<lambda>(j, f, t). f) (llm_alerts st) @ [f]) (fs @ [f])"
    using assms(1) by (intro list_emb_append_mono) (auto simp: llm_accounted_def)
  with assms show ?thesis
    by (auto simp: llm_accounted_def tagged_flow_def raise_alert_def split: prod.split)
qed

lemma accounted_classified:
  assumes "llm_accounted lm fs st" and "protocol_tag f = []"
    and "0 < max_llm_flows (lm_cfg lm) \<longrightarrow> llm_runs st < max_llm_flows (lm_cfg lm)"
  shows "llm_accounted lm (fs @ [f]) (classified lm f analysis
    (st\<lparr>llm_runs := llm_runs st + 1, llm_prompts := llm_prompts st @ [p]\<rparr>))"
proof -
  let ?st = "st\<lparr>llm_runs := llm_runs st + 1, llm_prompts := llm_prompts st @ [p]\<rparr>"
  have a: "llm_accounted lm (fs @ [f]) ?st" using assms by (auto simp: llm_accounted_def)
  have "subseq (map (\<lambda>(j, f, t). f) (llm_alerts st) @ [f]) (fs @ [f])"
    using assms(1) by (intro list_emb_append_mono) (auto simp: llm_accounted_def)
  then have "llm_accounted lm (fs @ [f]) (raise_alert lm r f t ?st)" for r t
    using a assms(2) by (auto simp: llm_accounted_def raise_alert_def)
  moreover have "llm_accounted lm (fs @ [f]) (?st\<lparr>llm_events := es\<rparr>)" for es using a by (simp add: llm_accounted_def)
  ultimately show ?thesis using a by (simp add: classified_def split: verdict.split)
qed

lemma accounted_classify:
  assumes "llm_accounted lm fs st" and "classify_flow lm f st = Some st'"
  shows "llm_accounted lm (fs @ [f]) st'"
proof -
  have s: "llm_accounted lm (fs @ [f]) (st\<lparr>llm_runs := llm_runs st + 1\<rparr>)"
    if "0 < max_llm_flows (lm_cfg lm)" "llm_runs st = max_llm_flows (lm_cfg lm)" "protocol_tag f = []"
    using assms(1) that by (auto simp: llm_accounted_def)
  from assms s show ?thesis
    by (auto simp: classify_flow_def Let_def accounted_no_alert accounted_tagged accounted_classified[simplified]
        not_le split: if_splits)
qed

section \<open>The token window\<close>

lemma generate_loop_window:
  "\<exists>new. snd (generate_loop m n ctx r) = ctx @ new \<and> length new \<le> n \<and>
     fst (generate_loop m n ctx r) = r @ concat (map (ll_piece m) new)"
proof (induction n arbitrary: ctx r)
  case (Suc n)
  let ?t = "ll_sample m ctx"
  from Suc[of "ctx @ [?t]" "r @ ll_piece m ?t"] obtain new where
    "snd (generate_loop m n (ctx @ [?t]) (r @ ll_piece m ?t)) = (ctx @ [?t]) @ new" "length new \<le> n"
    "fst (generate_loop m n (ctx @ [?t]) (r @ ll_piece m ?t)) = (r @ ll_piece m ?t) @ concat (map (ll_piece m) new)"
    by blast
  then show ?case
    by (auto simp: Let_def intro: exI[of _ "[]"] exI[of _ "[?t]"] exI[of _ "?t # new"])
qed simp

lemma generate_total: "0 < max_prompt_tokens cfg \<Longrightarrow> 0 \<le> max_tokens cfg \<Longrightarrow> generate_response m cfg p \<noteq> None"
  by (auto simp: generate_response_def trim_tokens_def Let_def min_def split: option.split if_splits)

lemma classify_total: "0 < max_prompt_tokens (lm_cfg lm) \<Longrightarrow> 0 \<le> max_tokens (lm_cfg lm) \<Longrightarrow> classify_flow lm f st \<noteq> None"
  using generate_total[of "lm_cfg lm" "lm_llama lm"] by (auto simp: classify_flow_def Let_def)

interpretation llm_stage: stage "classify_flow lm" "\<lambda>f. 0 < max_prompt_tokens (lm_cfg lm) \<and> 0 \<le> max_tokens (lm_cfg lm)"
  "llm_accounted lm" for lm
  by unfold_locales (simp add: classify_total, rule accounted_classify)

section \<open>Properties\<close>

text \<open>
  C7: captured traffic cannot forge the structure of the prompt: the neutralised text holds no template
  control token and no section marker, and between the system prompt and the final assistant header the
  prompt of every flow has no opening of a control token.
\<close>
theorem prompt_data_inert:
  "list_all (\<lambda>m. \<not> contains (sanitize_for_prompt s) m) template_markers \<and>
   (\<exists>data. flow_prompt lm f = lm_sys_prompt lm @ data @
        ''<|eot_id|><|start_header_id|>assistant<|end_header_id|>'' @ nl @ nl @ ''{'' \<and>
      \<not> contains data ''<|'')"
proof
  show "list_all (\<lambda>m. \<not> contains (sanitize_for_prompt s) m) template_markers"
    using sanitize_removes_markers by (auto simp: list_all_iff)
  show "\<exists>data. flow_prompt lm f = lm_sys_prompt lm @ data @
        ''<|eot_id|><|start_header_id|>assistant<|end_header_id|>'' @ nl @ nl @ ''{'' \<and> \<not> contains data ''<|''"
    using inert_context[OF inert_prompt_text[of "lm_cfg lm" f], of f] unfolding inert_def flow_prompt_def by blast
qed


definition answer_of :: "string \<Rightarrow> string \<Rightarrow> string \<Rightarrow> string" where
  "answer_of t sev snippet =
     [dq] @ ''threat_type'' @ [dq] @ '': '' @ [dq] @ t @ [dq] @ '', '' @ [dq] @ ''severity'' @ [dq] @ '': '' @ [dq] @ sev @ [dq] @
     '', '' @ [dq] @ ''snippet'' @ [dq] @ '': '' @ [dq] @ snippet @ [dq] @ ''}''"


text \<open>
  the answer is cut at its first closing brace, so no alert ever quotes a snippet with one, and the
  answer the system prompt itself teaches for a NoSQL injection is discarded as incomplete whatever the
  flow and its text are.
\<close>
theorem braces_never_reported:
  "(judge f text analysis = Alert t sev snippet \<longrightarrow> CHR ''}'' \<notin> set snippet) \<and>
   judge f text (answer_of ''NoSQL Injection'' ''Critical''
     (''{'' @ [bsl, dq] @ ''$gt'' @ [bsl, dq] @ '':'' @ [bsl, dq, bsl, dq] @ ''}'')) = Missing_fields"
proof
  show "judge f text analysis = Alert t sev snippet \<longrightarrow> CHR ''}'' \<notin> set snippet"
    using judge_Alert by blast
  let ?a = "answer_of ''NoSQL Injection'' ''Critical'' (''{'' @ [bsl, dq] @ ''$gt'' @ [bsl, dq] @ '':'' @ [bsl, dq, bsl, dq] @ ''}'')"
  obtain r where o: "first_object (''{'' @ ?a) = Some r" "extract_json_field r ''snippet'' = []"
  proof -
    have "(case first_object (''{'' @ ?a) of None \<Rightarrow> False | Some r \<Rightarrow> extract_json_field r ''snippet'' = [])" by code_simp
    with that show ?thesis by (cases "first_object (''{'' @ ?a)") auto
  qed
  show "judge f text ?a = Missing_fields" unfolding judge_def o(1) by (simp add: o(2) Let_def)
qed

theorem braces_never_reported_witness:
  "CHR ''}'' \<notin> set ''<script>''"
proof -
  have o: "first_object (''{'' @ answer_of ''XSS'' ''Low'' ''<script>'') = Some (''{'' @ answer_of ''XSS'' ''Low'' ''<script>'')"
    by code_simp
  have e: "canonical_threat (extract_json_field (''{'' @ answer_of ''XSS'' ''Low'' ''<script>'') ''threat_type'') = ''XSS''"
    "extract_json_field (''{'' @ answer_of ''XSS'' ''Low'' ''<script>'') ''severity'' = ''Low''"
    "extract_json_field (''{'' @ answer_of ''XSS'' ''Low'' ''<script>'') ''snippet'' = ''<script>''"
    by code_simp+
  have p: "payload_contains_snippet ''GET /?q=<script>'' ''<script>''" by code_simp
  have q: "\<not> is_false_positive ''XSS'' ''<script>'' ''GET /?q=<script>'' make_flow_data" by code_simp
  have "judge make_flow_data ''GET /?q=<script>'' (answer_of ''XSS'' ''Low'' ''<script>'') =
      Alert ''XSS'' (resolve_severity ''XSS'' ''Low'') ''<script>''"
    unfolding judge_def o by (simp only: option.case Let_def e) (simp add: p q)
  with braces_never_reported show ?thesis by blast
qed

text \<open>
  C23: with a positive prompt limit and a token budget that is not negative the stage terminates on every sequence of
  flows, without touching memory outside its buffers, and stays within its budget: with a limit of n at most n
  prompts are made, never one for a flow a detector has named; every named flow with a payload raises exactly
  one alert, in order, whatever the budget; and no flow raises two.
\<close>
theorem llm_budget_and_tagged_alerts:
  assumes "0 < max_prompt_tokens (lm_cfg lm)" and "0 \<le> max_tokens (lm_cfg lm)"
  shows "\<exists>st. llm_worker lm fs initial_llm_state = Some st \<and> llm_accounted lm fs st"
  unfolding llm_worker_def
  by (rule llm_stage.run_booked) (use assms in \<open>auto simp: list_all_iff llm_accounted_def initial_llm_state_def\<close>)

definition silent_llama :: llama where
  "silent_llama = \<lparr>ll_tokenize = (\<lambda>s. Some (map of_char s)), ll_batch_ok = (\<lambda>n. True), ll_decode = (\<lambda>ts. True),
     ll_sample = (\<lambda>ts. 0), ll_is_eog = (\<lambda>t. True), ll_piece = (\<lambda>t. [])\<rparr>"

definition small_llm :: llm where
  "small_llm = \<lparr>lm_cfg = default_config\<lparr>max_llm_flows := 1\<rparr>, lm_llama = silent_llama, lm_sys_prompt = [],
     lm_alert_callback = True, lm_event_callback = True\<rparr>"

theorem llm_budget_and_tagged_alerts_witness:
  "\<exists>st. llm_worker small_llm (replicate 5 (make_flow_data\<lparr>payload := [0x41]\<rparr>) @
       [make_flow_data\<lparr>payload := [0x18], protocol_tag := ''Heartbleed''\<rparr>]) initial_llm_state = Some st \<and>
     length (llm_prompts st) \<le> 1 \<and> llm_alerts st \<noteq> []"
proof -
  let ?fs = "replicate 5 (make_flow_data\<lparr>payload := [0x41]\<rparr>) @ [make_flow_data\<lparr>payload := [0x18], protocol_tag := ''Heartbleed''\<rparr>]"
  have "0 < max_prompt_tokens (lm_cfg small_llm)" "0 \<le> max_tokens (lm_cfg small_llm)"
    by (simp_all add: small_llm_def default_config_def)
  from llm_budget_and_tagged_alerts[OF this, of ?fs] obtain st where
    st: "llm_worker small_llm ?fs initial_llm_state = Some st" "llm_accounted small_llm ?fs st" by blast
  moreover have "length (llm_prompts st) \<le> 1" using st(2) by (simp add: llm_accounted_def small_llm_def)
  moreover have "filter (\<lambda>f. protocol_tag f \<noteq> []) (map (\<lambda>(j, f, t). f) (llm_alerts st)) \<noteq> []"
    using st(2) by (simp add: llm_accounted_def small_llm_def make_flow_data_def)
  ultimately show ?thesis by auto
qed



text \<open>
  Every threat type the system prompt lets the model name, and every type an alias is mapped to, has its
  own row in the CVSS table, and no alias is itself such a type.
\<close>
theorem prompt_types_rated:
  "list_all (\<lambda>t. map_of severity_table t \<noteq> None) (prompt_threat_types @ map snd threat_aliases) \<and>
   distinct prompt_threat_types \<and> distinct (map fst threat_aliases) \<and>
   list_all (\<lambda>a. \<not> List.member prompt_threat_types a) (map fst threat_aliases)"
  by code_simp

end
