(* ===== verification/Pipeline_Controller.thy ===== *)
theory Pipeline_Controller
  imports Tcp_Reassembly Npu_Filter Llm_Inference
begin

text \<open>
  \<^verbatim>\<open>src/pipeline_controller.cpp\<close>: the life cycle of the pipeline, the handlers that turn the output
  of the stages into alerts, the statistics and the shutdown.  The lemmas show that the state machine only
  takes legal transitions and what the alert handler makes of an answer of the model.
\<close>

section \<open>State machine\<close>

record controller =
  ct_state :: pipeline_state
  ct_last_error :: string
  ct_shutdown :: bool
  ct_alerts_fired :: nat
  ct_capture_finished :: bool
  ct_sensor :: "reassembler option"
  ct_stats :: pipeline_stats
  ct_states :: "pipeline_state list"
  ct_threats :: "threat_alert list"

definition no_stats :: pipeline_stats where
  "no_stats = \<lparr>filter_passed = 0, filter_dropped = 0, filter_deduped = 0, filter_device = [], alerts_fired = 0,
     q1_depth = 0, q2_depth = 0, q1_drops = 0, q2_drops = 0, q1_capacity = 0, q2_capacity = 0,
     capture_finished = False, blocked_packets = 0, blocked_sources = 0\<rparr>"

definition new_controller :: controller where
  "new_controller = \<lparr>ct_state = Stopped, ct_last_error = [], ct_shutdown = False, ct_alerts_fired = 0,
     ct_capture_finished = False, ct_sensor = None, ct_stats = no_stats, ct_states = [], ct_threats = []\<rparr>"

definition set_state :: "pipeline_state \<Rightarrow> controller \<Rightarrow> controller" where
  "set_state s c = c\<lparr>ct_state := s, ct_states := ct_states c @ [s]\<rparr>"

definition start_pipeline :: "wirewolf_config \<Rightarrow> controller \<Rightarrow> bool \<times> controller" where
  "start_pipeline cfg c =
     (if ct_state c \<noteq> Stopped \<and> ct_state c \<noteq> Error then (False, c)
      else if \<not> config_valid cfg then (False, c)
      else (True, set_state Starting (c\<lparr>ct_shutdown := False, ct_alerts_fired := 0\<rparr>)))"

definition stop_pipeline :: "controller \<Rightarrow> controller" where
  "stop_pipeline c = c\<lparr>ct_shutdown := True\<rparr>"

text \<open>Loading the language model: whether the model and its context could be created.\<close>

definition create_llm :: "bool \<Rightarrow> bool \<Rightarrow> wirewolf_config \<Rightarrow> string + unit" where
  "create_llm loaded ctx_made cfg =
     (if \<not> loaded then Inl (''Failed to load LLaMA model: '' @ llama_model_path cfg)
      else if \<not> ctx_made then Inl ''Failed to create LLaMA context''
      else Inr ())"

definition fail_pipeline :: "string \<Rightarrow> controller \<Rightarrow> controller" where
  "fail_pipeline err c = set_state Error (c\<lparr>ct_sensor := None, ct_last_error := err\<rparr>)"

text \<open>The pipeline thread up to the monitor loop.\<close>

definition build_pipeline :: "platform \<Rightarrow> bool \<Rightarrow> bool \<Rightarrow> wirewolf_config \<Rightarrow> controller \<Rightarrow> controller" where
  "build_pipeline pf loaded ctx_made cfg c =
     (case create_reassembler pf cfg of
        Inl err \<Rightarrow> fail_pipeline err c
      | Inr r \<Rightarrow>
          (let r = (if block_allowlist cfg \<noteq> [] then set_block_allowlist (block_allowlist cfg) r else r) in
           case create_llm loaded ctx_made cfg of
             Inl err \<Rightarrow> fail_pipeline err (c\<lparr>ct_sensor := Some r\<rparr>)
           | Inr _ \<Rightarrow> set_state Running (c\<lparr>ct_sensor := Some r, ct_capture_finished := False\<rparr>)))"

section \<open>Alert handlers\<close>

definition on_anomaly_alert :: "threat_alert \<Rightarrow> controller \<Rightarrow> controller" where
  "on_anomaly_alert alert c = c\<lparr>ct_alerts_fired := ct_alerts_fired c + 1, ct_threats := ct_threats c @ [alert]\<rparr>"

definition llm_threat_alert :: "string \<Rightarrow> flow_data \<Rightarrow> string \<Rightarrow> threat_alert" where
  "llm_threat_alert llm_output f payload_str =
     (let t = extract_json_field llm_output ''threat_type''; sev = severity_for_threat t in
      \<lparr>al_connection = flow_id f, al_threat_type = t, al_severity = severity_label (level sev), al_severity_info = sev,
       al_snippet = extract_json_field llm_output ''snippet'', al_raw_output = llm_output,
       al_payload_text = payload_str, al_confidence = confidence_for sev False\<rparr>)"

definition on_llm_alert :: "bool \<Rightarrow> bool \<Rightarrow> string \<Rightarrow> flow_data \<Rightarrow> string \<Rightarrow> controller \<Rightarrow> controller" where
  "on_llm_alert has_callback inline_mode llm_output f payload_str c =
     (let c = c\<lparr>ct_alerts_fired := ct_alerts_fired c + 1\<rparr> in
      if \<not> has_callback then c
      else
        (let alert = llm_threat_alert llm_output f payload_str;
             c = (if inline_mode then c\<lparr>ct_sensor := map_option (block_source (src_ip (al_connection alert))) (ct_sensor c)\<rparr> else c)
         in c\<lparr>ct_threats := ct_threats c @ [alert]\<rparr>))"

section \<open>Monitoring and shutdown\<close>

definition snapshot :: "npu_state \<Rightarrow> string \<Rightarrow> flow_data flow_queue \<Rightarrow> flow_data flow_queue \<Rightarrow> controller \<Rightarrow> pipeline_stats" where
  "snapshot st device q1 q2 c =
     (let s = no_stats\<lparr>filter_passed := passed_count st, filter_dropped := filtered_count st, filter_deduped := dedup_count st,
            filter_device := device, alerts_fired := ct_alerts_fired c, q1_depth := queue_size q1, q2_depth := queue_size q2,
            q1_drops := dropped_count q1, q2_drops := dropped_count q2, q1_capacity := max_capacity q1,
            q2_capacity := max_capacity q2, capture_finished := ct_capture_finished c\<rparr>
      in case ct_sensor c of None \<Rightarrow> s
         | Some r \<Rightarrow> s\<lparr>blocked_packets := blocked_packet_count r, blocked_sources := length (blocked_ips r)\<rparr>)"

definition monitor_tick :: "npu_state \<Rightarrow> string \<Rightarrow> flow_data flow_queue \<Rightarrow> flow_data flow_queue \<Rightarrow> controller \<Rightarrow> controller" where
  "monitor_tick st device q1 q2 c = c\<lparr>ct_stats := snapshot st device q1 q2 c\<rparr>"

definition monitor_done :: "bool \<Rightarrow> controller \<Rightarrow> bool" where
  "monitor_done is_offline c =
     (is_offline \<and> ct_capture_finished c \<and> q1_depth (ct_stats c) = 0 \<and> q2_depth (ct_stats c) = 0)"

definition begin_shutdown :: "controller \<Rightarrow> controller" where
  "begin_shutdown c = set_state Stopping c"

definition end_shutdown :: "controller \<Rightarrow> controller" where
  "end_shutdown c = set_state Stopped (c\<lparr>ct_sensor := None\<rparr>)"

text \<open>Everything that happens to a controller, in any order the threads allow.\<close>

inductive controller_reach :: "controller \<Rightarrow> bool" where
  created: "controller_reach new_controller"
| start: "controller_reach c \<Longrightarrow> controller_reach (snd (start_pipeline cfg c))"
| stop: "controller_reach c \<Longrightarrow> controller_reach (stop_pipeline c)"
| build: "controller_reach c \<Longrightarrow> ct_state c = Starting \<Longrightarrow> controller_reach (build_pipeline pf loaded ctx_made cfg c)"
| anomaly: "controller_reach c \<Longrightarrow> ct_state c \<in> {Running, Stopping} \<Longrightarrow> controller_reach (on_anomaly_alert a c)"
| verdict: "controller_reach c \<Longrightarrow> ct_state c \<in> {Running, Stopping} \<Longrightarrow> controller_reach (on_llm_alert cb inl out f text c)"
| captured: "controller_reach c \<Longrightarrow> ct_state c \<in> {Running, Stopping} \<Longrightarrow> controller_reach (c\<lparr>ct_capture_finished := True\<rparr>)"
| sensed: "controller_reach c \<Longrightarrow> ct_state c \<in> {Running, Stopping} \<Longrightarrow> controller_reach (c\<lparr>ct_sensor := map_option g (ct_sensor c)\<rparr>)"
| tick: "controller_reach c \<Longrightarrow> ct_state c = Running \<Longrightarrow> \<not> ct_shutdown c \<Longrightarrow> controller_reach (monitor_tick st device q1 q2 c)"
| closing: "controller_reach c \<Longrightarrow> ct_state c = Running \<Longrightarrow> ct_shutdown c \<or> monitor_done is_offline c \<Longrightarrow>
    controller_reach (begin_shutdown c)"
| closed: "controller_reach c \<Longrightarrow> ct_state c = Stopping \<Longrightarrow> controller_reach (end_shutdown c)"


section \<open>The life cycle\<close>

fun legal_move :: "pipeline_state \<Rightarrow> pipeline_state \<Rightarrow> bool" where
  "legal_move Stopped t = (t = Starting)"
| "legal_move Error t = (t = Starting)"
| "legal_move Starting t = (t = Running \<or> t = Error)"
| "legal_move Running t = (t = Stopping)"
| "legal_move Stopping t = (t = Stopped)"

definition lifecycle :: "controller \<Rightarrow> bool" where
  "lifecycle c \<longleftrightarrow> successively legal_move (Stopped # ct_states c) \<and> last (Stopped # ct_states c) = ct_state c \<and>
     (ct_sensor c \<noteq> None \<longleftrightarrow> ct_state c \<in> {Running, Stopping})"

lemma lifecycle_move:
  assumes "lifecycle c" "legal_move (ct_state c) s" "ct_states c' = ct_states c" "ct_sensor c' \<noteq> None \<longleftrightarrow> s \<in> {Running, Stopping}"
  shows "lifecycle (set_state s c')"
proof -
  from assms have "successively legal_move ((Stopped # ct_states c) @ [s])"
    by (subst successively_append_iff) (simp add: lifecycle_def)
  with assms(3,4) show ?thesis by (simp add: lifecycle_def set_state_def)
qed

lemma lifecycle_stays:
  "lifecycle c \<Longrightarrow> ct_states c' = ct_states c \<Longrightarrow> ct_state c' = ct_state c \<Longrightarrow> (ct_sensor c' = None \<longleftrightarrow> ct_sensor c = None) \<Longrightarrow>
   lifecycle c'"
  by (simp add: lifecycle_def)

lemma lifecycle_new: "lifecycle new_controller"
  by (simp add: lifecycle_def new_controller_def)

lemma lifecycle_start: "lifecycle c \<Longrightarrow> lifecycle (snd (start_pipeline cfg c))"
  unfolding start_pipeline_def
  by (auto intro!: lifecycle_move[of c] simp: lifecycle_def[of c])

lemma lifecycle_build: "lifecycle c \<Longrightarrow> ct_state c = Starting \<Longrightarrow> lifecycle (build_pipeline pf loaded ctx_made cfg c)"
  unfolding build_pipeline_def fail_pipeline_def
  by (auto intro!: lifecycle_move[of c] simp: Let_def split: sum.splits)

lemma lifecycle_verdict: "lifecycle c \<Longrightarrow> lifecycle (on_llm_alert cb inl out f text c)"
  by (erule lifecycle_stays) (auto simp: on_llm_alert_def Let_def)

lemma reach_lifecycle: "controller_reach c \<Longrightarrow> lifecycle c"
proof (induction rule: controller_reach.induct)
  case created
  show ?case by (rule lifecycle_new)
next
  case (start c cfg)
  then show ?case by (intro lifecycle_start)
next
  case (stop c)
  then show ?case by - (rule lifecycle_stays[of c], simp_all add: stop_pipeline_def on_anomaly_alert_def monitor_tick_def)
next
  case (build c pf loaded ctx_made cfg)
  then show ?case by (intro lifecycle_build)
next
  case (anomaly c a)
  then show ?case by - (rule lifecycle_stays[of c], simp_all add: stop_pipeline_def on_anomaly_alert_def monitor_tick_def)
next
  case (verdict c cb inl out f shown)
  then show ?case by (intro lifecycle_verdict)
next
  case (captured c)
  then show ?case by - (rule lifecycle_stays[of c], simp_all add: stop_pipeline_def on_anomaly_alert_def monitor_tick_def)
next
  case (sensed c g)
  then show ?case by - (rule lifecycle_stays[of c], simp_all add: stop_pipeline_def on_anomaly_alert_def monitor_tick_def)
next
  case (tick c st device q1 q2)
  then show ?case by - (rule lifecycle_stays[of c], simp_all add: stop_pipeline_def on_anomaly_alert_def monitor_tick_def)
next
  case (closing c is_offline)
  then show ?case unfolding begin_shutdown_def by (intro lifecycle_move[of c]) (simp_all add: lifecycle_def)
next
  case (closed c)
  then show ?case unfolding end_shutdown_def by (intro lifecycle_move[of c]) simp_all
qed



section \<open>The alert of an answer\<close>

lemma llm_threat_alert_built:
  assumes "\<forall>x \<in> set t. \<not> control_char x"
  shows "al_threat_type (llm_threat_alert (build_alert_json t sev sn) f text) = t"
    and "al_severity_info (llm_threat_alert (build_alert_json t sev sn) f text) = severity_for_threat t"
    and "al_confidence (llm_threat_alert (build_alert_json t sev sn) f text) = confidence_for (severity_for_threat t) False"
    and "al_connection (llm_threat_alert (build_alert_json t sev sn) f text) = flow_id f"
  by (simp_all add: llm_threat_alert_def Let_def build_alert_json_threat_type reread_clean[OF assms])

lemma on_llm_alert_threats:
  "ct_threats (on_llm_alert True inl out f text c) = ct_threats c @ [llm_threat_alert out f text]"
  by (simp add: on_llm_alert_def Let_def)

lemma on_llm_alert_sensor:
  "ct_sensor (on_llm_alert True inl out f text c) =
    (if inl then map_option (block_source (src_ip (flow_id f))) (ct_sensor c) else ct_sensor c)"
  by (simp add: on_llm_alert_def llm_threat_alert_def Let_def)

text \<open>
  C15: The alert the controller raises for an answer carries the curated severity of the threat type and the
  confidence of a model verdict, whatever severity the model stage put into the answer: the downgrade that
  \<open>resolve_severity\<close> granted, and the certainty of a deterministic detection, are lost.  In inline mode the
  source is blocked unless it is on the allow list.
\<close>

theorem llm_alert_severity_recomputed:
  assumes "\<forall>x \<in> set t. \<not> control_char x" and "ct_sensor c = Some r"
  shows "\<exists>a. ct_threats (on_llm_alert True inl (build_alert_json t sev sn) f text c) = ct_threats c @ [a]
    \<and> al_threat_type a = t \<and> al_severity_info a = severity_for_threat t
    \<and> al_confidence a = confidence_for (severity_for_threat t) False \<and> al_connection a = flow_id f
    \<and> (\<exists>r'. ct_sensor (on_llm_alert True inl (build_alert_json t sev sn) f text c) = Some r'
        \<and> (is_blocked (src_ip (flow_id f)) r' \<longleftrightarrow>
             is_blocked (src_ip (flow_id f)) r \<or> inl \<and> src_ip (flow_id f) \<notin> set (allowlist_ips r)))"
  by (intro exI[of _ "llm_threat_alert (build_alert_json t sev sn) f text"] conjI)
    (simp_all add: on_llm_alert_threats llm_threat_alert_built[OF assms(1)] on_llm_alert_sensor assms(2) is_blocked_def block_source_def)

theorem llm_alert_severity_recomputed_witness:
  "\<exists>a. ct_threats (on_llm_alert True False (build_alert_json ''SQLi'' (resolve_severity ''SQLi'' ''low'') ''or 1=1'')
        make_flow_data [] (new_controller\<lparr>ct_sensor := Some initial_reassembler\<rparr>)) = [a]
     \<and> level (al_severity_info a) = Critical \<and> level (resolve_severity ''SQLi'' ''low'') = Low"
proof -
  have clean: "\<forall>x \<in> set ''SQLi''. \<not> control_char x" by code_simp
  have sql: "level (severity_for_threat ''SQLi'') = Critical" by code_simp
  have low: "level (resolve_severity ''SQLi'' ''low'') = Low" by code_simp
  have sensor: "ct_sensor (new_controller\<lparr>ct_sensor := Some initial_reassembler\<rparr>) = Some initial_reassembler" by simp
  from llm_alert_severity_recomputed[OF clean sensor, of False "resolve_severity ''SQLi'' ''low''" "''or 1=1''" make_flow_data "[]"] sql low
  show ?thesis by (auto simp: new_controller_def)
qed

end
