(* ===== verification/Offline_Pipe.thy ===== *)
theory Offline_Pipe
  imports Flow_Queue
begin

text \<open>
  \<^verbatim>\<open>pipeline_thread_func\<close> of \<^verbatim>\<open>src/pipeline_controller.cpp\<close> as an interleaving, in offline mode: the capture
  thread, the loops of the two workers and the monitor and shutdown of the controller over the two queues.
  The lemmas show that until the shutdown starts nothing is lost (a refinement of a bag of pending flows),
  that the workers cannot deadlock and drain everything, and that the shutdown itself can lose a flow.
\<close>

section \<open>The threads\<close>

text \<open>A thread that pushes holds its item until the queue has taken or dropped it.\<close>

datatype 'f hand = Idle | Offering 'f int | Waiting 'f int

text \<open>A worker tests its flag, waits in \<open>pop\<close>, works on a flow, and pushes it if it has a next queue.\<close>

datatype 'f loop_state = Checking | Popping | Working 'f | Pushing "'f hand" | Joined

record 'f pipe =
  pp_q1 :: "'f flow_queue"
  pp_q2 :: "'f flow_queue"
  pp_capture :: "'f hand"
  pp_capture_done :: bool
  pp_filter :: "'f loop_state"
  pp_filter_running :: bool
  pp_llm :: "'f loop_state"
  pp_llm_running :: bool
  pp_depths :: "(nat \<times> nat) option"
  pp_decided :: bool
  pp_closing :: bool
  pp_emitted :: "'f list"
  pp_filtered :: "'f list"
  pp_analyzed :: "'f list"

definition new_pipe :: "nat \<Rightarrow> 'f pipe" where
  "new_pipe capacity =
     \<lparr>pp_q1 = set_blocking True (new_queue capacity), pp_q2 = set_blocking True (new_queue capacity), pp_capture = Idle,
      pp_capture_done = False, pp_filter = Checking, pp_filter_running = True, pp_llm = Checking, pp_llm_running = True,
      pp_depths = None, pp_decided = False, pp_closing = False, pp_emitted = [], pp_filtered = [], pp_analyzed = []\<rparr>"

text \<open>What a hand does next: what it still holds and its queue afterwards.\<close>

definition offer :: "'f hand \<Rightarrow> 'f flow_queue \<Rightarrow> ('f hand \<times> 'f flow_queue) option" where
  "offer h s =
     (case h of
        Idle \<Rightarrow> None
      | Offering f p \<Rightarrow>
          (case push f p s of Pushed s' \<Rightarrow> Some (Idle, s') | Push_waits \<Rightarrow> Some (Waiting f p, s) | Undefined \<Rightarrow> None)
      | Waiting f p \<Rightarrow> if push_ready s then Some (Idle, push_resume f p s) else None)"

text \<open>The head of a worker's loop: \<open>while (running)\<close> and \<open>pop()\<close>; a closed queue sends it back to the test.\<close>

definition loop_test :: "bool \<Rightarrow> 'f loop_state \<Rightarrow> 'f loop_state option" where
  "loop_test running w = (if w = Checking then Some (if running then Popping else Joined) else None)"

definition loop_pop :: "'f loop_state \<Rightarrow> 'f flow_queue \<Rightarrow> ('f loop_state \<times> 'f flow_queue) option" where
  "loop_pop w s =
     (if w = Popping then
        (case pop s of Popped f s' \<Rightarrow> Some (Working f, s') | Pop_closed \<Rightarrow> Some (Checking, s) | Pop_waits \<Rightarrow> None)
      else None)"

datatype 'f pipe_event =
    Emit 'f | Offer_capture | Capture_end
  | Filter_test | Filter_pop | Filter_drop | Filter_pass int | Offer_filter
  | Llm_test | Llm_pop | Llm_done
  | Sample | Decide | Close_capture | Close_filter | Close_llm

text \<open>
  One step of one thread.  The monitor samples the depths of the queues and then looks at the flag of the
  capture thread; when it has seen two empty queues and the flag it stops: it lifts the backpressure,
  closes the first queue and stops the filter, which ends the iteration it is in, and when the filter has
  joined does the same with the second queue and the model.
\<close>

fun pipe_step :: "'f pipe_event \<Rightarrow> 'f pipe \<Rightarrow> 'f pipe option" where
  "pipe_step (Emit f) s =
     (if pp_capture s = Idle \<and> \<not> pp_capture_done s
      then Some (s\<lparr>pp_capture := Offering f 0, pp_emitted := pp_emitted s @ [f]\<rparr>) else None)"
| "pipe_step Offer_capture s =
     map_option (\<lambda>(h, q'). s\<lparr>pp_capture := h, pp_q1 := q'\<rparr>) (offer (pp_capture s) (pp_q1 s))"
| "pipe_step Capture_end s = (if pp_capture s = Idle then Some (s\<lparr>pp_capture_done := True\<rparr>) else None)"
| "pipe_step Filter_test s = map_option (\<lambda>w. s\<lparr>pp_filter := w\<rparr>) (loop_test (pp_filter_running s) (pp_filter s))"
| "pipe_step Filter_pop s = map_option (\<lambda>(w, q'). s\<lparr>pp_filter := w, pp_q1 := q'\<rparr>) (loop_pop (pp_filter s) (pp_q1 s))"
| "pipe_step Filter_drop s =
     (case pp_filter s of Working f \<Rightarrow> Some (s\<lparr>pp_filter := Checking, pp_filtered := pp_filtered s @ [f]\<rparr>) | _ \<Rightarrow> None)"
| "pipe_step (Filter_pass p) s =
     (case pp_filter s of Working f \<Rightarrow> Some (s\<lparr>pp_filter := Pushing (Offering f p)\<rparr>) | _ \<Rightarrow> None)"
| "pipe_step Offer_filter s =
     (case pp_filter s of
        Pushing h \<Rightarrow> map_option (\<lambda>(h', q'). s\<lparr>pp_filter := (if h' = Idle then Checking else Pushing h'), pp_q2 := q'\<rparr>)
                       (offer h (pp_q2 s))
      | _ \<Rightarrow> None)"
| "pipe_step Llm_test s = map_option (\<lambda>w. s\<lparr>pp_llm := w\<rparr>) (loop_test (pp_llm_running s) (pp_llm s))"
| "pipe_step Llm_pop s = map_option (\<lambda>(w, q'). s\<lparr>pp_llm := w, pp_q2 := q'\<rparr>) (loop_pop (pp_llm s) (pp_q2 s))"
| "pipe_step Llm_done s =
     (case pp_llm s of Working f \<Rightarrow> Some (s\<lparr>pp_llm := Checking, pp_analyzed := pp_analyzed s @ [f]\<rparr>) | _ \<Rightarrow> None)"
| "pipe_step Sample s = Some (s\<lparr>pp_depths := Some (queue_size (pp_q1 s), queue_size (pp_q2 s))\<rparr>)"
| "pipe_step Decide s =
     (if pp_capture_done s \<and> pp_depths s = Some (0, 0) then Some (s\<lparr>pp_decided := True\<rparr>) else None)"
| "pipe_step Close_capture s =
     (if pp_decided s
      then Some (s\<lparr>pp_closing := True, pp_q1 := finish (set_blocking False (pp_q1 s)), pp_q2 := set_blocking False (pp_q2 s),
                  pp_filter_running := False\<rparr>)
      else None)"
| "pipe_step Close_filter s =
     (if pp_closing s \<and> pp_filter s = Joined then Some (s\<lparr>pp_q2 := finish (pp_q2 s), pp_llm_running := False\<rparr>) else None)"
| "pipe_step Close_llm s = (if \<not> pp_llm_running s \<and> pp_llm s = Joined then Some s else None)"

definition pipe_run :: "nat \<Rightarrow> 'f pipe_event list \<Rightarrow> 'f pipe option" where
  "pipe_run capacity evs = run_stage pipe_step evs (new_pipe capacity)"

section \<open>The pending flows\<close>

fun in_hand :: "'f hand \<Rightarrow> 'f multiset" where
  "in_hand Idle = {#}"
| "in_hand (Offering f _) = {#f#}"
| "in_hand (Waiting f _) = {#f#}"

fun in_loop :: "'f loop_state \<Rightarrow> 'f multiset" where
  "in_loop (Working f) = {#f#}"
| "in_loop (Pushing h) = in_hand h"
| "in_loop _ = {#}"

definition in_queue :: "'f flow_queue \<Rightarrow> 'f multiset" where
  "in_queue s = image_mset snd (mset (q s))"

definition pending :: "'f pipe \<Rightarrow> 'f multiset" where
  "pending s = in_hand (pp_capture s) + in_queue (pp_q1 s) + in_loop (pp_filter s) + in_queue (pp_q2 s) + in_loop (pp_llm s)"

definition handled_flows :: "'f pipe \<Rightarrow> 'f multiset" where
  "handled_flows s = mset (pp_filtered s) + mset (pp_analyzed s)"

text \<open>What an open pipe promises: a bag that accepts flows and completes them in some order.\<close>

inductive bag_step :: "'f multiset \<times> 'f multiset \<Rightarrow> 'f multiset \<times> 'f multiset \<Rightarrow> bool" where
  accept: "bag_step (P, D) (add_mset f P, D)"
| complete: "bag_step (add_mset f P, D) (P, add_mset f D)"

definition bag :: "'f pipe \<Rightarrow> 'f multiset \<times> 'f multiset" where
  "bag s = (pending s, handled_flows s)"

text \<open>A queue in offline mode before the shutdown.\<close>

definition open_queue :: "nat \<Rightarrow> 'f flow_queue \<Rightarrow> bool" where
  "open_queue c s \<longleftrightarrow> blocking s \<and> \<not> finished s \<and> max_capacity s = c \<and> dropped_count s = 0 \<and> length (q s) \<le> c"

text \<open>A worker before the shutdown: it has not joined, and pushes only what it holds.\<close>

fun looping :: "'f loop_state \<Rightarrow> bool" where
  "looping Joined = False"
| "looping (Pushing h) = (h \<noteq> Idle)"
| "looping _ = True"

definition open_pipe :: "nat \<Rightarrow> 'f pipe \<Rightarrow> bool" where
  "open_pipe c s \<longleftrightarrow> open_queue c (pp_q1 s) \<and> open_queue c (pp_q2 s) \<and> pp_filter_running s \<and> pp_llm_running s
     \<and> looping (pp_filter s) \<and> looping (pp_llm s) \<and> (\<forall>h. pp_llm s \<noteq> Pushing h)"

lemma open_queue_new [simp]: "open_queue c (set_blocking True (new_queue c))"
  by (simp add: open_queue_def set_blocking_def new_queue_def)

lemma open_pipe_new: "open_pipe c (new_pipe c)"
  by (simp add: open_pipe_def new_pipe_def)

lemma offer_open:
  "open_queue c s \<Longrightarrow> offer h s = Some (h', s') \<Longrightarrow>
   open_queue c s' \<and> in_hand h' + in_queue s' = in_hand h + in_queue s"
  by (cases h) (auto simp: offer_def open_queue_def queue_ops in_queue_def mset_emplace split: if_splits)

lemma loop_pop_open:
  "open_queue c s \<Longrightarrow> loop_pop w s = Some (w', s') \<Longrightarrow>
   open_queue c s' \<and> in_loop w' + in_queue s' = in_loop w + in_queue s \<and> looping w' \<and> (\<forall>h. w' \<noteq> Pushing h)"
  by (auto simp: loop_pop_def pop_def first_entry_def open_queue_def in_queue_def split: if_splits list.splits)

lemma loop_test_open:
  "loop_test True w = Some w' \<Longrightarrow> in_loop w' = in_loop w \<and> looping w' \<and> (\<forall>h. w' \<noteq> Pushing h)"
  by (auto simp: loop_test_def split: if_splits)


lemmas pipe_books = bag_def pending_def handled_flows_def

lemma bag_completes:
  "P = add_mset f P' \<Longrightarrow> D' = add_mset f D \<Longrightarrow> bag_step (P, D) (P', D')"
  by (auto intro: bag_step.complete)

lemma bag_accepts: "P' = add_mset f P \<Longrightarrow> bag_step (P, D) (P', D)"
  by (auto intro: bag_step.accept)

lemma open_step:
  assumes "open_pipe c s" "pipe_step e s = Some s'" "\<not> pp_closing s" "\<not> pp_closing s'"
  shows "open_pipe c s' \<and> (bag s' = bag s \<and> pp_emitted s' = pp_emitted s \<or>
     bag_step (bag s) (bag s') \<and> mset (pp_emitted s') + pending s + handled_flows s = mset (pp_emitted s) + pending s' + handled_flows s')"
  using assms
proof (cases e)
  case (Emit f)
  with assms show ?thesis
    by (auto simp: open_pipe_def pipe_books intro!: bag_accepts split: if_splits)
next
  case Offer_capture
  with assms obtain h q' where *: "offer (pp_capture s) (pp_q1 s) = Some (h, q')" "s' = s\<lparr>pp_capture := h, pp_q1 := q'\<rparr>"
    by auto
  from offer_open[OF _ *(1), of c] assms(1) *(2) show ?thesis by (auto simp: open_pipe_def pipe_books)
next
  case Filter_test
  with assms show ?thesis by (auto simp: open_pipe_def pipe_books dest!: loop_test_open)
next
  case Filter_pop
  with assms obtain w q' where *: "loop_pop (pp_filter s) (pp_q1 s) = Some (w, q')" "s' = s\<lparr>pp_filter := w, pp_q1 := q'\<rparr>"
    by auto
  from loop_pop_open[OF _ *(1), of c] assms(1) *(2) show ?thesis by (auto simp: open_pipe_def pipe_books ac_simps)
next
  case Filter_drop
  with assms show ?thesis
    by (auto simp: open_pipe_def pipe_books intro!: bag_completes split: loop_state.splits)
next
  case (Filter_pass p)
  with assms show ?thesis by (auto simp: open_pipe_def pipe_books split: loop_state.splits)
next
  case Offer_filter
  with assms obtain h h' q' where *: "pp_filter s = Pushing h" "offer h (pp_q2 s) = Some (h', q')"
      "s' = s\<lparr>pp_filter := (if h' = Idle then Checking else Pushing h'), pp_q2 := q'\<rparr>"
    by (auto split: loop_state.splits)
  from offer_open[OF _ *(2), of c] assms(1) *(1,3) show ?thesis by (auto simp: open_pipe_def pipe_books)
next
  case Llm_test
  with assms show ?thesis by (auto simp: open_pipe_def pipe_books dest!: loop_test_open)
next
  case Llm_pop
  with assms obtain w q' where *: "loop_pop (pp_llm s) (pp_q2 s) = Some (w, q')" "s' = s\<lparr>pp_llm := w, pp_q2 := q'\<rparr>"
    by auto
  from loop_pop_open[OF _ *(1), of c] assms(1) *(2) show ?thesis by (auto simp: open_pipe_def pipe_books ac_simps)
next
  case Llm_done
  with assms show ?thesis
    by (auto simp: open_pipe_def pipe_books intro!: bag_completes split: loop_state.splits)
next
  case Close_capture
  with assms show ?thesis by (auto split: if_splits)
next
  case Close_filter
  with assms show ?thesis by (auto split: if_splits)
next
  case Close_llm
  with assms show ?thesis by (auto simp: open_pipe_def pipe_books split: if_splits)
qed (auto simp: open_pipe_def pipe_books split: if_splits)

lemma closing_stays: "pipe_step e s = Some s' \<Longrightarrow> pp_closing s \<Longrightarrow> pp_closing s'"
  by (cases e) (auto split: if_splits loop_state.splits)

definition pipe_inv :: "nat \<Rightarrow> 'f pipe \<Rightarrow> bool" where
  "pipe_inv c s \<longleftrightarrow> pp_closing s \<or> open_pipe c s \<and> mset (pp_emitted s) = pending s + handled_flows s"

lemma pipe_inv_step:
  assumes "pipe_inv c s" "pipe_step e s = Some s'" shows "pipe_inv c s'"
proof (cases "pp_closing s'")
  case False
  with assms closing_stays have "\<not> pp_closing s" by blast
  with open_step[of c s e s'] assms False show ?thesis by (auto simp: pipe_inv_def bag_def ac_simps)
qed (simp add: pipe_inv_def)

lemma run_stage_inv:
  "run_stage pipe_step evs s = Some s' \<Longrightarrow> pipe_inv c s \<Longrightarrow> pipe_inv c s'"
proof (induction evs arbitrary: s)
  case (Cons e evs)
  then show ?case by (auto split: option.splits dest: pipe_inv_step)
qed simp

lemma pipe_run_inv: "pipe_run c evs = Some s \<Longrightarrow> pipe_inv c s"
  unfolding pipe_run_def
  by (erule run_stage_inv)
    (simp add: pipe_inv_def open_pipe_def open_queue_def pipe_books new_pipe_def in_queue_def set_blocking_def new_queue_def)

section \<open>Liveness\<close>

text \<open>The steps of the capture thread's push and of the workers.\<close>

fun work_event :: "'f pipe_event \<Rightarrow> bool" where
  "work_event (Emit _) = False"
| "work_event Capture_end = False"
| "work_event Sample = False"
| "work_event Decide = False"
| "work_event Close_capture = False"
| "work_event Close_filter = False"
| "work_event Close_llm = False"
| "work_event _ = True"

text \<open>How many such steps the pending flows need at most.\<close>

fun hand_work :: "nat \<Rightarrow> 'f hand \<Rightarrow> nat" where
  "hand_work n Idle = 0"
| "hand_work n (Offering _ _) = n + 2"
| "hand_work n (Waiting _ _) = n + 1"

fun loop_work :: "nat \<Rightarrow> 'f loop_state \<Rightarrow> nat" where
  "loop_work n Checking = 1"
| "loop_work n (Working _) = n + 2"
| "loop_work n (Pushing h) = (if h = Idle then 0 else hand_work 3 h + 1)"
| "loop_work n _ = 0"

definition work :: "'f pipe \<Rightarrow> nat" where
  "work s = hand_work 9 (pp_capture s) + 9 * length (q (pp_q1 s)) + loop_work 6 (pp_filter s)
     + 3 * length (q (pp_q2 s)) + loop_work 0 (pp_llm s)"

lemma offer_work:
  "open_queue c s \<Longrightarrow> offer h s = Some (h', s') \<Longrightarrow>
   hand_work n h' + n * length (q s') < hand_work n h + n * length (q s)"
  by (cases h) (auto simp: offer_def open_queue_def queue_ops split: if_splits)

lemma loop_pop_work:
  "open_queue c s \<Longrightarrow> loop_pop w s = Some (w', s') \<Longrightarrow>
   loop_work n w' + (n + 3) * length (q s') < loop_work n w + (n + 3) * length (q s)"
  by (auto simp: loop_pop_def pop_def first_entry_def open_queue_def split: if_splits list.splits)

lemma loop_test_work: "loop_test True w = Some w' \<Longrightarrow> loop_work n w' < loop_work n w"
  by (auto simp: loop_test_def split: if_splits)

lemma work_decreases:
  assumes "open_pipe c s" "work_event e" "pipe_step e s = Some s'"
  shows "work s' < work s"
proof -
  have q: "open_queue c (pp_q1 s)" "open_queue c (pp_q2 s)" using assms(1) by (auto simp: open_pipe_def)
  show ?thesis
  proof (cases e)
    case Offer_capture
    with assms obtain h q' where *: "offer (pp_capture s) (pp_q1 s) = Some (h, q')" "s' = s\<lparr>pp_capture := h, pp_q1 := q'\<rparr>"
      by auto
    from offer_work[OF q(1) *(1), of 9] *(2) show ?thesis by (simp add: work_def)
  next
    case Filter_test
    with assms show ?thesis by (auto simp: open_pipe_def work_def dest: loop_test_work[of _ _ 6])
  next
    case Filter_pop
    with assms obtain w q' where *: "loop_pop (pp_filter s) (pp_q1 s) = Some (w, q')" "s' = s\<lparr>pp_filter := w, pp_q1 := q'\<rparr>"
      by auto
    from loop_pop_work[OF q(1) *(1), of 6] *(2) show ?thesis by (simp add: work_def)
  next
    case Offer_filter
    with assms obtain h h' q' where *: "pp_filter s = Pushing h" "offer h (pp_q2 s) = Some (h', q')"
        "s' = s\<lparr>pp_filter := (if h' = Idle then Checking else Pushing h'), pp_q2 := q'\<rparr>"
      by (auto split: loop_state.splits)
    from offer_work[OF q(2) *(2), of 3] *(1,3) show ?thesis
      by (cases "h = Idle") (use *(2) in \<open>auto simp: work_def offer_def\<close>)
  next
    case Llm_test
    with assms show ?thesis by (auto simp: open_pipe_def work_def dest: loop_test_work[of _ _ 0])
  next
    case Llm_pop
    with assms obtain w q' where *: "loop_pop (pp_llm s) (pp_q2 s) = Some (w, q')" "s' = s\<lparr>pp_llm := w, pp_q2 := q'\<rparr>"
      by auto
    from loop_pop_work[OF q(2) *(1), of 0] *(2) show ?thesis by (simp add: work_def)
  qed (use assms in \<open>auto simp: work_def split: loop_state.splits if_splits\<close>)
qed

lemma loop_pop_ready: "loop_pop Popping s = None \<Longrightarrow> q s = []"
  by (auto simp: loop_pop_def pop_def first_entry_def split: list.splits if_splits)

lemma offer_ready: "open_queue c s \<Longrightarrow> 0 < c \<Longrightarrow> q s = [] \<Longrightarrow> offer h s = None \<Longrightarrow> h = Idle"
  by (cases h) (auto simp: offer_def open_queue_def queue_ops)

lemma stuck_is_drained:
  assumes "open_pipe c s" "0 < c" and stuck: "\<And>e. work_event e \<Longrightarrow> pipe_step e s = None"
  shows "pending s = {#}"
proof -
  have q: "open_queue c (pp_q1 s)" "open_queue c (pp_q2 s)" and l: "looping (pp_filter s)" "looping (pp_llm s)"
    "\<forall>h. pp_llm s \<noteq> Pushing h" using assms(1) by (auto simp: open_pipe_def)
  have llm: "pp_llm s = Popping"
    using stuck[of Llm_test] stuck[of Llm_done] l(2,3) by (cases "pp_llm s") (auto simp: loop_test_def)
  then have q2: "q (pp_q2 s) = []" using stuck[of Llm_pop] by (auto intro: loop_pop_ready)
  have filt: "pp_filter s = Popping"
    using stuck[of Filter_test] stuck[of Filter_drop] stuck[of Offer_filter] l(1) offer_ready[OF q(2) assms(2) q2]
    by (cases "pp_filter s") (auto simp: loop_test_def)
  then have q1: "q (pp_q1 s) = []" using stuck[of Filter_pop] by (auto intro: loop_pop_ready)
  have "pp_capture s = Idle" using stuck[of Offer_capture] offer_ready[OF q(1) assms(2) q1] by auto
  with llm filt q1 q2 show ?thesis by (simp add: pending_def in_queue_def)
qed

lemma work_run:
  "run_stage pipe_step ws s = Some s' \<Longrightarrow> open_pipe c s \<Longrightarrow> \<not> pp_closing s \<Longrightarrow> list_all work_event ws \<Longrightarrow>
   open_pipe c s' \<and> \<not> pp_closing s' \<and> length ws + work s' \<le> work s"
proof (induction ws arbitrary: s)
  case (Cons e ws)
  from Cons.prems(1) obtain s1 where s1: "pipe_step e s = Some s1" "run_stage pipe_step ws s1 = Some s'"
    by (auto split: option.splits)
  have "\<not> pp_closing s1" using s1(1) Cons.prems(3,4) by (cases e) (auto split: loop_state.splits)
  with open_step[OF Cons.prems(2) s1(1) Cons.prems(3)] Cons.IH[OF s1(2)] work_decreases[OF Cons.prems(2) _ s1(1)] Cons.prems(4)
  show ?case by fastforce
qed simp


section \<open>Claims\<close>

text \<open>
  C5: Until the shutdown starts, the offline pipeline is a lossless bag: neither queue has dropped anything,
  the flows emitted so far are exactly the pending ones and the filtered or analyzed ones, and every step of
  every thread, in any interleaving, either changes neither set, accepts a new flow, or moves one pending
  flow to the handled ones.
\<close>

theorem offline_pipe_refines_bag:
  assumes "pipe_run c evs = Some s" and "pipe_step e s = Some s'" and "\<not> pp_closing s'"
  shows "(bag s' = bag s \<or> bag_step (bag s) (bag s')) \<and> mset (pp_emitted s) = fst (bag s) + snd (bag s)
    \<and> dropped_count (pp_q1 s) = 0 \<and> dropped_count (pp_q2 s) = 0"
proof -
  have open_s: "\<not> pp_closing s" using closing_stays assms(2,3) by blast
  with pipe_run_inv[OF assms(1)] have s: "open_pipe c s" "mset (pp_emitted s) = pending s + handled_flows s"
    by (auto simp: pipe_inv_def)
  from open_step[OF s(1) assms(2) open_s assms(3)] have "bag s' = bag s \<or> bag_step (bag s) (bag s')" by blast
  with s show ?thesis by (auto simp: bag_def open_pipe_def open_queue_def)
qed

theorem offline_pipe_refines_bag_witness:
  "\<exists>s s'. pipe_run 1 [Emit (7::nat)] = Some s \<and> pipe_step Offer_capture s = Some s' \<and> \<not> pp_closing s' \<and> pending s' = {#7#}
     \<and> (bag s' = bag s \<or> bag_step (bag s) (bag s'))"
proof -
  define s where "s = (new_pipe 1)\<lparr>pp_capture := Offering (7::nat) 0, pp_emitted := [7]\<rparr>"
  define s' where "s' = s\<lparr>pp_capture := Idle, pp_q1 := (pp_q1 s)\<lparr>q := [(0, 7)]\<rparr>\<rparr>"
  have run: "pipe_run 1 [Emit (7::nat)] = Some s" by (simp add: pipe_run_def s_def new_pipe_def)
  have step: "pipe_step Offer_capture s = Some s'" and "\<not> pp_closing s'"
    by (simp_all add: s'_def s_def new_pipe_def offer_def push_def set_blocking_def new_queue_def)
  moreover have "pending s' = {#7#}"
    by (simp add: pending_def in_queue_def s'_def s_def new_pipe_def set_blocking_def new_queue_def)
  ultimately show ?thesis using run offline_pipe_refines_bag[OF run step] by blast
qed

text \<open>
  C6: The offline pipeline drains: with a positive queue capacity, from any moment before the shutdown, every
  schedule of the workers and of the pending push of the capture thread ends after at most \<open>work s\<close> steps, and
  when none of these threads can take a step any more, every emitted flow has been filtered or analyzed.  So
  no interleaving deadlocks on full queues.
\<close>

theorem offline_pipe_drains:
  assumes "pipe_run c evs = Some s" and "\<not> pp_closing s" and "0 < c"
    and "list_all work_event ws" and "run_stage pipe_step ws s = Some s'"
  shows "length ws \<le> work s \<and>
    ((\<forall>e. work_event e \<longrightarrow> pipe_step e s' = None) \<longrightarrow> mset (pp_emitted s') = mset (pp_filtered s') + mset (pp_analyzed s'))"
proof -
  from pipe_run_inv[OF assms(1)] assms(2) have s: "open_pipe c s" by (simp add: pipe_inv_def)
  from work_run[OF assms(5) s assms(2,4)] have s': "open_pipe c s'" "\<not> pp_closing s'" "length ws + work s' \<le> work s" by auto
  from run_stage_inv[OF assms(5) pipe_run_inv[OF assms(1)]] s'(2) have books: "mset (pp_emitted s') = pending s' + handled_flows s'"
    by (simp add: pipe_inv_def)
  then show ?thesis using s'(3) stuck_is_drained[OF s'(1) assms(3)] by (auto simp: handled_flows_def)
qed

text \<open>A pipeline in which everything happened that can happen to the flow 7.\<close>

definition drain_schedule :: "nat pipe_event list" where
  "drain_schedule = [Offer_capture, Filter_test, Filter_pop, Filter_pass 40, Offer_filter, Filter_test, Llm_test, Llm_pop,
     Llm_done, Llm_test]"

lemmas pipe_eval = pipe_run_def new_pipe_def offer_def loop_test_def loop_pop_def queue_ops first_entry_def new_queue_def
  queue_size_def emplace.simps count_drop_def

theorem offline_pipe_drains_witness:
  "\<exists>s s'. pipe_run 1 [Emit (7::nat)] = Some s \<and> run_stage pipe_step drain_schedule s = Some s' \<and> length drain_schedule \<le> work s
     \<and> mset (pp_emitted s') = mset (pp_filtered s') + mset (pp_analyzed s') \<and> pp_analyzed s' = [7]"
proof -
  obtain s where run: "pipe_run 1 [Emit (7::nat)] = Some s" and open_s: "\<not> pp_closing s"
    by (simp add: pipe_run_def new_pipe_def)
  have s: "s = (new_pipe 1)\<lparr>pp_capture := Offering 7 0, pp_emitted := [7]\<rparr>" using run by (simp add: pipe_run_def new_pipe_def)
  define s' where "s' = (new_pipe 1)\<lparr>pp_filter := Popping, pp_llm := Popping, pp_emitted := [7::nat], pp_analyzed := [7]\<rparr>"
  have sched: "run_stage pipe_step drain_schedule s = Some s'"
    by (simp add: drain_schedule_def s s'_def pipe_eval)
  have ev: "list_all work_event drain_schedule" by (simp add: drain_schedule_def)
  have stuck: "pipe_step e s' = None" if "work_event e" for e
    using that by (cases e) (simp_all add: s'_def pipe_eval)
  have "pp_analyzed s' = [7]" by (simp add: s'_def)
  with offline_pipe_drains[OF run open_s _ ev sched] stuck run sched show ?thesis by (intro exI[of _ s] exI[of _ s']) auto
qed

definition losing_schedule :: "'f \<Rightarrow> 'f \<Rightarrow> int \<Rightarrow> 'f pipe_event list" where
  "losing_schedule a b p =
     [Emit a, Offer_capture, Filter_test, Filter_pop, Filter_pass p, Offer_filter, Filter_test, Llm_test, Llm_pop,
      Emit b, Offer_capture, Filter_pop, Capture_end, Sample, Decide, Filter_pass p, Offer_filter,
      Close_capture, Filter_test, Close_filter, Llm_done, Llm_test, Close_llm]"

text \<open>
  C25: The shutdown of an offline run can lose a flow although the backpressure is meant to have every flow
  analyzed: whatever the capacity, there is an interleaving in which the filter is still working on the second
  flow when the monitor sees two empty queues and the end of the capture, the flow is then queued for a model
  that is busy with the first one, and the pipeline has shut down with the second flow neither filtered,
  analyzed nor counted as dropped.
\<close>

theorem shutdown_can_lose_flow:
  "\<exists>s. pipe_run (Suc n) (losing_schedule a b p) = Some s \<and> pp_llm s = Joined \<and> pp_filter s = Joined \<and> pp_emitted s = [a, b]
     \<and> pp_analyzed s = [a] \<and> pp_filtered s = [] \<and> dropped_count (pp_q1 s) + dropped_count (pp_q2 s) = 0"
  by (simp add: losing_schedule_def pipe_eval)

end
