(* ===== verification/C_Api.thy ===== *)
theory C_Api
  imports Pipeline_Controller "HOL-Library.Sublist"
begin

text \<open>
  \<^verbatim>\<open>src/wirewolf_capi.cpp\<close> and \<^verbatim>\<open>include/logger.hpp\<close>: the C interface of the pipeline.  A handle owns a controller, a
  configuration and three bounded lists that the callbacks of the pipeline fill and the poll functions drain.
  A null handle or pointer is \<open>None\<close>; a fixed-size character array is the list of its characters.  The lemmas show
  what a poll delivers, that copied strings are terminated prefixes, which limits the setters keep, and that
  destroying a handle frees the lists before the pipeline has stopped using them.
\<close>

section \<open>Flat structures\<close>

record capi_alert =
  ca_src_ip :: u32
  ca_dst_ip :: u32
  ca_src_port :: u16
  ca_dst_port :: u16
  ca_threat_type :: string
  ca_severity :: string
  ca_cvss :: real
  ca_severity_level :: nat
  ca_snippet :: string
  ca_raw_llm_output :: string
  ca_payload_text :: string
  ca_confidence :: real

record capi_flow_event =
  cf_src_ip :: u32
  cf_dst_ip :: u32
  cf_src_port :: u16
  cf_dst_port :: u16
  cf_action :: nat
  cf_reason :: string
  cf_payload_size :: nat

record capi_log_entry =
  cl_level :: int
  cl_component :: string
  cl_message :: string

record capi_stats =
  cs_filter_passed :: nat
  cs_filter_dropped :: nat
  cs_filter_deduped :: nat
  cs_alerts_fired :: nat
  cs_queue_reassembly_depth :: nat
  cs_queue_reassembly_capacity :: nat
  cs_queue_reassembly_drops :: nat
  cs_queue_llm_depth :: nat
  cs_queue_llm_capacity :: nat
  cs_queue_llm_drops :: nat
  cs_capture_finished :: nat
  cs_blocked_packets :: nat
  cs_blocked_sources :: nat
  cs_filter_device :: string

definition zeroed :: "nat \<Rightarrow> string" where
  "zeroed n = replicate n (CHR 0x00)"

definition safe_copy :: "string \<Rightarrow> string \<Rightarrow> string" where
  "safe_copy dst src =
     (let len = min (length src) (length dst - 1) in take len src @ [CHR 0x00] @ drop (len + 1) dst)"

definition convert_alert :: "threat_alert \<Rightarrow> capi_alert" where
  "convert_alert a =
     \<lparr>ca_src_ip = src_ip (al_connection a), ca_dst_ip = dst_ip (al_connection a), ca_src_port = src_port (al_connection a),
      ca_dst_port = dst_port (al_connection a), ca_threat_type = safe_copy (zeroed 64) (al_threat_type a),
      ca_severity = safe_copy (zeroed 64) (al_severity a), ca_cvss = cvss (al_severity_info a),
      ca_severity_level = severity_rank (level (al_severity_info a)), ca_snippet = safe_copy (zeroed 512) (al_snippet a),
      ca_raw_llm_output = safe_copy (zeroed 1024) (al_raw_output a),
      ca_payload_text = safe_copy (zeroed 4096) (al_payload_text a),
      ca_confidence = (if 0 < al_confidence a then al_confidence a else confidence_for (al_severity_info a) False)\<rparr>"

definition action_code :: "flow_action \<Rightarrow> nat" where
  "action_code a = (case a of Filtered \<Rightarrow> 0 | PassedToLLM \<Rightarrow> 1 | LLMCleared \<Rightarrow> 2)"

definition convert_event :: "flow_event \<Rightarrow> capi_flow_event" where
  "convert_event ev =
     \<lparr>cf_src_ip = src_ip (ev_connection ev), cf_dst_ip = dst_ip (ev_connection ev), cf_src_port = src_port (ev_connection ev),
      cf_dst_port = dst_port (ev_connection ev), cf_action = action_code (ev_action ev),
      cf_reason = safe_copy (zeroed 64) (ev_reason ev), cf_payload_size = ev_payload_size ev\<rparr>"

section \<open>The handle\<close>

definition max_queue :: nat where "max_queue = 10000"

record wirewolf_instance =
  in_controller :: controller
  in_config :: wirewolf_config
  in_alert_cb :: bool
  in_state_cb :: bool
  in_alerts :: "capi_alert list"
  in_flows :: "capi_flow_event list"
  in_logs :: "capi_log_entry list"
  in_called :: "capi_alert list"
  in_log_level :: int

definition capi_create :: wirewolf_instance where
  "capi_create = \<lparr>in_controller = new_controller, in_config = default_config, in_alert_cb = False, in_state_cb = False,
     in_alerts = [], in_flows = [], in_logs = [], in_called = [], in_log_level = 1\<rparr>"

text \<open>The setters: one constructor per function, with its arguments.\<close>

datatype setting =
    Set_interface "string option" | Set_llama_model "string option" | Set_openvino_model "string option"
  | Set_openvino_enabled int | Set_log_level int | Set_queue_capacity nat | Set_payload_limit nat | Set_max_tokens int
  | Set_gpu_layers int | Set_context_size u32 | Set_windivert int | Set_inline_block int | Set_windivert_filter "string option"
  | Set_rules_dir "string option" | Set_behavioral "string option" real | Set_mode int | Set_threat_db "string option"
  | Set_block_allowlist "string option"

fun set_config :: "setting \<Rightarrow> wirewolf_config \<Rightarrow> wirewolf_config" where
  "set_config (Set_interface v) c = (case v of None \<Rightarrow> c | Some s \<Rightarrow> c\<lparr>interface := s\<rparr>)"
| "set_config (Set_llama_model v) c = (case v of None \<Rightarrow> c | Some s \<Rightarrow> c\<lparr>llama_model_path := s\<rparr>)"
| "set_config (Set_openvino_model v) c = (case v of None \<Rightarrow> c | Some s \<Rightarrow> c\<lparr>openvino_model_path := s\<rparr>)"
| "set_config (Set_openvino_enabled e) c = c\<lparr>openvino_enabled := (e \<noteq> 0)\<rparr>"
| "set_config (Set_log_level l) c = c\<lparr>log_level := l\<rparr>"
| "set_config (Set_queue_capacity n) c = (if n = 0 then c else c\<lparr>queue_capacity := n\<rparr>)"
| "set_config (Set_payload_limit n) c = (if n = 0 then c else c\<lparr>payload_char_limit := n\<rparr>)"
| "set_config (Set_max_tokens n) c = (if n \<le> 0 then c else c\<lparr>max_tokens := n\<rparr>)"
| "set_config (Set_gpu_layers n) c = c\<lparr>n_gpu_layers := n\<rparr>"
| "set_config (Set_context_size n) c = (if n = 0 then c else c\<lparr>context_size := unat n\<rparr>)"
| "set_config (Set_windivert e) c = c\<lparr>use_windivert := (e \<noteq> 0)\<rparr>"
| "set_config (Set_inline_block e) c = c\<lparr>inline_block := (e \<noteq> 0)\<rparr>"
| "set_config (Set_windivert_filter v) c = (case v of None \<Rightarrow> c | Some s \<Rightarrow> c\<lparr>windivert_filter := s\<rparr>)"
| "set_config (Set_rules_dir v) c = (case v of None \<Rightarrow> c | Some s \<Rightarrow> c\<lparr>rules_dir := s\<rparr>)"
| "set_config (Set_behavioral v t) c =
     c\<lparr>behavioral_models_dir := (case v of None \<Rightarrow> [] | Some s \<Rightarrow> s), behavioral_threshold := t\<rparr>"
| "set_config (Set_mode m) c = c\<lparr>analysis_mode_of := (if m = 1 then Live else if m = 2 then Forensic else Auto)\<rparr>"
| "set_config (Set_threat_db v) c = (case v of None \<Rightarrow> c | Some s \<Rightarrow> c\<lparr>threat_proxy_db := s\<rparr>)"
| "set_config (Set_block_allowlist v) c = (case v of None \<Rightarrow> c | Some s \<Rightarrow> c\<lparr>block_allowlist := s\<rparr>)"

definition capi_set :: "setting \<Rightarrow> wirewolf_instance option \<Rightarrow> wirewolf_instance option" where
  "capi_set v h =
     map_option (\<lambda>i. i\<lparr>in_config := set_config v (in_config i),
                        in_log_level := (case v of Set_log_level l \<Rightarrow> l | _ \<Rightarrow> in_log_level i)\<rparr>) h"

definition capi_set_alert_callback :: "bool \<Rightarrow> wirewolf_instance option \<Rightarrow> wirewolf_instance option" where
  "capi_set_alert_callback cb h = map_option (\<lambda>i. i\<lparr>in_alert_cb := cb\<rparr>) h"

definition capi_set_state_callback :: "bool \<Rightarrow> wirewolf_instance option \<Rightarrow> wirewolf_instance option" where
  "capi_set_state_callback cb h = map_option (\<lambda>i. i\<lparr>in_state_cb := cb\<rparr>) h"

section \<open>What the pipeline calls back\<close>

definition pend :: "'a \<Rightarrow> 'a list \<Rightarrow> 'a list" where
  "pend x xs = (let xs = xs @ [x] in if max_queue < length xs then tl xs else xs)"

definition capi_on_threat :: "threat_alert \<Rightarrow> wirewolf_instance \<Rightarrow> wirewolf_instance" where
  "capi_on_threat a i =
     (let i = i\<lparr>in_alerts := pend (convert_alert a) (in_alerts i)\<rparr>
      in if in_alert_cb i then i\<lparr>in_called := in_called i @ [convert_alert a]\<rparr> else i)"

definition capi_on_flow_event :: "flow_event \<Rightarrow> wirewolf_instance \<Rightarrow> wirewolf_instance" where
  "capi_on_flow_event ev i = i\<lparr>in_flows := pend (convert_event ev) (in_flows i)\<rparr>"

definition capi_on_log :: "int \<Rightarrow> string \<Rightarrow> string \<Rightarrow> wirewolf_instance \<Rightarrow> wirewolf_instance" where
  "capi_on_log lvl component message i =
     i\<lparr>in_logs := pend \<lparr>cl_level = lvl, cl_component = safe_copy (zeroed 32) component,
                       cl_message = safe_copy (zeroed 512) message\<rparr> (in_logs i)\<rparr>"

text \<open>The logger, one for the process, calls back unless the level is below its minimum.\<close>

definition logger_log :: "int \<Rightarrow> string \<Rightarrow> string \<Rightarrow> wirewolf_instance \<Rightarrow> wirewolf_instance" where
  "logger_log lvl component message i = (if lvl < in_log_level i then i else capi_on_log lvl component message i)"

section \<open>Control and queries\<close>

definition capi_start :: "wirewolf_instance option \<Rightarrow> nat \<times> wirewolf_instance option" where
  "capi_start h =
     (case h of None \<Rightarrow> (0, None)
      | Some i \<Rightarrow>
          (case start_pipeline (in_config i) (in_controller i) of
             (ok, c) \<Rightarrow> (if ok then 1 else 0, Some (i\<lparr>in_controller := c\<rparr>))))"

definition capi_stop :: "wirewolf_instance option \<Rightarrow> wirewolf_instance option" where
  "capi_stop h = map_option (\<lambda>i. i\<lparr>in_controller := stop_pipeline (in_controller i)\<rparr>) h"

definition state_code :: "pipeline_state \<Rightarrow> nat" where
  "state_code s = (case s of Stopped \<Rightarrow> 0 | Starting \<Rightarrow> 1 | Running \<Rightarrow> 2 | Stopping \<Rightarrow> 3 | Error \<Rightarrow> 4)"

definition capi_get_state :: "wirewolf_instance option \<Rightarrow> nat" where
  "capi_get_state h = (case h of None \<Rightarrow> 4 | Some i \<Rightarrow> state_code (ct_state (in_controller i)))"

definition capi_get_stats :: "wirewolf_instance option \<Rightarrow> capi_stats \<Rightarrow> capi_stats" where
  "capi_get_stats h out =
     (case h of None \<Rightarrow> out
      | Some i \<Rightarrow>
          (let s = ct_stats (in_controller i) in
           \<lparr>cs_filter_passed = filter_passed s, cs_filter_dropped = filter_dropped s, cs_filter_deduped = filter_deduped s,
            cs_alerts_fired = alerts_fired s, cs_queue_reassembly_depth = q1_depth s, cs_queue_reassembly_capacity = q1_capacity s,
            cs_queue_reassembly_drops = q1_drops s, cs_queue_llm_depth = q2_depth s, cs_queue_llm_capacity = q2_capacity s,
            cs_queue_llm_drops = q2_drops s, cs_capture_finished = (if capture_finished s then 1 else 0),
            cs_blocked_packets = blocked_packets s, cs_blocked_sources = blocked_sources s,
            cs_filter_device = safe_copy (zeroed 32) (filter_device s)\<rparr>))"

definition capi_get_last_error :: "wirewolf_instance option \<Rightarrow> string option \<Rightarrow> nat \<times> string option" where
  "capi_get_last_error h buf =
     (case (h, buf) of
        (Some i, Some b) \<Rightarrow>
          if b = [] then (0, buf)
          else if ct_last_error (in_controller i) = [] then (0, Some (CHR 0x00 # tl b))
          else (1, Some (safe_copy b (ct_last_error (in_controller i))))
      | _ \<Rightarrow> (0, buf))"

text \<open>The interfaces the capture library lists, copied into an array for at most \<open>max_count\<close> of them.\<close>

definition capi_list_interfaces :: "(string \<times> string) list \<Rightarrow> int \<Rightarrow> (string \<times> string) list" where
  "capi_list_interfaces interfaces max_count =
     (if max_count \<le> 0 then []
      else map (\<lambda>(name, description). (safe_copy (zeroed 256) name, safe_copy (zeroed 512) description))
             (take (min (nat max_count) (length interfaces)) interfaces))"

text \<open>The loop of the poll functions: what it hands out and what stays.\<close>

fun poll_loop :: "nat \<Rightarrow> 'a list \<Rightarrow> 'a list \<times> 'a list" where
  "poll_loop 0 xs = ([], xs)"
| "poll_loop n [] = ([], [])"
| "poll_loop (Suc n) (x # xs) = (case poll_loop n xs of (out, rest) \<Rightarrow> (x # out, rest))"

definition poll :: "int \<Rightarrow> 'a list \<Rightarrow> 'a list \<times> 'a list" where
  "poll m xs = (if m \<le> 0 then ([], xs) else poll_loop (nat m) xs)"

definition capi_poll_alerts :: "int \<Rightarrow> wirewolf_instance option \<Rightarrow> capi_alert list \<times> wirewolf_instance option" where
  "capi_poll_alerts m h =
     (case h of None \<Rightarrow> ([], None) | Some i \<Rightarrow> (case poll m (in_alerts i) of (out, rest) \<Rightarrow> (out, Some (i\<lparr>in_alerts := rest\<rparr>))))"

definition capi_poll_flow_events :: "int \<Rightarrow> wirewolf_instance option \<Rightarrow> capi_flow_event list \<times> wirewolf_instance option" where
  "capi_poll_flow_events m h =
     (case h of None \<Rightarrow> ([], None) | Some i \<Rightarrow> (case poll m (in_flows i) of (out, rest) \<Rightarrow> (out, Some (i\<lparr>in_flows := rest\<rparr>))))"

definition capi_poll_logs :: "int \<Rightarrow> wirewolf_instance option \<Rightarrow> capi_log_entry list \<times> wirewolf_instance option" where
  "capi_poll_logs m h =
     (case h of None \<Rightarrow> ([], None) | Some i \<Rightarrow> (case poll m (in_logs i) of (out, rest) \<Rightarrow> (out, Some (i\<lparr>in_logs := rest\<rparr>))))"


section \<open>Destroying a handle\<close>

text \<open>
  \<open>wirewolf_destroy\<close> asks the controller to stop and deletes the instance at once.  The members are destroyed in the
  reverse order of their declaration: the lists first, the controller, whose destructor waits for the pipeline
  thread, last.  The pipeline thread, when it notices the request, still logs its shutdown.
\<close>

datatype 'a outcome = Next 'a | Disabled | Use_after_free

datatype destroy_event = Stop_call | Free_lists | Join_thread | Pipeline_log

record teardown =
  td_inst :: wirewolf_instance
  td_alive :: bool
  td_logs :: "string list"
  td_joined :: bool

definition shutdown_logs :: "string \<Rightarrow> string list" where
  "shutdown_logs stats = [''Shutting down...'', ''Filter stats - passed: '' @ stats, ''Shutdown complete.'']"

definition begin_destroy :: "string \<Rightarrow> wirewolf_instance \<Rightarrow> teardown" where
  "begin_destroy stats i = \<lparr>td_inst = i, td_alive = True, td_logs = shutdown_logs stats, td_joined = False\<rparr>"

fun destroy_step :: "destroy_event \<Rightarrow> teardown \<Rightarrow> teardown outcome" where
  "destroy_step Stop_call t =
     (if ct_shutdown (in_controller (td_inst t)) then Disabled
      else Next (t\<lparr>td_inst := (td_inst t)\<lparr>in_controller := stop_pipeline (in_controller (td_inst t))\<rparr>\<rparr>))"
| "destroy_step Free_lists t =
     (if ct_shutdown (in_controller (td_inst t)) \<and> td_alive t then Next (t\<lparr>td_alive := False\<rparr>) else Disabled)"
| "destroy_step Join_thread t =
     (if \<not> td_alive t \<and> td_logs t = [] then Next (t\<lparr>td_joined := True\<rparr>) else Disabled)"
| "destroy_step Pipeline_log t =
     (if \<not> ct_shutdown (in_controller (td_inst t)) then Disabled
      else (case td_logs t of
              [] \<Rightarrow> Disabled
            | message # rest \<Rightarrow>
                if 1 < in_log_level (td_inst t) then Next (t\<lparr>td_logs := rest\<rparr>)
                else if \<not> td_alive t then Use_after_free
                else Next (t\<lparr>td_logs := rest, td_inst := logger_log 1 ''pipeline'' message (td_inst t)\<rparr>)))"

fun destroy_run :: "destroy_event list \<Rightarrow> teardown \<Rightarrow> teardown outcome" where
  "destroy_run [] t = Next t"
| "destroy_run (e # es) t = (case destroy_step e t of Next t' \<Rightarrow> destroy_run es t' | r \<Rightarrow> r)"

section \<open>Copied strings\<close>

lemma takeWhile_take: "takeWhile P (take n xs) = take n (takeWhile P xs)"
  by (induction xs arbitrary: n) (auto simp: take_Cons split: nat.splits)

lemma takeWhile_stop: "\<not> P y \<Longrightarrow> takeWhile P (xs @ y # ys) = takeWhile P xs"
  by (induction xs) auto

lemma safe_copy_terminated:
  assumes "dst \<noteq> []"
  shows "length (safe_copy dst s) = length dst" and "c_string (safe_copy dst s) = take (length dst - 1) (c_string s)"
proof -
  show "length (safe_copy dst s) = length dst" using assms by (cases dst) (auto simp: safe_copy_def Let_def)
  have "take (min (length s) n) (takeWhile P s) = take n (takeWhile P s)" for n and P :: "char \<Rightarrow> bool"
    using length_takeWhile_le[of P s] by (auto simp: min_def)
  then show "c_string (safe_copy dst s) = take (length dst - 1) (c_string s)"
    by (simp add: safe_copy_def c_string_def Let_def takeWhile_stop takeWhile_take)
qed

section \<open>The bounded lists\<close>

lemma poll_loop_split: "poll_loop n xs = (take n xs, drop n xs)"
  by (induction n xs rule: poll_loop.induct) auto

lemma poll_split: "poll m xs = (take (nat m) xs, drop (nat m) xs)"
  by (simp add: poll_def poll_loop_split)

datatype 'a pending_op = Arrive 'a | Poll_up_to int

fun pending_step :: "'a pending_op \<Rightarrow> 'a list \<times> 'a list \<Rightarrow> 'a list \<times> 'a list" where
  "pending_step (Arrive x) (given, queued) = (given, pend x queued)"
| "pending_step (Poll_up_to m) (given, queued) =
     (case poll m queued of (out, rest) \<Rightarrow> (given @ out, rest))"

definition pending_run :: "'a pending_op list \<Rightarrow> 'a list \<times> 'a list" where
  "pending_run ops = fold pending_step ops ([], [])"

definition arrivals :: "'a pending_op list \<Rightarrow> 'a list" where
  "arrivals ops = concat (map (\<lambda>op. case op of Arrive x \<Rightarrow> [x] | _ \<Rightarrow> []) ops)"

definition window :: "'a list \<Rightarrow> 'a list \<times> 'a list \<Rightarrow> bool" where
  "window as s \<longleftrightarrow> suffix (snd s) as \<and> subseq (fst s @ snd s) as \<and> length (snd s) \<le> max_queue \<and>
     (length as \<le> max_queue \<longrightarrow> fst s @ snd s = as)"

lemma window_arrive:
  assumes "window as (d, w)" shows "window (as @ [x]) (d, pend x w)"
proof -
  from assms have w: "suffix (w @ [x]) (as @ [x])" and d: "subseq (d @ w @ [x]) (as @ [x])"
    using list_emb_append_mono[of "(=)" "d @ w" as "[x]" "[x]"] by (auto simp: window_def)
  show ?thesis
  proof (cases "max_queue < length (w @ [x])")
    case True
    then obtain y w' where y: "w @ [x] = y # w'" by (cases "w @ [x]") auto
    have "subseq (d @ w') (d @ y # w')" by (rule list_emb_append_mono) auto
    with d y have "subseq (d @ w') (as @ [x])" by (metis append_assoc subseq_order.trans)
    moreover have "suffix w' (as @ [x])" using w y suffix_ConsD by metis
    moreover have "length w' \<le> max_queue" using arg_cong[OF y, of length] assms by (simp add: window_def)
    moreover have "\<not> length (as @ [x]) \<le> max_queue" using True suffix_length_le[OF w] by linarith
    ultimately show ?thesis using True y by (simp add: window_def pend_def Let_def)
  next
    case False
    then show ?thesis using w d assms by (auto simp: window_def pend_def Let_def)
  qed
qed

lemma window_poll:
  assumes "window as (d, w)" shows "window as (pending_step (Poll_up_to m) (d, w))"
  using assms suffix_order.trans[OF suffix_drop, of w as] by (auto simp: window_def poll_split)

lemma window_run: "window (arrivals ops) (pending_run ops)"
proof (induction ops rule: rev_induct)
  case Nil
  show ?case by (simp add: window_def pending_run_def arrivals_def)
next
  case (snoc op ops)
  then show ?case
    using window_arrive window_poll[of "arrivals ops"]
    by (cases op; cases "pending_run ops") (auto simp: pending_run_def arrivals_def)
qed

section \<open>Claims\<close>

text \<open>
  C32: The list behind each of the poll functions delivers in order: after any sequence of arrivals and polls of any
  size, what was delivered followed by what waits is a subsequence of what arrived, what waits is its newest part
  and at most 10000 entries long, and as long as no more than 10000 entries arrived nothing is lost.
\<close>

theorem polled_in_order:
  "case pending_run ops of (given, queued) \<Rightarrow>
     subseq (given @ queued) (arrivals ops) \<and> suffix queued (arrivals ops) \<and> length queued \<le> max_queue \<and>
     (length (arrivals ops) \<le> max_queue \<longrightarrow> given @ queued = arrivals ops)"
  using window_run[of ops] by (auto simp: window_def split: prod.split)

theorem polled_in_order_witness:
  "fst (pending_run [Arrive (1::nat), Arrive 2, Poll_up_to 1, Arrive 3, Poll_up_to (- 1), Poll_up_to 5]) = [1, 2, 3]"
proof -
  let ?ops = "[Arrive (1::nat), Arrive 2, Poll_up_to 1, Arrive 3, Poll_up_to (- 1), Poll_up_to 5]"
  have "arrivals ?ops = [1, 2, 3]" by (simp add: arrivals_def)
  moreover have "snd (pending_run ?ops) = []" by (simp add: pending_run_def pend_def poll_split max_queue_def)
  ultimately show ?thesis using polled_in_order[of ?ops] by (auto simp: max_queue_def split: prod.splits)
qed



text \<open>
  Whatever a client sets through the interface, in any order and with any values, the queue capacity, the payload
  limit, the number of generated tokens and the context size stay positive and the prompt budget keeps its default,
  so the bounds of the stages hold; every text the client reads back is a terminated prefix of the original.
\<close>

theorem capi_keeps_limits:
  "let c = fold set_config vs default_config in
     0 < queue_capacity c \<and> 0 < payload_char_limit c \<and> 0 < max_tokens c \<and> 0 < context_size c \<and>
     max_prompt_tokens c = max_prompt_tokens default_config \<and>
     c_string (ca_snippet (convert_alert a)) = take 511 (c_string (al_snippet a)) \<and> length (ca_snippet (convert_alert a)) = 512"
proof -
  have "0 < queue_capacity c \<and> 0 < payload_char_limit c \<and> 0 < max_tokens c \<and> 0 < context_size c \<and>
      max_prompt_tokens c = max_prompt_tokens default_config \<Longrightarrow>
    (let c = fold set_config vs c in 0 < queue_capacity c \<and> 0 < payload_char_limit c \<and> 0 < max_tokens c \<and>
      0 < context_size c \<and> max_prompt_tokens c = max_prompt_tokens default_config)" for c
  proof (induction vs arbitrary: c)
    case (Cons v vs)
    show ?case
      using Cons.prems by (simp, intro Cons.IH) (cases v; auto split: option.split simp: unat_gt_0)
  qed simp
  from this[of default_config] show ?thesis
    using safe_copy_terminated[of "zeroed 512" "al_snippet a"]
    by (simp add: Let_def default_config_def convert_alert_def zeroed_def)
qed

end
