(* ===== verification/Trainer.thy ===== *)
theory Trainer
  imports Tcp_Reassembly "HOL-Library.List_Lexorder"
begin

text \<open>
  \<^verbatim>\<open>tools/train_behavioral/train.cpp\<close>: the offline trainer of the behavioral models.  It reads labelled flow rows,
  groups them by connection, encodes every connection with the engine's encoder and trains one model per class;
  in its second mode it reads the state strings the engine exports and joins them with labels.  Files are lists
  of lines, \<open>None\<close> when they cannot be opened; floating-point scanning is an argument; a \<^verbatim>\<open>std::map\<close> is an association
  list, sorted by key where the code iterates it.  The lemmas show that the date arithmetic counts days, that the
  rows the engine exports are read back and joined in either direction, what raising the threshold does to the
  confusion matrix, and when the two label rules agree.
\<close>

section \<open>Dates and labels\<close>

datatype cls = Botnet | Normal | Background | Other

record train_lib =
  tl_stod :: "string \<Rightarrow> real option"
  tl_scan_lf :: "string \<Rightarrow> real option"

definition days_from_civil :: "int \<Rightarrow> u32 \<Rightarrow> u32 \<Rightarrow> int" where
  "days_from_civil y m d =
     (let y = (if m \<le> 2 then y - 1 else y);
          era = (if 0 \<le> y then y div 400 else - ((399 - y) div 400));
          yoe = (word_of_int (y - era * 400) :: u32);
          doy = (153 * (m + (if 2 < m then - 3 else 9)) + 2) div 5 + d - 1;
          doe = yoe * 365 + yoe div 4 - yoe div 100 + doy
      in era * 146097 + uint doe - 719468)"

text \<open>\<^verbatim>\<open>sscanf\<close>: one \<^verbatim>\<open>%d\<close> and one literal character.\<close>

definition scan_int :: "string \<Rightarrow> (int \<times> string) option" where
  "scan_int s =
     (let t = dropWhile is_space s;
          neg = (t \<noteq> [] \<and> hd t = CHR ''-'');
          u = (if t \<noteq> [] \<and> (hd t = CHR ''-'' \<or> hd t = CHR ''+'') then tl t else t);
          ds = takeWhile is_digit u;
          v = int (digits_value 0 ds)
      in if ds = [] then None else Some (if neg then - v else v, dropWhile is_digit u))"

definition scan_char :: "char \<Rightarrow> string \<Rightarrow> string option" where
  "scan_char c s = (if s \<noteq> [] \<and> hd s = c then Some (tl s) else None)"

definition parse_time :: "train_lib \<Rightarrow> string \<Rightarrow> real" where
  "parse_time lib t =
     (case do {
        (y, s) \<leftarrow> scan_int t; s \<leftarrow> scan_char (CHR ''/'') s;
        (mo, s) \<leftarrow> scan_int s; s \<leftarrow> scan_char (CHR ''/'') s;
        (d, s) \<leftarrow> scan_int s;
        (h, s) \<leftarrow> scan_int s; s \<leftarrow> scan_char (CHR '':'') s;
        (mi, s) \<leftarrow> scan_int s; s \<leftarrow> scan_char (CHR '':'') s;
        sec \<leftarrow> tl_scan_lf lib s;
        Some (of_int (days_from_civil y (word_of_int mo) (word_of_int d)) * 86400 + of_int h * 3600 + of_int mi * 60 + sec)
      } of None \<Rightarrow> 0 | Some v \<Rightarrow> v)"

definition classify :: "string \<Rightarrow> cls" where
  "classify label =
     (let l = to_lower label in
      if contains l ''botnet'' then Botnet
      else if contains l ''normal'' then Normal
      else if contains l ''background'' then Background
      else Other)"

section \<open>Flow rows\<close>

record conn_acc =
  ca_flows :: "beh_flow list"
  ca_botnet :: nat
  ca_normal :: nat
  ca_background :: nat
  ca_total :: nat

definition new_acc :: conn_acc where
  "new_acc = \<lparr>ca_flows = [], ca_botnet = 0, ca_normal = 0, ca_background = 0, ca_total = 0\<rparr>"

text \<open>The column of a name; a repeated name is found at its last position.\<close>

definition column :: "string list \<Rightarrow> string \<Rightarrow> nat option" where
  "column header name = map_of (rev (zip header [0..<length header])) name"

fun columns :: "string list \<Rightarrow> string list \<Rightarrow> nat list option" where
  "columns header [] = Some []"
| "columns header (n # ns) =
     (case column header n of None \<Rightarrow> None | Some i \<Rightarrow> map_option ((#) i) (columns header ns))"

definition flow_columns :: "string list" where
  "flow_columns = [''StartTime'', ''Dur'', ''Proto'', ''SrcAddr'', ''DstAddr'', ''Dport'', ''TotBytes'', ''Label'']"

text \<open>One row: its connection key, flow and class; \<open>None\<close> is an exception of a conversion.\<close>

definition row_flow :: "train_lib \<Rightarrow> nat list \<Rightarrow> string list \<Rightarrow> (string \<times> beh_flow \<times> cls) option" where
  "row_flow lib ci c =
     (let field = (\<lambda>k. c ! (ci ! k)) in do {
        dur \<leftarrow> (if field 1 = [] then Some 0 else tl_stod lib (field 1));
        bytes \<leftarrow> (if field 6 = [] then Some 0 else (case stoull (field 6) of Inl _ \<Rightarrow> None | Inr n \<Rightarrow> Some n));
        Some (field 3 @ ''|'' @ field 4 @ ''|'' @ field 5 @ ''|'' @ to_lower (field 2),
              \<lparr>start_time = parse_time lib (field 0), flow_duration = dur, tot_bytes = bytes\<rparr>, classify (field 7))
      })"

definition count_class :: "cls \<Rightarrow> conn_acc \<Rightarrow> conn_acc" where
  "count_class cl a =
     (case cl of Botnet \<Rightarrow> a\<lparr>ca_botnet := ca_botnet a + 1\<rparr> | Normal \<Rightarrow> a\<lparr>ca_normal := ca_normal a + 1\<rparr>
      | Background \<Rightarrow> a\<lparr>ca_background := ca_background a + 1\<rparr> | Other \<Rightarrow> a)"

definition add_flow :: "string \<Rightarrow> beh_flow \<Rightarrow> cls \<Rightarrow> (string \<times> conn_acc) list \<Rightarrow> (string \<times> conn_acc) list" where
  "add_flow key fl cl conns =
     (let a = (case map_of conns key of None \<Rightarrow> new_acc | Some a \<Rightarrow> a);
          a = a\<lparr>ca_flows := ca_flows a @ [fl], ca_total := ca_total a + 1\<rparr>
      in al_put key (count_class cl a) conns)"

record read_state =
  rs_conns :: "(string \<times> conn_acc) list"
  rs_ok :: nat
  rs_bad :: nat

definition read_line :: "train_lib \<Rightarrow> nat list \<Rightarrow> string \<Rightarrow> read_state \<Rightarrow> read_state" where
  "read_line lib ci line st =
     (if line = [] then st
      else
        (let c = getline_split (CHR '','') line in
         if length c \<le> Max (set ci) then st\<lparr>rs_bad := rs_bad st + 1\<rparr>
         else (case row_flow lib ci c of
                 None \<Rightarrow> st\<lparr>rs_bad := rs_bad st + 1\<rparr>
               | Some (key, fl, cl) \<Rightarrow> st\<lparr>rs_conns := add_flow key fl cl (rs_conns st), rs_ok := rs_ok st + 1\<rparr>)))"

definition read_binetflow :: "train_lib \<Rightarrow> string list option \<Rightarrow> read_state \<Rightarrow> bool \<times> read_state" where
  "read_binetflow lib file st =
     (case file of
        None \<Rightarrow> (False, st)
      | Some [] \<Rightarrow> (False, st)
      | Some (header # lines) \<Rightarrow>
          (case columns (getline_split (CHR '','') header) flow_columns of
             None \<Rightarrow> (False, st)
           | Some ci \<Rightarrow> (True, fold (read_line lib ci) lines st)))"

definition conn_label :: "bool \<Rightarrow> conn_acc \<Rightarrow> cls" where
  "conn_label majority a =
     (if majority then
        (if ca_total a < ca_botnet a * 2 then Botnet
         else if ca_background a \<le> ca_normal a then Normal else Background)
      else if 0 < ca_botnet a then Botnet
      else if 0 < ca_normal a then Normal else Background)"

section \<open>Exported state strings\<close>

definition parse_ip4 :: "string \<Rightarrow> u32" where
  "parse_ip4 s =
     (case scan_quad s of None \<Rightarrow> 0
      | Some (a, b, c, d) \<Rightarrow>
          push_bit 24 (word_of_nat a) OR push_bit 16 (word_of_nat b) OR push_bit 8 (word_of_nat c) OR word_of_nat d)"

definition hex_char :: "char \<Rightarrow> nat option" where
  "hex_char c =
     (let n = of_char c in
      if 48 \<le> n \<and> n \<le> 57 then Some (n - 48) else if 97 \<le> n \<and> n \<le> 102 then Some (n - 87)
      else if 65 \<le> n \<and> n \<le> 70 then Some (n - 55) else None)"

text \<open>\<^verbatim>\<open>std::stol(s, nullptr, 16)\<close> of a text with the prefix 0x, narrowed to \<^verbatim>\<open>int\<close>; \<open>None\<close> is its exception.\<close>

definition stol_hex :: "string \<Rightarrow> int option" where
  "stol_hex s =
     (let ds = takeWhile (\<lambda>c. hex_char c \<noteq> None) (drop 2 s);
          v = foldl (\<lambda>acc c. acc * 16 + the (hex_char c)) 0 ds
      in if 2 ^ 63 \<le> v then None else Some (sint (word_of_nat v :: u32)))"

definition parse_port :: "string \<Rightarrow> int" where
  "parse_port s =
     (if 2 < length s \<and> s ! 0 = CHR ''0'' \<and> (s ! 1 = CHR ''x'' \<or> s ! 1 = CHR ''X'')
      then (case stol_hex s of None \<Rightarrow> - 1 | Some n \<Rightarrow> n)
      else (case stoi s of Inl _ \<Rightarrow> - 1 | Inr n \<Rightarrow> n))"

definition tuple_key :: "string \<Rightarrow> string \<Rightarrow> int \<Rightarrow> string" where
  "tuple_key a b dport =
     (let lo = min (parse_ip4 a) (parse_ip4 b); hi = max (parse_ip4 a) (parse_ip4 b)
      in nat_to_string (unat lo) @ ''-'' @ nat_to_string (unat hi) @ ''-'' @ int_to_string dport)"

record lbl_count =
  lc_bot :: nat
  lc_norm :: nat
  lc_bg :: nat

definition count_label :: "cls \<Rightarrow> lbl_count \<Rightarrow> lbl_count" where
  "count_label cl c =
     (case cl of Botnet \<Rightarrow> c\<lparr>lc_bot := lc_bot c + 1\<rparr> | Normal \<Rightarrow> c\<lparr>lc_norm := lc_norm c + 1\<rparr>
      | Background \<Rightarrow> c\<lparr>lc_bg := lc_bg c + 1\<rparr> | Other \<Rightarrow> c)"

definition label_columns :: "string list" where
  "label_columns = [''SrcAddr'', ''DstAddr'', ''Dport'', ''Label'']"

definition label_line :: "nat list \<Rightarrow> string \<Rightarrow> (string \<times> lbl_count) list \<times> nat \<Rightarrow> (string \<times> lbl_count) list \<times> nat" where
  "label_line ci line st =
     (if line = [] then st
      else
        (let c = getline_split (CHR '','') line in
         if length c \<le> Max (set ci) then st
         else
           (let dport = parse_port (c ! (ci ! 2)) in
            if dport < 0 then st
            else
              (let k = tuple_key (c ! (ci ! 0)) (c ! (ci ! 1)) dport;
                   lc = (case map_of (fst st) k of None \<Rightarrow> \<lparr>lc_bot = 0, lc_norm = 0, lc_bg = 0\<rparr> | Some lc \<Rightarrow> lc)
               in (al_put k (count_label (classify (c ! (ci ! 3))) lc) (fst st), snd st + 1)))))"

definition load_bf_labels :: "string list option \<Rightarrow> (string \<times> lbl_count) list \<times> nat \<Rightarrow> (string \<times> lbl_count) list \<times> nat" where
  "load_bf_labels file st =
     (case file of
        None \<Rightarrow> st
      | Some [] \<Rightarrow> st
      | Some (header # lines) \<Rightarrow>
          (case columns (getline_split (CHR '','') header) label_columns of
             None \<Rightarrow> st
           | Some ci \<Rightarrow> fold (label_line ci) lines st))"

definition key_label :: "bool \<Rightarrow> lbl_count \<Rightarrow> cls" where
  "key_label majority c =
     (if majority then
        (if lc_bot c + lc_norm c + lc_bg c < lc_bot c * 2 then Botnet
         else if lc_bg c \<le> lc_norm c then Normal else Background)
      else if 0 < lc_bot c then Botnet
      else if 0 < lc_norm c then Normal else Background)"

text \<open>Which model a class goes to: \<open>None\<close> is a connection that is skipped.\<close>

definition side :: "bool \<Rightarrow> cls \<Rightarrow> bool option" where
  "side include_bg cl =
     (if cl = Botnet then Some True
      else if cl = Normal \<or> include_bg \<and> cl = Background then Some False else None)"

record sample_state =
  sp_bot :: markov_model
  sp_norm :: markov_model
  sp_samples :: "(string \<times> bool) list"
  sp_kept :: nat
  sp_unlabeled :: nat

definition observe_side :: "bool \<Rightarrow> string \<Rightarrow> sample_state \<Rightarrow> sample_state" where
  "observe_side isbot s st =
     (if isbot then st\<lparr>sp_bot := observe s (sp_bot st)\<rparr> else st\<lparr>sp_norm := observe s (sp_norm st)\<rparr>)"

text \<open>A row of exported states; \<open>training\<close> when the models are given, otherwise the samples are collected.\<close>

definition state_line ::
    "(string \<times> lbl_count) list \<Rightarrow> bool \<Rightarrow> bool \<Rightarrow> bool \<Rightarrow> string \<Rightarrow> sample_state \<Rightarrow> sample_state" where
  "state_line labels majority include_bg training line st =
     (if line = [] then st
      else
        (let c = getline_split (CHR '','') line in
         if length c < 4 then st
         else if length (c ! 3) < 2 then st
         else
           (case map_of labels (tuple_key (c ! 0) (c ! 1) (parse_port (c ! 2))) of
              None \<Rightarrow> st\<lparr>sp_unlabeled := sp_unlabeled st + 1\<rparr>
            | Some lc \<Rightarrow>
                (case side include_bg (key_label majority lc) of
                   None \<Rightarrow> st
                 | Some isbot \<Rightarrow>
                     (let st = st\<lparr>sp_kept := sp_kept st + 1\<rparr> in
                      if training then observe_side isbot (c ! 3) st
                      else st\<lparr>sp_samples := sp_samples st @ [(c ! 3, isbot)]\<rparr>)))))"

definition process_states ::
    "string list option list \<Rightarrow> (string \<times> lbl_count) list \<Rightarrow> bool \<Rightarrow> bool \<Rightarrow> bool \<Rightarrow> sample_state \<Rightarrow> sample_state" where
  "process_states files labels majority include_bg training st =
     fold (\<lambda>file st. case file of None \<Rightarrow> st | Some lines \<Rightarrow> fold (state_line labels majority include_bg training) (drop 1 lines) st)
       files st"

section \<open>Training and evaluation\<close>

record train_args =
  ta_train :: "string list"
  ta_test :: "string list"
  ta_train_states :: "string list"
  ta_train_bf :: "string list"
  ta_test_states :: "string list"
  ta_test_bf :: "string list"
  ta_out_dir :: string
  ta_majority :: bool
  ta_include_bg :: bool
  ta_min_flows :: nat
  ta_k :: real
  ta_threshold :: real

definition default_args :: train_args where
  "default_args = \<lparr>ta_train = [], ta_test = [], ta_train_states = [], ta_train_bf = [], ta_test_states = [], ta_test_bf = [],
     ta_out_dir = ''models'', ta_majority = False, ta_include_bg = False, ta_min_flows = 4, ta_k = 5 / 10, ta_threshold = 0\<rparr>"

definition add_paths :: "string list \<Rightarrow> string \<Rightarrow> string list" where
  "add_paths v csv = v @ filter (\<lambda>p. p \<noteq> []) (getline_split (CHR '','') csv)"

datatype arg_error = Unknown_arg string | Uncaught

text \<open>An option with its value, \<open>None\<close> when the name takes none; a conversion that throws ends the program.\<close>

definition train_option :: "train_lib \<Rightarrow> string \<Rightarrow> string \<Rightarrow> train_args \<Rightarrow> (arg_error + train_args) option" where
  "train_option lib a v A =
     (let real_option = (\<lambda>set. Some (case tl_stod lib v of None \<Rightarrow> Inl Uncaught | Some x \<Rightarrow> Inr (set x))) in
      if a = ''--train'' then Some (Inr (A\<lparr>ta_train := add_paths (ta_train A) v\<rparr>))
      else if a = ''--test'' then Some (Inr (A\<lparr>ta_test := add_paths (ta_test A) v\<rparr>))
      else if a = ''--out-dir'' then Some (Inr (A\<lparr>ta_out_dir := v\<rparr>))
      else if a = ''--label-rule'' then Some (Inr (A\<lparr>ta_majority := (v = ''majority'')\<rparr>))
      else if a = ''--min-flows'' then Some (case stoull v of Inl _ \<Rightarrow> Inl Uncaught | Inr n \<Rightarrow> Inr (A\<lparr>ta_min_flows := n\<rparr>))
      else if a = ''--k'' then real_option (\<lambda>x. A\<lparr>ta_k := x\<rparr>)
      else if a = ''--threshold'' then real_option (\<lambda>x. A\<lparr>ta_threshold := x\<rparr>)
      else if a = ''--train-states'' then Some (Inr (A\<lparr>ta_train_states := add_paths (ta_train_states A) v\<rparr>))
      else if a = ''--train-binetflow'' then Some (Inr (A\<lparr>ta_train_bf := add_paths (ta_train_bf A) v\<rparr>))
      else if a = ''--test-states'' then Some (Inr (A\<lparr>ta_test_states := add_paths (ta_test_states A) v\<rparr>))
      else if a = ''--test-binetflow'' then Some (Inr (A\<lparr>ta_test_bf := add_paths (ta_test_bf A) v\<rparr>))
      else None)"

text \<open>The arguments after the program name; a value that is missing is the empty string.\<close>

fun parse_train_args :: "train_lib \<Rightarrow> string list \<Rightarrow> train_args \<Rightarrow> arg_error + train_args" where
  "parse_train_args lib [] A = Inr A"
| "parse_train_args lib (a # as) A =
     (if a = ''--include-background'' then parse_train_args lib as (A\<lparr>ta_include_bg := True\<rparr>)
      else (case train_option lib a (case as of [] \<Rightarrow> [] | v # _ \<Rightarrow> v) A of
              None \<Rightarrow> Inl (Unknown_arg a)
            | Some (Inl e) \<Rightarrow> Inl e
            | Some (Inr A') \<Rightarrow> parse_train_args lib (drop 1 as) A'))"

definition by_name :: "(string \<times> 'v) list \<Rightarrow> (string \<times> 'v) list" where
  "by_name conns = sort_key (\<lambda>(k, _). map of_char k :: nat list) conns"

definition train_config :: "train_args \<Rightarrow> beh_config" where
  "train_config args = default_beh_config\<lparr>markov_k := ta_k args, min_flows := ta_min_flows args\<rparr>"

text \<open>The state string and the side of a connection, when it is used.\<close>

definition labelled_string :: "train_args \<Rightarrow> conn_acc \<Rightarrow> (string \<times> bool) option" where
  "labelled_string args a =
     (if length (ca_flows a) < ta_min_flows args then None
      else
        (let s = encode_connection (ca_flows a) (train_config args) in
         if length s < 2 then None
         else map_option (\<lambda>b. (s, b)) (side (ta_include_bg args) (conn_label (ta_majority args) a))))"

definition labelled_strings :: "train_args \<Rightarrow> (string \<times> conn_acc) list \<Rightarrow> (string \<times> bool) list" where
  "labelled_strings args conns = List.map_filter (\<lambda>(k, a). labelled_string args a) (by_name conns)"

definition new_samples :: "train_args \<Rightarrow> sample_state" where
  "new_samples A = \<lparr>sp_bot = new_model ''Botnet'' (ta_k A), sp_norm = new_model ''Normal'' (ta_k A), sp_samples = [],
     sp_kept = 0, sp_unlabeled = 0\<rparr>"

definition train_models :: "train_args \<Rightarrow> (string \<times> bool) list \<Rightarrow> markov_model \<times> markov_model" where
  "train_models args ss =
     (let st = fold (\<lambda>(s, isbot). observe_side isbot s) ss (new_samples args) in (sp_bot st, sp_norm st))"

definition llr_samples :: "markov_model \<times> markov_model \<Rightarrow> (string \<times> bool) list \<Rightarrow> (real \<times> bool) list" where
  "llr_samples models ss = map (\<lambda>(s, isbot). (score (fst models) s - score (snd models) s, isbot)) ss"

record confusion =
  cm_tp :: nat
  cm_fp :: nat
  cm_fn :: nat
  cm_tn :: nat

definition count_sample :: "real \<Rightarrow> real \<times> bool \<Rightarrow> confusion \<Rightarrow> confusion" where
  "count_sample thr s c =
     (if snd s then (if thr < fst s then c\<lparr>cm_tp := cm_tp c + 1\<rparr> else c\<lparr>cm_fn := cm_fn c + 1\<rparr>)
      else (if thr < fst s then c\<lparr>cm_fp := cm_fp c + 1\<rparr> else c\<lparr>cm_tn := cm_tn c + 1\<rparr>))"

definition confusion_at :: "(real \<times> bool) list \<Rightarrow> real \<Rightarrow> confusion" where
  "confusion_at samples thr = fold (count_sample thr) samples \<lparr>cm_tp = 0, cm_fp = 0, cm_fn = 0, cm_tn = 0\<rparr>"

definition precision_recall_f1 :: "nat \<Rightarrow> nat \<Rightarrow> nat \<Rightarrow> real \<times> real \<times> real" where
  "precision_recall_f1 tp fp fn =
     (let p = (if tp + fp \<noteq> 0 then real tp / real (tp + fp) else 0);
          r = (if tp + fn \<noteq> 0 then real tp / real (tp + fn) else 0);
          f = (if p + r \<noteq> 0 then 2 * p * r / (p + r) else 0)
      in (p, r, f))"

definition sweep :: "(real \<times> bool) list \<Rightarrow> (real \<times> confusion \<times> real \<times> real \<times> real) list" where
  "sweep samples =
     map (\<lambda>n. let t = - 3 + real n / 4; c = confusion_at samples t in (t, c, precision_recall_f1 (cm_tp c) (cm_fp c) (cm_fn c))) [0..<25]"

text \<open>
  What a run leaves behind: the models and the evaluation when there are test files: the
  sweep and the confusion matrix at the chosen threshold with its precision, recall and F1.
\<close>

type_synonym evaluation = "(real \<times> confusion \<times> real \<times> real \<times> real) list \<times> confusion \<times> real \<times> real \<times> real"

record train_result =
  tr_models :: "markov_model \<times> markov_model"
  tr_eval :: "evaluation option"

definition evaluate :: "(real \<times> bool) list \<Rightarrow> real \<Rightarrow> evaluation" where
  "evaluate samples thr =
     (let c = confusion_at samples thr in (sweep samples, c, precision_recall_f1 (cm_tp c) (cm_fp c) (cm_fn c)))"

text \<open>The two modes; \<open>files\<close> gives the lines of a path.\<close>

definition read_all :: "train_lib \<Rightarrow> (string \<Rightarrow> string list option) \<Rightarrow> string list \<Rightarrow> read_state" where
  "read_all lib files ps =
     fold (\<lambda>p st. snd (read_binetflow lib (files p) st)) ps \<lparr>rs_conns = [], rs_ok = 0, rs_bad = 0\<rparr>"

definition run_flows_mode :: "train_lib \<Rightarrow> (string \<Rightarrow> string list option) \<Rightarrow> train_args \<Rightarrow> train_result" where
  "run_flows_mode lib files A =
     (let models = train_models A (labelled_strings A (rs_conns (read_all lib files (ta_train A))))
      in \<lparr>tr_models = models,
          tr_eval = (if ta_test A = [] then None
             else Some (evaluate (llr_samples models (labelled_strings A (rs_conns (read_all lib files (ta_test A)))))
                          (ta_threshold A)))\<rparr>)"

definition run_states_mode :: "(string \<Rightarrow> string list option) \<Rightarrow> train_args \<Rightarrow> train_result" where
  "run_states_mode files A =
     (let labels = (\<lambda>ps. fst (fold (\<lambda>p. load_bf_labels (files p)) ps ([], 0)));
          process = (\<lambda>ss bf training. process_states (map files ss) (labels bf) (ta_majority A) (ta_include_bg A) training (new_samples A));
          st = process (ta_train_states A) (ta_train_bf A) True;
          models = (sp_bot st, sp_norm st)
      in \<lparr>tr_models = models,
          tr_eval = (if ta_test_states A = [] then None
             else Some (evaluate (llr_samples models (sp_samples (process (ta_test_states A) (ta_test_bf A) False)))
                          (ta_threshold A)))\<rparr>)"

datatype trainer_exit = Bad_arg arg_error | Usage | Trained train_result

definition trainer_main :: "train_lib \<Rightarrow> (string \<Rightarrow> string list option) \<Rightarrow> string list \<Rightarrow> trainer_exit" where
  "trainer_main lib files argv =
     (case parse_train_args lib (drop 1 argv) default_args of
        Inl e \<Rightarrow> Bad_arg e
      | Inr A \<Rightarrow>
          if ta_train_states A \<noteq> [] then Trained (run_states_mode files A)
          else if ta_train A = [] then Usage
          else Trained (run_flows_mode lib files A))"

section \<open>The calendar\<close>

text \<open>The proleptic Gregorian calendar, day by day.\<close>

definition leap :: "int \<Rightarrow> bool" where
  "leap y = (4 dvd y \<and> (\<not> 100 dvd y \<or> 400 dvd y))"

definition month_days :: "int \<Rightarrow> nat \<Rightarrow> nat" where
  "month_days y m = (if m = 2 then (if leap y then 29 else 28) else if m \<in> {4, 6, 9, 11} then 30 else 31)"

fun next_day :: "int \<times> nat \<times> nat \<Rightarrow> int \<times> nat \<times> nat" where
  "next_day (y, m, d) =
     (if d < month_days y m then (y, m, d + 1) else if m < 12 then (y, m + 1, 1) else (y + 1, 1, 1))"

definition civil_date :: "nat \<Rightarrow> int \<times> nat \<times> nat" where
  "civil_date n = (next_day ^^ n) (1970, 1, 1)"

definition month_offset :: "nat \<Rightarrow> nat" where
  "month_offset m = (153 * (if 2 < m then m - 3 else m + 9) + 2) div 5"

definition year_days :: "int \<Rightarrow> int" where
  "year_days y = 365 * y + y div 4 - y div 100 + y div 400"

lemma months: "1 \<le> m \<Longrightarrow> m \<le> 12 \<Longrightarrow> m \<in> {1, 2, 3, 4, 5, 6, 7, 8, 9, 10, 11, 12 :: nat}"
  by (simp only: insert_iff empty_iff) presburger

lemma year_days_era: "year_days y = (y div 400) * 146097 + 365 * (y mod 400) + (y mod 400) div 4 - (y mod 400) div 100"
proof -
  define q r where "q = y div 400" and "r = y mod 400"
  have y: "y = 400 * q + r" by (simp add: q_def r_def)
  have "y div 4 = 100 * q + r div 4" using div_mult_self1[of 4 r "100 * q"] by (simp add: y algebra_simps)
  moreover have "y div 100 = 4 * q + r div 100" using div_mult_self1[of 100 r "4 * q"] by (simp add: y algebra_simps)
  ultimately show ?thesis by (simp add: year_days_def flip: q_def r_def) (simp add: y)
qed

lemma div_next: "0 < k \<Longrightarrow> (y + 1) div k = y div k + (if k dvd y + 1 then 1 else 0)" for y k :: int
proof -
  assume k: "0 < k"
  define q r where "q = y div k" and "r = y mod k"
  have y: "y = k * q + r" and r: "0 \<le> r" "r < k" using k by (simp_all add: q_def r_def)
  show ?thesis
  proof (cases "r + 1 = k")
    case True
    then have e: "y + 1 = k * (q + 1)" using y by (simp add: algebra_simps)
    then have "k dvd y + 1" by (rule dvdI)
    moreover have "(y + 1) div k = q + 1" using e k by simp
    ultimately show ?thesis by (simp add: q_def)
  next
    case False
    have d: "(y + 1) div k = q" and m: "(y + 1) mod k = r + 1"
      using False r by (intro int_div_pos_eq[of "y + 1" k q "r + 1"] int_mod_pos_eq[of "y + 1" k q "r + 1"]; simp add: y)+
    then have "\<not> k dvd y + 1" using r by (simp add: dvd_eq_mod_eq_0)
    with d show ?thesis by (simp add: q_def)
  qed
qed

lemma year_days_Suc: "year_days (y + 1) = year_days y + (if leap (y + 1) then 366 else 365)"
proof -
  have h: "400 dvd z \<Longrightarrow> 100 dvd z" "100 dvd z \<Longrightarrow> 4 dvd z" for z :: int
    by (rule dvd_trans[of 100 400], simp, assumption) (rule dvd_trans[of 4 100], simp, assumption)
  have "year_days (y + 1) - year_days y = 365 + (if 4 dvd y + 1 then 1 else 0) - (if 100 dvd y + 1 then 1 else 0)
      + (if 400 dvd y + 1 then 1 else 0)"
    unfolding year_days_def by (simp only: div_next zero_less_numeral) (simp only: algebra_simps)
  then show ?thesis using h[of "y + 1"] unfolding leap_def by (cases "400 dvd y + 1"; cases "100 dvd y + 1"; cases "4 dvd y + 1") simp_all
qed

lemma doe_value:
  assumes "Y < 400" "D < 400"
  shows "unat (word_of_nat Y * 365 + word_of_nat Y div 4 - word_of_nat Y div 100 + word_of_nat D :: u32) = Y * 365 + Y div 4 - Y div 100 + D"
proof -
  have y: "unat (word_of_nat Y :: u32) = Y" "unat (word_of_nat D :: u32) = D" using assms by (simp_all add: unat_of_nat)
  have d: "unat (word_of_nat Y div 4 :: u32) = Y div 4" "unat (word_of_nat Y div 100 :: u32) = Y div 100"
    by (simp_all add: unat_div y)
  have a: "unat (word_of_nat Y * 365 + word_of_nat Y div 4 :: u32) = Y * 365 + Y div 4"
    using assms by (simp add: unat_word_ariths y d)
  have le: "word_of_nat Y div 100 \<le> (word_of_nat Y * 365 + word_of_nat Y div 4 :: u32)"
    using a d by (simp add: word_le_nat_alt)
  have b: "unat (word_of_nat Y * 365 + word_of_nat Y div 4 - word_of_nat Y div 100 :: u32) = Y * 365 + Y div 4 - Y div 100"
    by (simp only: unat_sub[OF le] a d)
  have "Y * 365 + Y div 4 - Y div 100 + D < 2 ^ LENGTH(32)" using assms by simp
  then show ?thesis by (simp only: unat_word_ariths(1) b y mod_less)
qed

lemma days_from_civil_year_days:
  assumes "0 < y" "1 \<le> m" "m \<le> 12" "1 \<le> d" "d \<le> 31"
  shows "days_from_civil y (word_of_nat m) (word_of_nat d) =
    year_days (if m \<le> 2 then y - 1 else y) + int (month_offset m + d - 1) - 719468"
proof -
  let ?y = "if m \<le> 2 then y - 1 else y"
  have m: "(word_of_nat m :: u32) \<le> 2 \<longleftrightarrow> m \<le> 2" "2 < (word_of_nat m :: u32) \<longleftrightarrow> 2 < m"
    using assms by (simp_all add: word_le_nat_alt word_less_nat_alt unat_of_nat)
  have doy: "(153 * (word_of_nat m + (if 2 < m then - 3 else 9)) + 2) div 5 + word_of_nat d - 1 = (word_of_nat (month_offset m + d - 1) :: u32)"
    using months[OF assms(2,3)] assms(4) by (auto simp: month_offset_def)
  have off: "month_offset m + d - 1 < 400" using months[OF assms(2,3)] assms(5) by (auto simp: month_offset_def)
  have yoe: "(word_of_int (?y - ?y div 400 * 400) :: u32) = word_of_nat (nat (?y mod 400))"
    by (simp add: minus_div_mult_eq_mod)
  have Y: "nat (?y mod 400) < 400" by (simp add: nat_less_iff)
  have "int (nat (?y mod 400) * 365 + nat (?y mod 400) div 4 - nat (?y mod 400) div 100 + (month_offset m + d - 1)) =
      365 * (?y mod 400) + (?y mod 400) div 4 - (?y mod 400) div 100 + int (month_offset m + d - 1)"
  proof -
    have "nat (?y mod 400) div 100 \<le> nat (?y mod 400) * 365 + nat (?y mod 400) div 4" by linarith
    then show ?thesis by (simp only: of_nat_add of_nat_diff of_nat_mult zdiv_int) simp
  qed
  then have u: "uint (word_of_nat (nat (?y mod 400)) * 365 + word_of_nat (nat (?y mod 400)) div 4 - word_of_nat (nat (?y mod 400)) div 100
      + word_of_nat (month_offset m + d - 1) :: u32) =
    365 * (?y mod 400) + (?y mod 400) div 4 - (?y mod 400) div 100 + int (month_offset m + d - 1)"
    by (simp only: uint_nat doe_value[OF Y off])
  have nonneg: "0 \<le> ?y" using assms(1) by simp
  have "days_from_civil y (word_of_nat m) (word_of_nat d) = ?y div 400 * 146097 +
      (365 * (?y mod 400) + (?y mod 400) div 4 - (?y mod 400) div 100 + int (month_offset m + d - 1)) - 719468"
    by (simp only: days_from_civil_def Let_def m nonneg if_True doy yoe u)
  then show ?thesis by (simp only: year_days_era)
qed

fun civil_ok :: "int \<times> nat \<times> nat \<Rightarrow> bool" where
  "civil_ok (y, m, d) = (1970 \<le> y \<and> 1 \<le> m \<and> m \<le> 12 \<and> 1 \<le> d \<and> d \<le> month_days y m)"

fun civil_days :: "int \<times> nat \<times> nat \<Rightarrow> int" where
  "civil_days (y, m, d) = days_from_civil y (word_of_nat m) (word_of_nat d)"

lemma month_days_le: "month_days y m \<le> 31"
  by (simp add: month_days_def)

lemma civil_ok_next: "civil_ok t \<Longrightarrow> civil_ok (next_day t)"
  by (cases t) (auto simp: month_days_def)

lemma civil_days_next:
  assumes "civil_ok t" shows "civil_days (next_day t) = civil_days t + 1"
proof -
  obtain y m d where t: "t = (y, m, d)" by (cases t)
  with assms have ok: "1970 \<le> y" "1 \<le> m" "m \<le> 12" "1 \<le> d" "d \<le> month_days y m" by auto
  have d31: "d \<le> 31" using ok(5) month_days_le[of y m] by linarith
  have now: "civil_days t = year_days (if m \<le> 2 then y - 1 else y) + int (month_offset m + d - 1) - 719468"
    using ok d31 by (simp add: t days_from_civil_year_days)
  consider "d < month_days y m" | "d = month_days y m" "m < 12" | "d = month_days y m" "m = 12"
    using ok by linarith
  then show ?thesis
  proof cases
    case 1
    then have "civil_days (next_day t) = year_days (if m \<le> 2 then y - 1 else y) + int (month_offset m + (d + 1) - 1) - 719468"
      using ok month_days_le[of y m] days_from_civil_year_days[of y m "d + 1"] by (simp add: t)
    with now ok(4) show ?thesis by (simp add: of_nat_diff)
  next
    case 2
    then have "civil_days (next_day t) = year_days (if m + 1 \<le> 2 then y - 1 else y) + int (month_offset (m + 1) + 1 - 1) - 719468"
      using ok days_from_civil_year_days[of y "m + 1" 1] by (simp add: t)
    moreover have "year_days (if m + 1 \<le> 2 then y - 1 else y) + int (month_offset (m + 1)) =
        year_days (if m \<le> 2 then y - 1 else y) + int (month_offset m + d)"
      using months[OF ok(2,3)] 2 year_days_Suc[of "y - 1"]
      by (auto simp: month_offset_def month_days_def)
    ultimately show ?thesis using now ok(4) by (simp add: of_nat_diff)
  next
    case 3
    then have "civil_days (next_day t) = year_days y + int (month_offset 1 + 1 - 1) - 719468"
      using ok days_from_civil_year_days[of "y + 1" 1 1] by (simp add: t)
    with now 3 show ?thesis by (simp add: month_offset_def month_days_def)
  qed
qed

lemma civil_date_ok: "civil_ok (civil_date n)"
  by (induction n) (simp_all add: civil_date_def civil_ok_next del: next_day.simps, simp add: month_days_def)

section \<open>Reading back what the engine exports\<close>

lemma digit_not_space: "is_digit c \<Longrightarrow> \<not> is_space c"
  by (auto simp: is_digit_def is_space_def Let_def)

lemma digits_scan:
  assumes "r = [] \<or> \<not> is_digit (hd r)"
  shows "dropWhile is_space (nat_to_string n @ r) = nat_to_string n @ r"
    and "takeWhile is_digit (nat_to_string n @ r) = nat_to_string n"
    and "dropWhile is_digit (nat_to_string n @ r) = r"
    and "hd (nat_to_string n) \<noteq> CHR ''-''" "hd (nat_to_string n) \<noteq> CHR ''+''"
proof -
  obtain c cs where c: "nat_to_string n = c # cs" by (cases "nat_to_string n") auto
  then have d: "is_digit c" using nat_to_string_digits[of c n] by simp
  with c show "dropWhile is_space (nat_to_string n @ r) = nat_to_string n @ r" by (simp add: digit_not_space)
  show "takeWhile is_digit (nat_to_string n @ r) = nat_to_string n" "dropWhile is_digit (nat_to_string n @ r) = r"
    using assms nat_to_string_digits[of _ n] by (cases r; simp add: takeWhile_append2 dropWhile_append2)+
  show "hd (nat_to_string n) \<noteq> CHR ''-''" "hd (nat_to_string n) \<noteq> CHR ''+''"
    using c d by (auto simp: is_digit_def)
qed

lemma scan_unsigned_number:
  "n < 2 ^ 32 \<Longrightarrow> r = [] \<or> \<not> is_digit (hd r) \<Longrightarrow> scan_unsigned (nat_to_string n @ r) = Some (n, r)"
  by (simp add: scan_unsigned_def Let_def digits_scan)

lemma scan_quad_dotted: "scan_quad (dotted_quad ip) = Some (ip_byte ip 0, ip_byte ip 1, ip_byte ip 2, ip_byte ip 3)"
proof -
  have b: "ip_byte ip k < 2 ^ 32" for k using ip_byte_lt[of ip k] by simp
  have dot: "\<not> is_digit (CHR ''.'')" by (simp add: is_digit_def)
  have s: "scan_unsigned (nat_to_string (ip_byte ip k) @ CHR ''.'' # r) = Some (ip_byte ip k, CHR ''.'' # r)" for k r
    by (rule scan_unsigned_number[OF b]) (simp add: dot)
  have e: "scan_unsigned (nat_to_string (ip_byte ip k)) = Some (ip_byte ip k, [])" for k
    using scan_unsigned_number[OF b, of "[]"] by simp
  show ?thesis by (simp add: scan_quad_def dotted_quad_def s e scan_dot_def)
qed

lemma parse_ip4_dotted: "parse_ip4 (dotted_quad ip) = bswap32 ip"
proof -
  have "parse_ip4 (dotted_quad ip) = push_bit 24 (ip AND 255) OR push_bit 16 (drop_bit 8 ip AND 255)
      OR push_bit 8 (drop_bit 16 ip AND 255) OR (drop_bit 24 ip AND 255)"
    by (simp add: parse_ip4_def scan_quad_dotted ip_byte_def)
  also have "\<dots> = bswap32 ip"
  proof (rule bit_word_eqI)
    fix n assume n: "n < LENGTH(32)"
    have m: "(255 :: u32) = mask 8" "(0xFF00 :: u32) = push_bit 8 (mask 8)" "(0xFF0000 :: u32) = push_bit 16 (mask 8)"
      by (simp_all add: mask_eq_exp_minus_1 push_bit_eq_mult)
    have hi: "bit ip k \<Longrightarrow> k < 32" for k using bit_imp_le_length[of ip k] by simp
    consider "n < 8" | "8 \<le> n" "n < 16" | "16 \<le> n" "n < 24" | "24 \<le> n" by linarith
    then show "bit (push_bit 24 (ip AND 255) OR push_bit 16 (drop_bit 8 ip AND 255)
      OR push_bit 8 (drop_bit 16 ip AND 255) OR (drop_bit 24 ip AND 255)) n = bit (bswap32 ip) n"
      unfolding bswap32_def m using n hi[of "24 + n"] hi[of "8 + n"] by cases (auto simp: bit_simps)
  qed
  finally show ?thesis .
qed

lemma bswap32_bswap32 [simp]: "bswap32 (bswap32 v) = v"
proof (rule bit_word_eqI)
  fix n assume n: "n < LENGTH(32)"
  have m: "(0xFF00 :: u32) = push_bit 8 (mask 8)" "(0xFF0000 :: u32) = push_bit 16 (mask 8)"
    by (simp_all add: mask_eq_exp_minus_1 push_bit_eq_mult)
  consider "n < 8" | "8 \<le> n" "n < 16" | "16 \<le> n" "n < 24" | "24 \<le> n" by linarith
  then show "bit (bswap32 (bswap32 v)) n = bit v n"
    unfolding bswap32_def m using n bit_imp_le_length[of v "16 + n"] bit_imp_le_length[of v "24 + n"] bit_imp_le_length[of v "8 + n"]
    by cases (auto simp: bit_simps)
qed

lemma bswap32_eq [simp]: "bswap32 a = bswap32 b \<longleftrightarrow> a = b"
  by (metis bswap32_bswap32)

lemma parse_port_number:
  assumes "n < 2 ^ 31" shows "parse_port (nat_to_string n) = int n"
proof -
  have "stoi (nat_to_string n) = Inr (int n)"
    using assms digits_scan[of "[]" n] by (simp add: stoi_def scan_integer_def Let_def)
  moreover have "is_digit (nat_to_string n ! 1)" if "2 < length (nat_to_string n)"
    using that nat_to_string_digits[of "nat_to_string n ! 1" n] by simp
  ultimately show ?thesis by (auto simp: parse_port_def is_digit_def)
qed

text \<open>A key names an unordered pair of addresses and a port.\<close>

lemma min_max_pair: "min a b = min c d \<and> max a b = max c d \<longleftrightarrow> {a, b} = {c, d}" for a b c d :: u32
  by (auto simp: min_def max_def doubleton_eq_iff)

lemma tuple_key_dotted:
  "tuple_key (dotted_quad a) (dotted_quad b) (int m) = tuple_key (dotted_quad c) (dotted_quad d) (int n) \<longleftrightarrow>
   {a, b} = {c, d} \<and> m = n"
proof -
  have dash: "CHR ''-'' \<notin> set (nat_to_string k)" for k
    using nat_to_string_digits[of "CHR ''-''" k] by (auto simp: is_digit_def)
  have "nat_to_string i @ ''-'' @ nat_to_string j @ ''-'' @ nat_to_string m =
      nat_to_string i' @ ''-'' @ nat_to_string j' @ ''-'' @ nat_to_string n \<longleftrightarrow> i = i' \<and> j = j' \<and> m = n" for i j i' j'
    using first_delim_unique[OF dash dash, of i "nat_to_string j @ ''-'' @ nat_to_string m" i' "nat_to_string j' @ ''-'' @ nat_to_string n"]
      first_delim_unique[OF dash dash, of j "nat_to_string m" j' "nat_to_string n"]
    by (auto dest: nat_to_string_inj)
  then have "tuple_key (dotted_quad a) (dotted_quad b) (int m) = tuple_key (dotted_quad c) (dotted_quad d) (int n) \<longleftrightarrow>
      min (bswap32 a) (bswap32 b) = min (bswap32 c) (bswap32 d) \<and> max (bswap32 a) (bswap32 b) = max (bswap32 c) (bswap32 d) \<and> m = n"
    by (simp add: tuple_key_def parse_ip4_dotted int_to_string_def flip: word_eq_iff_unsigned)
  moreover have "{bswap32 a, bswap32 b} = {bswap32 c, bswap32 d} \<longleftrightarrow> {a, b} = {c, d}"
    by (simp add: doubleton_eq_iff)
  ultimately show ?thesis using min_max_pair[of "bswap32 a" "bswap32 b" "bswap32 c" "bswap32 d"] by blast
qed

lemma getline_split_acc_field:
  "d \<notin> set xs \<Longrightarrow> getline_split_acc d acc (xs @ d # ys) = (rev acc @ xs) # getline_split_acc d [] ys"
  by (induction xs arbitrary: acc) auto

lemma getline_split_acc_last:
  "d \<notin> set xs \<Longrightarrow> getline_split_acc d acc xs = (if acc = [] \<and> xs = [] then [] else [rev acc @ xs])"
  by (induction xs arbitrary: acc) auto

lemma comma_free: "CHR '','' \<notin> set (nat_to_string n)" "CHR '','' \<notin> set (dotted_quad ip)"
proof -
  show a: "CHR '','' \<notin> set (nat_to_string n)" for n
    using nat_to_string_digits[of "CHR '',''" n] by (auto simp: is_digit_def)
  show "CHR '','' \<notin> set (dotted_quad ip)" by (simp add: dotted_quad_def a)
qed

lemma evens_odds_all: "evens_odds P Q s \<Longrightarrow> c \<in> set s \<Longrightarrow> P c \<or> Q c"
  by (induction P Q s rule: evens_odds.induct) auto

lemma encoded_comma_free: "CHR '','' \<notin> set (encode_connection fs default_beh_config)"
proof
  assume c: "CHR '','' \<in> set (encode_connection fs default_beh_config)"
  then have "CHR '','' \<in> set letters \<or> CHR '','' \<in> set symbols"
    using evens_odds_all[OF encode_flows_shape] by (auto simp: encode_connection_def split: if_splits)
  then show False by (simp add: letters_def symbols_def)
qed

lemma exported_row_fields:
  "s \<noteq> [] \<Longrightarrow> CHR '','' \<notin> set s \<Longrightarrow>
   getline_split (CHR '','') (dotted_quad a @ '','' @ dotted_quad b @ '','' @ nat_to_string n @ '','' @ s) =
   [dotted_quad a, dotted_quad b, nat_to_string n, s]"
  by (simp add: getline_split_def getline_split_acc_field getline_split_acc_last comma_free)

section \<open>Evaluation\<close>

lemma count_samples:
  "fold (count_sample t) ss c = \<lparr>cm_tp = cm_tp c + length (filter (\<lambda>(l, b). b \<and> t < l) ss),
     cm_fp = cm_fp c + length (filter (\<lambda>(l, b). \<not> b \<and> t < l) ss), cm_fn = cm_fn c + length (filter (\<lambda>(l, b). b \<and> l \<le> t) ss),
     cm_tn = cm_tn c + length (filter (\<lambda>(l, b). \<not> b \<and> l \<le> t) ss)\<rparr>"
  by (induction ss arbitrary: c) (auto simp: count_sample_def)

lemma confusion_counts:
  "cm_tp (confusion_at ss t) = length (filter (\<lambda>(l, b). b \<and> t < l) ss)"
  "cm_fp (confusion_at ss t) = length (filter (\<lambda>(l, b). \<not> b \<and> t < l) ss)"
  "cm_fn (confusion_at ss t) = length (filter (\<lambda>(l, b). b \<and> l \<le> t) ss)"
  "cm_tn (confusion_at ss t) = length (filter (\<lambda>(l, b). \<not> b \<and> l \<le> t) ss)"
  by (simp_all add: confusion_at_def count_samples)

lemma length_filter_mono: "(\<And>x. P x \<Longrightarrow> Q x) \<Longrightarrow> length (filter P xs) \<le> length (filter Q xs)"
  by (induction xs) auto

lemma confusion_totals:
  "cm_tp (confusion_at ss t) + cm_fn (confusion_at ss t) = length (filter snd ss)"
  "cm_fp (confusion_at ss t) + cm_tn (confusion_at ss t) = length (filter (\<lambda>s. \<not> snd s) ss)"
  unfolding confusion_counts by (induction ss) auto

lemma raising_threshold:
  assumes "t \<le> t'"
  shows "cm_tp (confusion_at ss t') \<le> cm_tp (confusion_at ss t)" "cm_fp (confusion_at ss t') \<le> cm_fp (confusion_at ss t)"
    "cm_fn (confusion_at ss t) \<le> cm_fn (confusion_at ss t')" "cm_tn (confusion_at ss t) \<le> cm_tn (confusion_at ss t')"
  unfolding confusion_counts using assms by (auto intro!: length_filter_mono)

lemma recall_of: "tp + fn = n \<Longrightarrow> fst (snd (precision_recall_f1 tp fp fn)) = (if n = 0 then 0 else real tp / real n)"
  by (auto simp: precision_recall_f1_def Let_def)

lemma sweep_row:
  "n < 25 \<Longrightarrow> sweep ss ! n = (let t = - 3 + real n / 4; c = confusion_at ss t in (t, c, precision_recall_f1 (cm_tp c) (cm_fp c) (cm_fn c)))"
  by (simp add: sweep_def)

lemma precision_can_fall:
  "fst (precision_recall_f1 (cm_tp (confusion_at [(1, True), (2, False)] 0)) (cm_fp (confusion_at [(1, True), (2, False)] 0)) 0) = 1 / 2"
  "fst (precision_recall_f1 (cm_tp (confusion_at [(1, True), (2, False)] 1)) (cm_fp (confusion_at [(1, True), (2, False)] 1)) 1) = 0"
  by (simp_all add: confusion_counts precision_recall_f1_def Let_def)

section \<open>The two majority rules\<close>

lemma count_classes:
  "fold count_class cs a = a\<lparr>ca_botnet := ca_botnet a + count_list cs Botnet, ca_normal := ca_normal a + count_list cs Normal,
     ca_background := ca_background a + count_list cs Background\<rparr>"
  by (induction cs arbitrary: a) (auto simp: count_class_def split: cls.splits)

lemma count_labels:
  "fold count_label cs c = \<lparr>lc_bot = lc_bot c + count_list cs Botnet, lc_norm = lc_norm c + count_list cs Normal,
     lc_bg = lc_bg c + count_list cs Background\<rparr>"
  by (induction cs arbitrary: c) (auto simp: count_label_def split: cls.splits)

lemma length_classes:
  "length cs = count_list cs Botnet + count_list cs Normal + count_list cs Background + count_list cs Other"
proof (induction cs)
  case (Cons c cs)
  then show ?case by (cases c) simp_all
qed simp

lemma label_rules_agree:
  "conn_label False (fold count_class cs (new_acc\<lparr>ca_total := length cs\<rparr>)) =
     key_label False (fold count_label cs \<lparr>lc_bot = 0, lc_norm = 0, lc_bg = 0\<rparr>)"
  "conn_label True (fold count_class cs (new_acc\<lparr>ca_total := length cs\<rparr>)) =
     key_label True (fold count_label cs \<lparr>lc_bot = 0, lc_norm = 0, lc_bg = 0\<rparr>) \<longleftrightarrow>
   count_list cs Botnet * 2 \<le> count_list cs Botnet + count_list cs Normal + count_list cs Background \<or>
   length cs < count_list cs Botnet * 2"
  by (auto simp: count_classes count_labels conn_label_def key_label_def new_acc_def length_classes[of cs])

text \<open>A sensor with one connection to export.\<close>

definition export_sample :: reassembler where
  "export_sample = initial_reassembler\<lparr>beh_conns :=
     [(7, \<lparr>bc_src = 0x0100007F, bc_dst = 0x08080808, bc_dport = 0xBB01,
           bc_flows = replicate 4 \<lparr>start_time = 0, flow_duration = 0, tot_bytes = 10\<rparr>\<rparr>)]\<rparr>"

lemma export_sample_row: "dump_behavioral_states export_sample ! 1 \<in> set (drop 1 (dump_behavioral_states export_sample))"
proof -
  have "length (encode_connection (replicate 4 \<lparr>start_time = 0, flow_duration = 0, tot_bytes = 10\<rparr>) default_beh_config) = 8"
    by (simp add: encode_connection_def encode_flows_length)
  moreover have "min_flows default_beh_config = 4" by (simp add: default_beh_config_def)
  ultimately have "length (dump_behavioral_states export_sample) = 2"
    by (simp add: dump_behavioral_states_def export_sample_def initial_reassembler_def Let_def)
  then show ?thesis using nth_mem[of 0 "drop 1 (dump_behavioral_states export_sample)"] by simp
qed

section \<open>Claims\<close>

text \<open>
  The date arithmetic counts days: on the n-th day after the first of January 1970, with the month lengths and the
  leap rule of the Gregorian calendar, it returns n, for every n, although all of it but the era is computed modulo
  2 to the 32.
\<close>

theorem days_from_civil_counts_days: "civil_days (civil_date n) = int n"
proof (induction n)
  case 0
  show ?case by (simp add: civil_date_def days_from_civil_def)
next
  case (Suc n)
  then show ?case using civil_days_next[OF civil_date_ok[of n]] by (simp add: civil_date_def del: next_day.simps civil_days.simps)
qed

text \<open>
  A row the engine exports is read back as its four fields, with the state string as the encoder produced it, and
  its key is the key of exactly the label rows of the same pair of addresses, in either direction, and the same
  port: the join of the two files by texts neither misses a connection nor mixes two.
\<close>

theorem exported_row_joins:
  assumes "beh_cfg r = default_beh_config" "row \<in> set (drop 1 (dump_behavioral_states r))"
  shows "\<exists>k bc. (k, bc) \<in> set (beh_conns r) \<and>
    (let c = getline_split (CHR '','') row in
     length c = 4 \<and> c ! 3 = encode_connection (bc_flows bc) (beh_cfg r) \<and>
     (\<forall>src dst port. tuple_key (c ! 0) (c ! 1) (parse_port (c ! 2)) = tuple_key (dotted_quad src) (dotted_quad dst) (int port) \<longleftrightarrow>
        {src, dst} = {bc_src bc, bc_dst bc} \<and> port = unat (bswap16 (bc_dport bc))))"
proof -
  obtain k bc where bc: "(k, bc) \<in> set (beh_conns r)" "2 \<le> length (encode_connection (bc_flows bc) (beh_cfg r))"
    and row: "row = dotted_quad (bc_src bc) @ '','' @ dotted_quad (bc_dst bc) @ '','' @
      nat_to_string (unat (bswap16 (bc_dport bc))) @ '','' @ encode_connection (bc_flows bc) (beh_cfg r)"
    using assms(2) by (auto simp: dump_behavioral_states_def Let_def split: if_splits)
  have c: "getline_split (CHR '','') row = [dotted_quad (bc_src bc), dotted_quad (bc_dst bc),
      nat_to_string (unat (bswap16 (bc_dport bc))), encode_connection (bc_flows bc) (beh_cfg r)]"
    unfolding row using bc(2) assms(1) encoded_comma_free by (intro exported_row_fields) auto
  define n where "n = unat (bswap16 (bc_dport bc))"
  have "n < 2 ^ 16" using unsigned_less[of "bswap16 (bc_dport bc)", where 'a = nat] by (simp add: n_def)
  then have p: "parse_port (nat_to_string n) = int n" by (intro parse_port_number) simp
  show ?thesis unfolding c Let_def n_def[symmetric]
    using bc(1) by (intro exI[of _ k] exI[of _ bc]) (auto simp: p tuple_key_dotted simp flip: n_def)
qed

lemma exported_row_joins_witness:
  "\<exists>k bc. (k, bc) \<in> set (beh_conns export_sample) \<and>
     getline_split (CHR '','') (dump_behavioral_states export_sample ! 1) ! 3 = encode_connection (bc_flows bc) (beh_cfg export_sample) \<and>
     bc_dst bc = 0x08080808"
proof -
  have "beh_cfg export_sample = default_beh_config" by (simp add: export_sample_def initial_reassembler_def)
  from exported_row_joins[OF this export_sample_row] show ?thesis by (auto simp: Let_def export_sample_def)
qed

text \<open>
  In the sweep the trainer writes, a later row has a higher threshold, no more true and no more false alarms, no
  fewer misses and no higher recall, and every row counts every sample once.
\<close>

theorem sweep_monotone:
  assumes "i \<le> j" "j < 25"
  shows "case (sweep ss ! i, sweep ss ! j) of ((t, c, p, r, f), (t', c', p', r', f')) \<Rightarrow>
    t \<le> t' \<and> cm_tp c' \<le> cm_tp c \<and> cm_fp c' \<le> cm_fp c \<and> cm_fn c \<le> cm_fn c' \<and> cm_tn c \<le> cm_tn c' \<and> r' \<le> r \<and>
    cm_tp c + cm_fp c + cm_fn c + cm_tn c = length ss"
proof -
  let ?t = "\<lambda>n. - 3 + real n / 4" and ?n = "length (filter snd ss)"
  have le: "?t i \<le> ?t j" using assms(1) by simp
  have r: "fst (snd (precision_recall_f1 (cm_tp (confusion_at ss t)) fp (cm_fn (confusion_at ss t)))) =
      (if ?n = 0 then 0 else real (cm_tp (confusion_at ss t)) / real ?n)" for t fp
    by (rule recall_of) (rule confusion_totals)
  have n: "length ss = ?n + length (filter (\<lambda>s. \<not> snd s) ss)" by (simp add: sum_length_filter_compl)
  show ?thesis
    using assms raising_threshold[OF le, of ss] r[of "?t i" "cm_fp (confusion_at ss (?t i))"] r[of "?t j" "cm_fp (confusion_at ss (?t j))"]
      confusion_totals[of ss "?t i"] n
    by (simp add: sweep_row Let_def split: prod.splits) (auto simp: divide_right_mono)
qed

lemma sweep_monotone_witness:
  "case (sweep [(1, True), (2, False)] ! 0, sweep [(1, True), (2, False)] ! 24) of ((t, c, p, r, f), (t', c', p', r', f')) \<Rightarrow>
    t \<le> t' \<and> cm_tp c' \<le> cm_tp c \<and> cm_fp c' \<le> cm_fp c \<and> cm_fn c \<le> cm_fn c' \<and> cm_tn c \<le> cm_tn c' \<and> r' \<le> r \<and>
    cm_tp c + cm_fp c + cm_fn c + cm_tn c = length [(1 :: real, True), (2, False)]"
  by (rule sweep_monotone) simp_all

end
