(* ===== verification/Gui_Panels.thy ===== *)
theory Gui_Panels
  imports Llm_Prompt Config
begin

text \<open>
  The panels of the graphical front end, \<^verbatim>\<open>gui/panels/\<close>: what each keeps, what it shows and what the widgets of its
  toolbar do.  A draw call of ImGui is the list of the texts it puts on the screen; what the user does with a widget
  is an argument.  Colours, layout, scrolling and the time of day are left out.  The lemmas show that the lists stay
  bounded and in order (locale \<open>bounded_list\<close>), that the selection follows its alert, that the ring buffer behind the
  sparkline is the window of the last frames, and which configurations the panel can produce.
\<close>

section \<open>Formatting\<close>

text \<open>\<open>std::format_to_n(buf, size - 1, ...)\<close> and the terminator: what is written of a buffer.\<close>

definition format_into :: "nat \<Rightarrow> string \<Rightarrow> string" where
  "format_into buf_size s = take (buf_size - 1) s @ [CHR 0x00]"

definition format_ip :: "nat \<Rightarrow> u32 \<Rightarrow> string" where
  "format_ip buf_size ip = format_into buf_size (dotted_quad ip)"

definition format_endpoint :: "nat \<Rightarrow> u32 \<Rightarrow> u16 \<Rightarrow> string" where
  "format_endpoint buf_size ip port = format_into buf_size (dotted_quad ip @ '':'' @ nat_to_string (unat (bswap16 port)))"

text \<open>The filter of a table: \<open>strstr\<close> in one of the texts.\<close>

definition passes_filter :: "string \<Rightarrow> string list \<Rightarrow> bool" where
  "passes_filter needle texts = (needle = [] \<or> list_ex (\<lambda>t. contains (c_string t) needle) texts)"

datatype toolbar = Filter_text string | Toggle_scroll | Clear_button

section \<open>Threat alerts\<close>

record alert_panel =
  ap_alerts :: "threat_alert list"
  ap_auto_scroll :: bool
  ap_filter :: string
  ap_selected :: int

definition new_alert_panel :: alert_panel where
  "new_alert_panel = \<lparr>ap_alerts = [], ap_auto_scroll = True, ap_filter = [], ap_selected = - 1\<rparr>"

definition max_alerts :: nat where "max_alerts = 10000"

definition panel_server_port :: "u16 \<Rightarrow> bool" where
  "panel_server_port p =
     (unat p \<in> {20, 21, 22, 23, 25, 53, 80, 110, 143, 443, 445, 993, 995, 3306, 3389, 5432, 8080, 8443})"

definition infer_direction :: "u16 \<Rightarrow> u16 \<Rightarrow> string" where
  "infer_direction src_port_net dst_port_net =
     (let sp = bswap16 src_port_net; dp = bswap16 dst_port_net in
      if panel_server_port dp \<and> \<not> panel_server_port sp then ''client -> server (request)''
      else if panel_server_port sp \<and> \<not> panel_server_port dp then ''server -> client (response)''
      else ''unknown'')"

definition add_alert :: "threat_alert \<Rightarrow> alert_panel \<Rightarrow> alert_panel" where
  "add_alert alert p =
     (let p = p\<lparr>ap_alerts := ap_alerts p @ [alert]\<rparr> in
      if max_alerts < length (ap_alerts p) then
        (let trim = length (ap_alerts p) - max_alerts;
             sel = ap_selected p;
             sel = (if 0 \<le> sel then (if sel - int trim < 0 then - 1 else sel - int trim) else sel)
         in p\<lparr>ap_selected := sel, ap_alerts := drop trim (ap_alerts p)\<rparr>)
      else p)"

fun alert_toolbar :: "toolbar \<Rightarrow> alert_panel \<Rightarrow> alert_panel" where
  "alert_toolbar (Filter_text s) p = p\<lparr>ap_filter := c_string (take 127 s)\<rparr>"
| "alert_toolbar Toggle_scroll p = p\<lparr>ap_auto_scroll := \<not> ap_auto_scroll p\<rparr>"
| "alert_toolbar Clear_button p = p\<lparr>ap_alerts := [], ap_selected := - 1\<rparr>"

definition alert_shown :: "alert_panel \<Rightarrow> threat_alert \<Rightarrow> bool" where
  "alert_shown p a = passes_filter (ap_filter p) [al_threat_type a, al_severity a, al_snippet a]"

definition alert_row :: "threat_alert \<Rightarrow> string list" where
  "alert_row a =
     [c_string (format_endpoint 48 (src_ip (al_connection a)) (src_port (al_connection a))),
      c_string (format_endpoint 48 (dst_ip (al_connection a)) (dst_port (al_connection a))),
      c_string (al_threat_type a),
      take 31 (severity_label (level (al_severity_info a)) @ '' ('' @ fmt_fixed 1 (cvss (al_severity_info a)) @ '')''),
      c_string (al_snippet a)]"

text \<open>The rows of the table, each with the index a click on it carries.\<close>

definition alert_table :: "alert_panel \<Rightarrow> (nat \<times> string list) list" where
  "alert_table p = map (\<lambda>(row, a). (row, alert_row a)) (filter (\<lambda>(row, a). alert_shown p a) (enumerate 0 (ap_alerts p)))"

definition click_row :: "nat \<Rightarrow> alert_panel \<Rightarrow> alert_panel" where
  "click_row row p =
     (case rd (ap_alerts p) row of
        None \<Rightarrow> p
      | Some a \<Rightarrow> if alert_shown p a then p\<lparr>ap_selected := (if ap_selected p = int row then - 1 else int row)\<rparr> else p)"

text \<open>The alert the inspector shows, and its text.\<close>

definition inspected :: "alert_panel \<Rightarrow> threat_alert option" where
  "inspected p =
     (if ap_selected p < 0 \<or> int (length (ap_alerts p)) \<le> ap_selected p then None
      else rd (ap_alerts p) (nat (ap_selected p)))"

definition inspector :: "alert_panel \<Rightarrow> string list" where
  "inspector p =
     (case inspected p of
        None \<Rightarrow> []
      | Some a \<Rightarrow>
          [''Inspector '' @ em_dash @ '' Alert #'' @ int_to_string (ap_selected p + 1),
           ''Source:    '' @ c_string (format_endpoint 48 (src_ip (al_connection a)) (src_port (al_connection a))),
           ''Dest:      '' @ c_string (format_endpoint 48 (dst_ip (al_connection a)) (dst_port (al_connection a))),
           ''Direction: '' @ infer_direction (src_port (al_connection a)) (dst_port (al_connection a)),
           ''Type:      '' @ c_string (al_threat_type a),
           ''Severity:  '' @ severity_format (al_severity_info a),
           ''LLM Output'', c_string (al_raw_output a),
           ''Reassembled Payload ('' @ nat_to_string (length (al_payload_text a)) @ '' chars)'',
           (if al_payload_text a \<noteq> [] then al_payload_text a else ''(no payload captured)'')])"

text \<open>What the panel puts on the page: the counter of the toolbar, the table, the inspector.\<close>

definition alert_texts :: "alert_panel \<Rightarrow> string list" where
  "alert_texts p =
     [''('' @ nat_to_string (length (ap_alerts p)) @ '' alerts)''] @ concat (map snd (alert_table p)) @ inspector p"

section \<open>Live activity\<close>

record activity_panel =
  vp_events :: "flow_event list"
  vp_auto_scroll :: bool
  vp_filter :: string

definition new_activity_panel :: activity_panel where
  "new_activity_panel = \<lparr>vp_events = [], vp_auto_scroll = True, vp_filter = []\<rparr>"

definition max_events :: nat where "max_events = 5000"

definition action_name :: "flow_action \<Rightarrow> string" where
  "action_name action =
     (case action of Filtered \<Rightarrow> ''Filtered'' | PassedToLLM \<Rightarrow> ''-> LLM'' | LLMCleared \<Rightarrow> ''Cleared'')"

definition add_event :: "flow_event \<Rightarrow> activity_panel \<Rightarrow> activity_panel" where
  "add_event ev p =
     (let p = p\<lparr>vp_events := vp_events p @ [ev]\<rparr> in
      if max_events < length (vp_events p) then
        (let trim = length (vp_events p) - max_events in p\<lparr>vp_events := drop trim (vp_events p)\<rparr>)
      else p)"

fun activity_toolbar :: "toolbar \<Rightarrow> activity_panel \<Rightarrow> activity_panel" where
  "activity_toolbar (Filter_text s) p = p\<lparr>vp_filter := c_string (take 127 s)\<rparr>"
| "activity_toolbar Toggle_scroll p = p\<lparr>vp_auto_scroll := \<not> vp_auto_scroll p\<rparr>"
| "activity_toolbar Clear_button p = p\<lparr>vp_events := []\<rparr>"

definition event_row :: "flow_event \<Rightarrow> string list" where
  "event_row ev =
     [c_string (format_endpoint 48 (src_ip (ev_connection ev)) (src_port (ev_connection ev))),
      c_string (format_endpoint 48 (dst_ip (ev_connection ev)) (dst_port (ev_connection ev))),
      action_name (ev_action ev), c_string (ev_reason ev),
      (if 0 < ev_payload_size ev then nat_to_string (ev_payload_size ev) else ''-'')]"

definition activity_table :: "activity_panel \<Rightarrow> string list list" where
  "activity_table p =
     map event_row (filter (\<lambda>ev. passes_filter (vp_filter p) [action_name (ev_action ev), ev_reason ev]) (vp_events p))"

definition activity_texts :: "activity_panel \<Rightarrow> string list" where
  "activity_texts p =
     [''('' @ nat_to_string (length (vp_events p)) @ '' flows)''] @ concat (activity_table p)"

section \<open>Log\<close>

record log_entry =
  le_level :: int
  le_component :: string
  le_message :: string
  le_formatted :: string

record log_panel =
  lp_entries :: "log_entry list"
  lp_min_level :: int
  lp_auto_scroll :: bool
  lp_filter :: string

definition new_log_panel :: log_panel where
  "new_log_panel = \<lparr>lp_entries = [], lp_min_level = 0, lp_auto_scroll = True, lp_filter = []\<rparr>"

definition max_entries :: nat where "max_entries = 50000"

definition level_name :: "int \<Rightarrow> string" where
  "level_name l =
     (if l = 0 then ''DEBUG'' else if l = 1 then ''INFO'' else if l = 2 then ''WARN'' else if l = 3 then ''ERROR'' else ''?'')"

definition make_entry :: "int \<Rightarrow> string \<Rightarrow> string \<Rightarrow> log_entry" where
  "make_entry l component message =
     \<lparr>le_level = l, le_component = component, le_message = message,
      le_formatted = ''['' @ level_name l @ ''] ['' @ component @ ''] '' @ message\<rparr>"

definition add_entry :: "int \<Rightarrow> string \<Rightarrow> string \<Rightarrow> log_panel \<Rightarrow> log_panel" where
  "add_entry l component message p =
     (let p = p\<lparr>lp_entries := lp_entries p @ [make_entry l component message]\<rparr> in
      if max_entries < length (lp_entries p)
      then p\<lparr>lp_entries := drop (length (lp_entries p) - max_entries) (lp_entries p)\<rparr> else p)"

fun log_toolbar :: "toolbar \<Rightarrow> log_panel \<Rightarrow> log_panel" where
  "log_toolbar (Filter_text s) p = p\<lparr>lp_filter := c_string (take 255 s)\<rparr>"
| "log_toolbar Toggle_scroll p = p\<lparr>lp_auto_scroll := \<not> lp_auto_scroll p\<rparr>"
| "log_toolbar Clear_button p = p\<lparr>lp_entries := []\<rparr>"

text \<open>The combo box with the four minimum levels.\<close>

definition pick_min_level :: "nat \<Rightarrow> log_panel \<Rightarrow> log_panel" where
  "pick_min_level i p = (if i < 4 then p\<lparr>lp_min_level := int i\<rparr> else p)"

definition log_lines :: "log_panel \<Rightarrow> string list" where
  "log_lines p =
     map (\<lambda>e. c_string (le_formatted e))
       (filter (\<lambda>e. \<not> le_level e < lp_min_level p \<and> passes_filter (lp_filter p) [le_formatted e]) (lp_entries p))"

definition log_texts :: "log_panel \<Rightarrow> string list" where
  "log_texts p = [''('' @ nat_to_string (length (lp_entries p)) @ '' lines)''] @ log_lines p"

section \<open>Statistics\<close>

definition history_size :: nat where "history_size = 120"

text \<open>Of the statistics the panel keeps a copy, and a ring buffer of the growth of one counter.\<close>

record stats_panel =
  sp_stats :: pipeline_stats
  sp_history :: "real list"
  sp_offset :: nat
  sp_last :: nat

definition empty_stats :: pipeline_stats where
  "empty_stats = \<lparr>filter_passed = 0, filter_dropped = 0, filter_deduped = 0, filter_device = [], alerts_fired = 0,
     q1_depth = 0, q2_depth = 0, q1_drops = 0, q2_drops = 0, q1_capacity = 0, q2_capacity = 0,
     capture_finished = False, blocked_packets = 0, blocked_sources = 0\<rparr>"

definition new_stats_panel :: stats_panel where
  "new_stats_panel = \<lparr>sp_stats = empty_stats, sp_history = replicate history_size 0, sp_offset = 0, sp_last = 0\<rparr>"

definition update_stats :: "pipeline_stats \<Rightarrow> stats_panel \<Rightarrow> stats_panel" where
  "update_stats stats p =
     (let delta = real (filter_passed stats) - real (sp_last p) in
      p\<lparr>sp_last := filter_passed stats, sp_history := (sp_history p)[sp_offset p := delta],
        sp_offset := (sp_offset p + 1) mod history_size, sp_stats := stats\<rparr>)"

definition queue_fill :: "nat \<Rightarrow> nat \<Rightarrow> real" where
  "queue_fill depth capacity = (if 0 < capacity then real depth / real capacity else 0)"

definition queue_lines :: "string \<Rightarrow> nat \<Rightarrow> nat \<Rightarrow> nat \<Rightarrow> string list" where
  "queue_lines label depth capacity drops =
     [take 63 (label @ nat_to_string depth @ '' / '' @ nat_to_string capacity)] @
     (if 0 < drops then [''('' @ nat_to_string drops @ '' drops)''] else [])"

definition stats_lines :: "stats_panel \<Rightarrow> string list" where
  "stats_lines p =
     (let s = sp_stats p; total_flows = filter_passed s + filter_dropped s in
      [''Filter Passed:  '' @ nat_to_string (filter_passed s), ''Filter Dropped: '' @ nat_to_string (filter_dropped s)] @
      (if 0 < filter_deduped s then [''Deduped:        '' @ nat_to_string (filter_deduped s)] else []) @
      [''Alerts Fired:   '' @ nat_to_string (alerts_fired s)] @
      (if 0 < total_flows
       then [''Pass Rate:      '' @ fmt_fixed 1 (real (filter_passed s) / real total_flows * 100) @ ''%''] else []) @
      (if filter_device s \<noteq> [] then [''Filter Device:  '' @ c_string (filter_device s)] else []) @
      (if capture_finished s then [''Capture Complete''] else []) @
      [''Queue Status''] @
      queue_lines ''Reassembly -> Filter: '' (q1_depth s) (q1_capacity s) (q1_drops s) @
      queue_lines ''Filter -> LLM: '' (q2_depth s) (q2_capacity s) (q2_drops s) @
      [''Filter Pass Rate (recent)''])"

text \<open>The ring buffer in the order it is plotted; the progress bars of the queues.\<close>

definition sparkline :: "stats_panel \<Rightarrow> real list" where
  "sparkline p = map (\<lambda>i. sp_history p ! ((sp_offset p + i) mod history_size)) [0..<history_size]"

definition queue_bars :: "stats_panel \<Rightarrow> real \<times> real" where
  "queue_bars p = (let s = sp_stats p in (queue_fill (q1_depth s) (q1_capacity s), queue_fill (q2_depth s) (q2_capacity s)))"

section \<open>Configuration\<close>

text \<open>The capture interfaces as the library lists them: name and description.\<close>

record config_panel =
  cp_interfaces :: "(string \<times> string) list"
  cp_selected :: int
  cp_loaded :: bool

definition new_config_panel :: config_panel where
  "new_config_panel = \<lparr>cp_interfaces = [], cp_selected = - 1, cp_loaded = False\<rparr>"

text \<open>The widgets, with the value the user leaves in them.\<close>

datatype widget =
    Refresh_button | Interface_combo nat | Pcap_path string | Openvino_path string | Llama_path string
  | Entropy_high real | Entropy_low real | Variance real | Inter_arrival real | Use_openvino bool | Npu_threshold real
  | Queue_capacity int | Payload_limit int | Max_tokens int | Gpu_layers int | Log_level nat

text \<open>The first draw lists the interfaces and selects the configured one.\<close>

definition load_interfaces :: "(string \<times> string) list \<Rightarrow> wirewolf_config \<Rightarrow> config_panel \<Rightarrow> config_panel" where
  "load_interfaces listed cfg p =
     (if cp_loaded p then p
      else p\<lparr>cp_interfaces := listed, cp_loaded := True,
             cp_selected := (case find (\<lambda>i. fst (listed ! i) = interface cfg) [0..<length listed] of
                               None \<Rightarrow> cp_selected p | Some i \<Rightarrow> int i)\<rparr>)"

definition int_max1 :: "int \<Rightarrow> nat" where
  "int_max1 v = nat (max 1 v)"

fun edit_widget :: "bool \<Rightarrow> (string \<times> string) list \<Rightarrow> widget \<Rightarrow> config_panel \<times> wirewolf_config \<Rightarrow> config_panel \<times> wirewolf_config" where
  "edit_widget compiled listed Refresh_button (p, c) = (p\<lparr>cp_interfaces := listed, cp_selected := - 1\<rparr>, c)"
| "edit_widget compiled listed (Interface_combo i) (p, c) =
     (case rd (cp_interfaces p) i of None \<Rightarrow> (p, c)
      | Some itf \<Rightarrow> (p\<lparr>cp_selected := int i\<rparr>, c\<lparr>interface := fst itf\<rparr>))"
| "edit_widget compiled listed (Pcap_path s) (p, c) = (p\<lparr>cp_selected := - 1\<rparr>, c\<lparr>interface := c_string (take 511 s)\<rparr>)"
| "edit_widget compiled listed (Openvino_path s) (p, c) = (p, c\<lparr>openvino_model_path := c_string (take 511 s)\<rparr>)"
| "edit_widget compiled listed (Llama_path s) (p, c) = (p, c\<lparr>llama_model_path := c_string (take 511 s)\<rparr>)"
| "edit_widget compiled listed (Entropy_high v) (p, c) = (p, c\<lparr>entropy_high_threshold := v\<rparr>)"
| "edit_widget compiled listed (Entropy_low v) (p, c) = (p, c\<lparr>entropy_low_threshold := v\<rparr>)"
| "edit_widget compiled listed (Variance v) (p, c) = (p, c\<lparr>variance_threshold := v\<rparr>)"
| "edit_widget compiled listed (Inter_arrival v) (p, c) = (p, c\<lparr>inter_arrival_floor := v\<rparr>)"
| "edit_widget compiled listed (Use_openvino b) (p, c) = (p, if compiled then c\<lparr>openvino_enabled := b\<rparr> else c)"
| "edit_widget compiled listed (Npu_threshold v) (p, c) =
     (p, if compiled \<and> openvino_enabled c then c\<lparr>npu_threshold := v\<rparr> else c)"
| "edit_widget compiled listed (Queue_capacity v) (p, c) = (p, c\<lparr>queue_capacity := int_max1 v\<rparr>)"
| "edit_widget compiled listed (Payload_limit v) (p, c) = (p, c\<lparr>payload_char_limit := int_max1 v\<rparr>)"
| "edit_widget compiled listed (Max_tokens v) (p, c) = (p, c\<lparr>max_tokens := v\<rparr>)"
| "edit_widget compiled listed (Gpu_layers v) (p, c) = (p, c\<lparr>n_gpu_layers := v\<rparr>)"
| "edit_widget compiled listed (Log_level i) (p, c) = (p, if i < 4 then c\<lparr>log_level := int i\<rparr> else c)"

text \<open>A draw: the widgets take input unless the pipeline is up.\<close>

definition draw_config ::
    "bool \<Rightarrow> (string \<times> string) list \<Rightarrow> pipeline_state \<Rightarrow> widget list \<Rightarrow> config_panel \<times> wirewolf_config \<Rightarrow> config_panel \<times> wirewolf_config" where
  "draw_config compiled listed st ws pc =
     (case pc of (p, c) \<Rightarrow>
        (let p = load_interfaces listed c p in
         if st \<in> {Running, Starting, Stopping} then (p, c) else fold (edit_widget compiled listed) ws (p, c)))"

text \<open>
  The text on the closed interface list, a read of the selected entry; the labels of the open list; and the two
  hints of the panel.
\<close>

definition interface_preview :: "config_panel \<Rightarrow> string option" where
  "interface_preview p =
     (if 0 \<le> cp_selected p then map_option (\<lambda>itf. c_string (snd itf)) (rd (cp_interfaces p) (nat (cp_selected p)))
      else Some ''Select interface...'')"

definition interface_labels :: "config_panel \<Rightarrow> string list" where
  "interface_labels p =
     map (\<lambda>(name, description). c_string (if description = [] then name else description @ '' ('' @ name @ '')''))
       (cp_interfaces p)"

definition config_texts :: "config_panel \<times> wirewolf_config \<Rightarrow> string list" where
  "config_texts pc =
     (case pc of (p, c) \<Rightarrow>
        (case interface_preview p of None \<Rightarrow> [] | Some t \<Rightarrow> [t]) @
        (if cp_interfaces p = [] then [''No interfaces found. Run as admin?''] else []) @
        (if \<not> config_valid c then [''Set interface, OpenVINO model, and LLaMA model paths.''] else []))"

section \<open>Bounded lists\<close>

text \<open>The contract of the three lists: a new item goes to the end, and only the last \<open>limit\<close> items stay.\<close>

locale bounded_list =
  fixes add :: "'e \<Rightarrow> 'p \<Rightarrow> 'p"
    and items :: "'p \<Rightarrow> 'i list"
    and render :: "'e \<Rightarrow> 'i"
    and limit :: nat
  assumes add_items: "items (add e p) = drop (Suc (length (items p)) - limit) (items p @ [render e])"
begin

lemma add_bounded: "length (items p) \<le> limit \<Longrightarrow> length (items (add e p)) \<le> limit"
  by (simp add: add_items)

lemma fold_items:
  "length (items p) \<le> limit \<Longrightarrow>
   items (fold add es p) = drop (length (items p) + length es - limit) (items p @ map render es)"
proof (induction es arbitrary: p)
  case (Cons e es)
  let ?k = "Suc (length (items p)) - limit"
  have k: "items (add e p) @ map render es = drop ?k (items p @ map render (e # es))"
    by (cases limit) (simp_all add: add_items)
  have "items (fold add (e # es) p) = drop (length (items (add e p)) + length es - limit) (items (add e p) @ map render es)"
    using Cons.IH[OF add_bounded[OF Cons.prems]] by simp
  also have "\<dots> = drop (length (items (add e p)) + length es - limit + ?k) (items p @ map render (e # es))"
    unfolding k by (simp only: drop_drop)
  also have "length (items (add e p)) + length es - limit + ?k = length (items p) + length (e # es) - limit"
    using Cons.prems by (simp add: add_items)
  finally show ?case .
qed simp

lemma fold_recent:
  "items p = [] \<Longrightarrow> items (fold add es p) = drop (length es - limit) (map render es)"
  using fold_items[of p es] by simp

end

lemma add_alert_items: "ap_alerts (add_alert a p) = drop (Suc (length (ap_alerts p)) - max_alerts) (ap_alerts p @ [a])"
  by (simp add: add_alert_def Let_def)

interpretation alert_list: bounded_list add_alert ap_alerts "\<lambda>a. a" max_alerts
  by unfold_locales (rule add_alert_items)

interpretation event_list: bounded_list add_event vp_events "\<lambda>ev. ev" max_events
  by unfold_locales (simp add: add_event_def Let_def)

interpretation entry_list: bounded_list "\<lambda>(l, component, message). add_entry l component message" lp_entries
    "\<lambda>(l, component, message). make_entry l component message" max_entries
  by unfold_locales (simp add: add_entry_def Let_def split: prod.split)

section \<open>Texts that fit\<close>

lemma nat_to_string_length: "n < 10 ^ k \<Longrightarrow> 0 < k \<Longrightarrow> length (nat_to_string n) \<le> k"
proof (induction n arbitrary: k rule: nat_to_string.induct)
  case (1 n)
  show ?case
  proof (cases "n < 10")
    case True
    then show ?thesis using "1.prems" by (subst nat_to_string.simps) simp
  next
    case False
    then obtain j where j: "k = Suc j" "0 < j" using "1.prems" by (cases k; cases "k - 1") auto
    have "n div 10 < 10 ^ j" using "1.prems"(1) j(1) by (simp add: less_mult_imp_div_less mult.commute)
    from "1.IH"[OF False this j(2)] False show ?thesis by (subst nat_to_string.simps) (simp add: j)
  qed
qed

lemma dotted_quad_length: "length (dotted_quad ip) \<le> 15"
  using nat_to_string_length[of "ip_byte ip 0" 3] nat_to_string_length[of "ip_byte ip 1" 3]
    nat_to_string_length[of "ip_byte ip 2" 3] nat_to_string_length[of "ip_byte ip 3" 3]
    ip_byte_lt[of ip 0] ip_byte_lt[of ip 1] ip_byte_lt[of ip 2] ip_byte_lt[of ip 3]
  by (simp add: dotted_quad_def)

lemma nat_to_string_no_nul: "CHR 0x00 \<notin> set (nat_to_string n)"
  using nat_to_string_digits[of "CHR 0x00" n] by (auto simp: is_digit_def)

lemma c_string_format: "length s < n \<Longrightarrow> CHR 0x00 \<notin> set s \<Longrightarrow> c_string (format_into n s) = s"
  by (auto simp: format_into_def c_string_def intro!: takeWhile_append2[THEN trans])

lemma endpoint_fits:
  "c_string (format_endpoint 48 ip port) = dotted_quad ip @ '':'' @ nat_to_string (unat (bswap16 port))"
proof -
  have "unat (bswap16 port) < 10 ^ 5" using unsigned_less[where w="bswap16 port" and 'a=nat] by simp
  then have "length (nat_to_string (unat (bswap16 port))) \<le> 5" by (rule nat_to_string_length) simp
  then show ?thesis
    using dotted_quad_length[of ip] unfolding format_endpoint_def
    by (intro c_string_format) (auto simp: dotted_quad_def nat_to_string_no_nul)
qed

lemma infer_direction_agrees: "infer_direction sp dp = flow_direction (bswap16 sp) (bswap16 dp)"
  by (simp add: infer_direction_def flow_direction_def panel_server_port_def is_server_port_def server_ports_def Let_def)

section \<open>The selected alert\<close>

text \<open>Everything that happens to the panel.\<close>

datatype alert_op = Add_alert threat_alert | Press_toolbar toolbar | Click nat

fun alert_op_step :: "alert_op \<Rightarrow> alert_panel \<Rightarrow> alert_panel" where
  "alert_op_step (Add_alert a) p = add_alert a p"
| "alert_op_step (Press_toolbar t) p = alert_toolbar t p"
| "alert_op_step (Click row) p = click_row row p"

definition selection_ok :: "alert_panel \<Rightarrow> bool" where
  "selection_ok p \<longleftrightarrow>
     length (ap_alerts p) \<le> max_alerts \<and> - 1 \<le> ap_selected p \<and> ap_selected p < int (length (ap_alerts p))"

lemma selection_ok_new: "selection_ok new_alert_panel"
  by (simp add: selection_ok_def new_alert_panel_def)

lemma add_alert_room:
  "length (ap_alerts p) < max_alerts \<Longrightarrow> add_alert a p = p\<lparr>ap_alerts := ap_alerts p @ [a]\<rparr>"
  by (simp add: add_alert_def)

lemma add_alert_full:
  "length (ap_alerts p) = max_alerts \<Longrightarrow> - 1 \<le> ap_selected p \<Longrightarrow>
   add_alert a p = p\<lparr>ap_alerts := tl (ap_alerts p) @ [a], ap_selected := max (- 1) (ap_selected p - 1)\<rparr>"
  by (auto simp: add_alert_def Let_def max_alerts_def drop_Suc)

lemma selection_ok_add: "selection_ok p \<Longrightarrow> selection_ok (add_alert a p)"
  by (cases "length (ap_alerts p) < max_alerts") (auto simp: selection_ok_def add_alert_room add_alert_full max_alerts_def)

lemma selection_ok_step: "selection_ok p \<Longrightarrow> selection_ok (alert_op_step op p)"
proof (cases op)
  case (Press_toolbar t)
  assume "selection_ok p"
  with Press_toolbar show ?thesis by (cases t) (auto simp: selection_ok_def)
next
  case (Click row)
  assume "selection_ok p"
  with Click show ?thesis by (auto simp: selection_ok_def click_row_def split: option.split)
qed (simp add: selection_ok_add)

lemma selection_ok_run: "selection_ok p \<Longrightarrow> selection_ok (fold alert_op_step ops p)"
  by (induction ops arbitrary: p) (simp_all add: selection_ok_step)

lemma inspected_add:
  assumes "selection_ok p"
  shows "inspected (add_alert a p) = (if length (ap_alerts p) = max_alerts \<and> ap_selected p = 0 then None else inspected p)"
proof (cases "length (ap_alerts p) < max_alerts")
  case True
  then show ?thesis using assms by (auto simp: selection_ok_def add_alert_room inspected_def rd_def nth_append)
next
  case False
  then have full: "length (ap_alerts p) = max_alerts" using assms by (simp add: selection_ok_def)
  have "nat (ap_selected p - 1) = nat (ap_selected p) - 1" by simp
  then show ?thesis
    using assms full
    by (auto simp: selection_ok_def add_alert_full inspected_def rd_def nth_append nth_tl max_def)
qed

lemma inspected_adds:
  "selection_ok p \<Longrightarrow>
   inspected (fold add_alert as p) =
     (if 0 \<le> ap_selected p \<and> int (length (ap_alerts p) + length as) - int max_alerts \<le> ap_selected p
      then inspected p else None)"
proof (induction as arbitrary: p)
  case Nil
  then show ?case by (auto simp: selection_ok_def inspected_def)
next
  case (Cons a as)
  show ?case
  proof (cases "length (ap_alerts p) < max_alerts")
    case True
    with Cons.IH[OF selection_ok_add[OF Cons.prems], of a] inspected_add[OF Cons.prems, of a] show ?thesis
      by (simp add: add_alert_room)
  next
    case False
    then have "length (ap_alerts p) = max_alerts" "- 1 \<le> ap_selected p" using Cons.prems by (simp_all add: selection_ok_def)
    with Cons.IH[OF selection_ok_add[OF Cons.prems], of a] inspected_add[OF Cons.prems, of a] show ?thesis
      by (auto simp: add_alert_full max_alerts_def)
  qed
qed

text \<open>
  C29: The selection of the alert table follows its alert: after any sequence of new alerts, clicks, filters and
  clears the selected index is - 1 or a row of the table, which holds at most 10000 alerts; and whatever alerts
  arrive next, the inspector goes on showing the same alert until that alert has been pushed out of the table, and
  then closes.
\<close>

theorem selection_follows_alert:
  "let p = fold alert_op_step ops new_alert_panel in
     length (ap_alerts p) \<le> 10000 \<and> - 1 \<le> ap_selected p \<and> ap_selected p < int (length (ap_alerts p)) \<and>
     inspected (fold add_alert as p) =
       (if 0 \<le> ap_selected p \<and> int (length (ap_alerts p) + length as) - 10000 \<le> ap_selected p then inspected p else None)"
  using selection_ok_run[OF selection_ok_new, of ops] inspected_adds[OF selection_ok_run[OF selection_ok_new, of ops], of as]
  by (simp add: selection_ok_def Let_def max_alerts_def)

lemma click_opens:
  "i < length (ap_alerts p) \<Longrightarrow> alert_shown p (ap_alerts p ! i) \<Longrightarrow>
   inspected (click_row i p) = (if ap_selected p = int i then None else Some (ap_alerts p ! i))"
  by (simp add: click_row_def rd_lt inspected_def)

section \<open>The sparkline\<close>

definition ring_ok :: "stats_panel \<Rightarrow> bool" where
  "ring_ok p \<longleftrightarrow> length (sp_history p) = history_size \<and> sp_offset p < history_size"

lemma sparkline_rotate: "ring_ok p \<Longrightarrow> sparkline p = rotate (sp_offset p) (sp_history p)"
  by (rule nth_equalityI) (simp_all add: sparkline_def ring_ok_def nth_rotate)

lemma rotate_put:
  assumes "k < length xs"
  shows "rotate (Suc k) (xs[k := d]) = tl (rotate k xs) @ [d]"
proof -
  have split: "xs = take k xs @ xs ! k # drop (Suc k) xs" using assms by (rule id_take_nth_drop)
  have put: "xs[k := d] = take k xs @ d # drop (Suc k) xs" using assms by (rule upd_conv_take_nth_drop)
  have "rotate k (take k xs @ y # drop (Suc k) xs) = y # drop (Suc k) xs @ take k xs" for y
    using rotate_append[of "take k xs" "y # drop (Suc k) xs"] assms by simp
  from this[of d] this[of "xs ! k"] show ?thesis by (simp add: put flip: split)
qed

lemma update_ring:
  assumes "ring_ok p"
  shows "ring_ok (update_stats s p)"
    and "sparkline (update_stats s p) = tl (sparkline p) @ [real (filter_passed s) - real (sp_last p)]"
proof -
  show ok: "ring_ok (update_stats s p)" using assms by (simp add: ring_ok_def update_stats_def history_size_def)
  have "rotate ((sp_offset p + 1) mod history_size) ys = rotate (Suc (sp_offset p)) ys"
    if "length ys = history_size" for ys :: "real list"
    using rotate_conv_mod[of "Suc (sp_offset p)" ys] that by simp
  then show "sparkline (update_stats s p) = tl (sparkline p) @ [real (filter_passed s) - real (sp_last p)]"
    using assms sparkline_rotate[OF ok] sparkline_rotate[OF assms] rotate_put[of "sp_offset p" "sp_history p"]
    by (simp add: update_stats_def Let_def ring_ok_def)
qed

text \<open>The growth of a counter from frame to frame.\<close>

fun growth :: "nat \<Rightarrow> nat list \<Rightarrow> real list" where
  "growth before [] = []"
| "growth before (n # ns) = (real n - real before) # growth n ns"

lemma length_growth [simp]: "length (growth b ns) = length ns"
  by (induction b ns rule: growth.induct) auto

lemma sum_growth: "sum_list (growth b ns) = real (last (b # ns)) - real b"
  by (induction b ns rule: growth.induct) auto

lemma growth_constant: "growth b (replicate k b) = replicate k 0"
  by (induction k) auto

lemma growth_append: "growth b (ms @ ns) = growth b ms @ growth (last (b # ms)) ns"
  by (induction b ms rule: growth.induct) auto

lemma sparkline_run:
  "ring_ok p \<Longrightarrow> ring_ok (fold update_stats ss p) \<and>
   sparkline (fold update_stats ss p) = drop (length ss) (sparkline p @ growth (sp_last p) (map filter_passed ss))"
proof (induction ss arbitrary: p)
  case (Cons s ss)
  have "sparkline p \<noteq> []" by (simp add: sparkline_def history_size_def)
  moreover have "sp_last (update_stats s p) = filter_passed s" by (simp add: update_stats_def Let_def)
  ultimately show ?case
    using Cons.IH[OF update_ring(1)[OF Cons.prems, of s]] update_ring(2)[OF Cons.prems, of s]
    by (cases "sparkline p") auto
qed simp

lemma ring_ok_new: "ring_ok new_stats_panel"
  by (simp add: ring_ok_def new_stats_panel_def history_size_def)

lemma sparkline_new: "sparkline new_stats_panel = replicate 120 0"
  by (rule nth_equalityI) (simp_all add: sparkline_def new_stats_panel_def history_size_def del: upt_conv_Cons)

text \<open>
  The plotted line is a sliding window: after any number of frames it holds, oldest first, the growth of the
  passed counter over each of the last 120 frames (zeros before the first), and as long as no more than 120 frames
  were drawn the plotted values add up to the counter.
\<close>

theorem sparkline_window:
  "let ss = fold update_stats frames new_stats_panel; g = growth 0 (map filter_passed frames) in
     sparkline ss = drop (length frames) (replicate 120 0 @ g) \<and>
     (if length frames \<le> 120 then sum_list (sparkline ss) = real (last (0 # map filter_passed frames))
      else sparkline ss = drop (length frames - 120) g)"
proof -
  let ?g = "growth 0 (map filter_passed frames)"
  have l: "sparkline (fold update_stats frames new_stats_panel) = drop (length frames) (replicate 120 0 @ ?g)"
    using sparkline_run[OF ring_ok_new, of frames] sparkline_new by (simp add: new_stats_panel_def)
  show ?thesis
  proof (cases "length frames \<le> 120")
    case True
    then show ?thesis using sum_growth[of 0 "map filter_passed frames"] by (simp add: l Let_def sum_list_replicate)
  next
    case False
    then show ?thesis by (simp add: l Let_def)
  qed
qed

lemma idle_frames_flatten:
  "sparkline (fold update_stats (replicate 120 s) (update_stats s p)) = replicate 120 0" if "ring_ok p"
proof -
  have "sp_last (update_stats s p) = filter_passed s" by (simp add: update_stats_def Let_def)
  moreover have "length (sparkline (update_stats s p)) = 120" by (simp add: sparkline_def history_size_def)
  ultimately show ?thesis
    using sparkline_run[OF update_ring(1)[OF that, of s], of "replicate 120 s"]
    by (simp add: growth_constant)
qed

section \<open>What the configuration panel can produce\<close>

definition config_ok :: "config_panel \<times> wirewolf_config \<Rightarrow> bool" where
  "config_ok pc \<longleftrightarrow> (case pc of (p, c) \<Rightarrow>
     - 1 \<le> cp_selected p \<and> cp_selected p < int (length (cp_interfaces p)) \<and>
     (cp_selected p = - 1 \<or> fst (cp_interfaces p ! nat (cp_selected p)) = interface c) \<and>
     0 < queue_capacity c \<and> 0 < payload_char_limit c \<and> 0 \<le> log_level c \<and> log_level c \<le> 3 \<and> parse_error c = [] \<and>
     (cp_loaded p \<or> cp_selected p = - 1))"

lemma config_ok_widget:
  "config_ok pc \<and> cp_loaded (fst pc) \<Longrightarrow>
   config_ok (edit_widget compiled listed w pc) \<and> cp_loaded (fst (edit_widget compiled listed w pc))"
  by (cases pc; cases w) (auto simp: config_ok_def int_max1_def split: option.split)

lemma config_ok_load:
  "config_ok (p, c) \<Longrightarrow> config_ok (load_interfaces listed c p, c) \<and> cp_loaded (load_interfaces listed c p)"
  by (auto simp: config_ok_def load_interfaces_def find_Some_iff split: option.split)

lemma config_ok_fold: "config_ok pc \<and> cp_loaded (fst pc) \<Longrightarrow> config_ok (fold (edit_widget compiled listed) ws pc)"
  by (induction ws arbitrary: pc) (simp_all add: config_ok_widget)

lemma config_ok_draw: "config_ok pc \<Longrightarrow> config_ok (draw_config compiled listed st ws pc)"
  by (cases pc) (simp add: draw_config_def Let_def config_ok_load config_ok_fold)

lemma config_ok_draws: "config_ok pc \<Longrightarrow> config_ok (fold (\<lambda>(listed, st, ws). draw_config compiled listed st ws) ds pc)"
proof (induction ds arbitrary: pc)
  case (Cons d ds)
  from Cons.IH[OF config_ok_draw[OF Cons.prems]] show ?case by (cases d) simp
qed simp

lemma config_ok_new: "config_ok (new_config_panel, default_config)"
  by (simp add: config_ok_def new_config_panel_def default_config_def)


end
