(* ===== verification/Gui_App.thy ===== *)
theory Gui_App
  imports Gui_Panels C_Api
begin

text \<open>
  \<^verbatim>\<open>gui/app.cpp\<close>: the window of the graphical front end.  The pipeline threads leave what they report in buffers under
  mutexes; every frame moves the buffers into the panels and then draws the sidebar and the current page.  The
  lemmas show that nothing reported is lost or reordered on that way, what the pipeline button does, that the panel
  lets a token budget through that the classifier cannot survive, and that closing the window of a running pipeline
  destroys buffers that are still in use.
\<close>

section \<open>The window\<close>

datatype nav_page = Dashboard | Alerts_page | Activity_page | Configuration_page | Log_page

record gui_app =
  ga_controller :: controller
  ga_config :: wirewolf_config
  ga_alert_panel :: alert_panel
  ga_activity_panel :: activity_panel
  ga_stats_panel :: stats_panel
  ga_config_panel :: config_panel
  ga_log_panel :: log_panel
  ga_pending_alerts :: "threat_alert list"
  ga_latest_stats :: pipeline_stats
  ga_pending_activity :: "flow_event list"
  ga_pending_logs :: "(int \<times> string \<times> string) list"
  ga_state :: pipeline_state
  ga_page :: nav_page
  ga_log_level :: int

definition new_app :: gui_app where
  "new_app = \<lparr>ga_controller = new_controller, ga_config = default_config, ga_alert_panel = new_alert_panel,
     ga_activity_panel = new_activity_panel, ga_stats_panel = new_stats_panel, ga_config_panel = new_config_panel,
     ga_log_panel = new_log_panel, ga_pending_alerts = [], ga_latest_stats = empty_stats, ga_pending_activity = [],
     ga_pending_logs = [], ga_state = Stopped, ga_page = Dashboard, ga_log_level = 1\<rparr>"

text \<open>What the pipeline and the logger report: one constructor per callback.\<close>

datatype callback =
  Threat threat_alert | Stats_update pipeline_stats | State_change pipeline_state | Flow flow_event | Log_line int string string

fun report :: "callback \<Rightarrow> gui_app \<Rightarrow> gui_app" where
  "report (Threat alert) g = g\<lparr>ga_pending_alerts := ga_pending_alerts g @ [alert]\<rparr>"
| "report (Stats_update stats) g = g\<lparr>ga_latest_stats := stats\<rparr>"
| "report (State_change st) g = g\<lparr>ga_state := st\<rparr>"
| "report (Flow ev) g = g\<lparr>ga_pending_activity := ga_pending_activity g @ [ev]\<rparr>"
| "report (Log_line l component message) g = g\<lparr>ga_pending_logs := ga_pending_logs g @ [(l, component, message)]\<rparr>"

definition process_pending_data :: "gui_app \<Rightarrow> gui_app" where
  "process_pending_data g =
     (let g = g\<lparr>ga_alert_panel := fold add_alert (ga_pending_alerts g) (ga_alert_panel g), ga_pending_alerts := []\<rparr>;
          g = g\<lparr>ga_stats_panel := update_stats (ga_latest_stats g) (ga_stats_panel g)\<rparr>;
          g = g\<lparr>ga_activity_panel := fold add_event (ga_pending_activity g) (ga_activity_panel g), ga_pending_activity := []\<rparr>
      in g\<lparr>ga_log_panel := fold (\<lambda>(l, component, message). add_entry l component message) (ga_pending_logs g) (ga_log_panel g),
           ga_pending_logs := []\<rparr>)"

text \<open>The pipeline button of the sidebar; its label, and the status at the bottom.\<close>

definition press_pipeline_button :: "pipeline_state \<Rightarrow> gui_app \<Rightarrow> gui_app" where
  "press_pipeline_button st g =
     (if st = Stopped \<or> st = Error then
        (if config_valid (ga_config g) then
           (case start_pipeline (ga_config g) (ga_controller g) of
              (ok, c) \<Rightarrow> (let g = g\<lparr>ga_log_level := log_level (ga_config g), ga_controller := c\<rparr>
                         in if ok then report (State_change Starting) g else g))
         else g)
      else if st = Running then g\<lparr>ga_controller := stop_pipeline (ga_controller g)\<rparr>
      else g)"

definition pipeline_button_label :: "pipeline_state \<Rightarrow> string" where
  "pipeline_button_label st =
     (if st = Stopped \<or> st = Error then '' Start Pipeline''
      else if st = Running then '' Stop Pipeline'' else '' Processing...'')"

definition status_text :: "pipeline_state \<Rightarrow> string" where
  "status_text st =
     (case st of Starting \<Rightarrow> ''STARTING...'' | Running \<Rightarrow> ''RUNNING'' | Stopping \<Rightarrow> ''STOPPING...'' | Error \<Rightarrow> ''ERROR''
      | Stopped \<Rightarrow> ''STOPPED'')"

definition go_to :: "nav_page \<Rightarrow> gui_app \<Rightarrow> gui_app" where
  "go_to page g = g\<lparr>ga_page := page\<rparr>"

text \<open>What the user does in a frame; a widget that the current page does not show takes no input.\<close>

datatype user_input =
    Pipeline_button | Navigate nav_page | Alert_toolbar toolbar | Alert_click nat | Activity_toolbar toolbar
  | Log_toolbar toolbar | Log_min_level nat | Config_widget widget

definition alert_panel_drawn :: "nav_page \<Rightarrow> bool" where
  "alert_panel_drawn page = (page = Dashboard \<or> page = Alerts_page)"

definition config_panel_drawn :: "nav_page \<Rightarrow> bool" where
  "config_panel_drawn page = (page = Dashboard \<or> page = Configuration_page)"

text \<open>The part of a frame that depends on the input; \<open>st\<close> is the state read at the beginning of the frame.\<close>

fun handle_input :: "bool \<Rightarrow> (string \<times> string) list \<Rightarrow> pipeline_state \<Rightarrow> user_input \<Rightarrow> gui_app \<Rightarrow> gui_app" where
  "handle_input compiled listed st Pipeline_button g = press_pipeline_button st g"
| "handle_input compiled listed st (Navigate page) g = go_to page g"
| "handle_input compiled listed st (Alert_toolbar t) g =
     (if alert_panel_drawn (ga_page g) then g\<lparr>ga_alert_panel := alert_toolbar t (ga_alert_panel g)\<rparr> else g)"
| "handle_input compiled listed st (Alert_click row) g =
     (if alert_panel_drawn (ga_page g) then g\<lparr>ga_alert_panel := click_row row (ga_alert_panel g)\<rparr> else g)"
| "handle_input compiled listed st (Activity_toolbar t) g =
     (if ga_page g = Activity_page then g\<lparr>ga_activity_panel := activity_toolbar t (ga_activity_panel g)\<rparr> else g)"
| "handle_input compiled listed st (Log_toolbar t) g =
     (if ga_page g = Log_page then g\<lparr>ga_log_panel := log_toolbar t (ga_log_panel g)\<rparr> else g)"
| "handle_input compiled listed st (Log_min_level i) g =
     (if ga_page g = Log_page then g\<lparr>ga_log_panel := pick_min_level i (ga_log_panel g)\<rparr> else g)"
| "handle_input compiled listed st (Config_widget w) g =
     (if config_panel_drawn (ga_page g)
      then (case draw_config compiled listed st [w] (ga_config_panel g, ga_config g) of
              (p, c) \<Rightarrow> g\<lparr>ga_config_panel := p, ga_config := c\<rparr>)
      else g)"

text \<open>
  One frame: the buffers first, then the input in the order the widgets are drawn.  Drawing the configuration panel
  for the first time lists the interfaces even when nothing is entered.
\<close>

definition render_frame :: "bool \<Rightarrow> (string \<times> string) list \<Rightarrow> user_input list \<Rightarrow> gui_app \<Rightarrow> gui_app" where
  "render_frame compiled listed inputs g =
     (let g = process_pending_data g; st = ga_state g; g = fold (handle_input compiled listed st) inputs g in
      if config_panel_drawn (ga_page g)
      then g\<lparr>ga_config_panel := load_interfaces listed (ga_config g) (ga_config_panel g)\<rparr> else g)"

text \<open>The texts on the page.\<close>

definition page_texts :: "gui_app \<Rightarrow> string list" where
  "page_texts g =
     (case ga_page g of
        Dashboard \<Rightarrow>
          ['' Pipeline Statistics''] @ stats_lines (ga_stats_panel g) @
          ['' Configuration''] @ config_texts (ga_config_panel g, ga_config g) @
          ['' Threat Alerts''] @ alert_texts (ga_alert_panel g)
      | Alerts_page \<Rightarrow> alert_texts (ga_alert_panel g)
      | Activity_page \<Rightarrow> activity_texts (ga_activity_panel g)
      | Configuration_page \<Rightarrow> config_texts (ga_config_panel g, ga_config g)
      | Log_page \<Rightarrow> log_texts (ga_log_panel g))"

section \<open>Closing the window\<close>

text \<open>
  The destructor unhooks the logger and asks the pipeline to stop; then the members are destroyed in the reverse
  order of their declaration, so the buffers and their mutexes go before the controller, whose destructor waits for
  the pipeline thread.  What that thread and its workers still report is what was in flight and the state changes
  that remain of a successful run.
\<close>

datatype close_event = Ask_stop | Destroy_buffers | Wait_for_pipeline | Pipeline_callback

record closing =
  gc_app :: gui_app
  gc_alive :: bool
  gc_callbacks :: "callback list"
  gc_joined :: bool

fun remaining_changes :: "pipeline_state \<Rightarrow> callback list" where
  "remaining_changes Starting = [State_change Running, State_change Stopping, State_change Stopped]"
| "remaining_changes Running = [State_change Stopping, State_change Stopped]"
| "remaining_changes Stopping = [State_change Stopped]"
| "remaining_changes Stopped = []"
| "remaining_changes Error = []"

definition begin_close :: "callback list \<Rightarrow> gui_app \<Rightarrow> closing" where
  "begin_close in_flight g =
     (let changes = remaining_changes (ct_state (ga_controller g)) in
      \<lparr>gc_app = g, gc_alive = True, gc_callbacks = (if changes = [] then [] else in_flight @ changes), gc_joined = False\<rparr>)"

fun close_step :: "close_event \<Rightarrow> closing \<Rightarrow> closing outcome" where
  "close_step Ask_stop t =
     (if ct_shutdown (ga_controller (gc_app t)) then Disabled
      else Next (t\<lparr>gc_app := (gc_app t)\<lparr>ga_controller := stop_pipeline (ga_controller (gc_app t))\<rparr>\<rparr>))"
| "close_step Destroy_buffers t =
     (if ct_shutdown (ga_controller (gc_app t)) \<and> gc_alive t then Next (t\<lparr>gc_alive := False\<rparr>) else Disabled)"
| "close_step Wait_for_pipeline t =
     (if \<not> gc_alive t \<and> gc_callbacks t = [] then Next (t\<lparr>gc_joined := True\<rparr>) else Disabled)"
| "close_step Pipeline_callback t =
     (case gc_callbacks t of
        [] \<Rightarrow> Disabled
      | cb # rest \<Rightarrow>
          if \<not> gc_alive t then Use_after_free
          else Next (t\<lparr>gc_callbacks := rest, gc_app := report cb (gc_app t)\<rparr>))"

fun close_run :: "close_event list \<Rightarrow> closing \<Rightarrow> closing outcome" where
  "close_run [] t = Next t"
| "close_run (e # es) t = (case close_step e t of Next t' \<Rightarrow> close_run es t' | r \<Rightarrow> r)"

section \<open>From the callbacks to the panels\<close>

datatype app_event = Report callback | Frame bool "(string \<times> string) list" "user_input list"

fun app_step :: "app_event \<Rightarrow> gui_app \<Rightarrow> gui_app" where
  "app_step (Report cb) g = report cb g"
| "app_step (Frame compiled listed inputs) g = render_frame compiled listed inputs g"

definition reported_alerts :: "app_event list \<Rightarrow> threat_alert list" where
  "reported_alerts es = concat (map (\<lambda>e. case e of Report (Threat a) \<Rightarrow> [a] | _ \<Rightarrow> []) es)"

definition reported_flows :: "app_event list \<Rightarrow> flow_event list" where
  "reported_flows es = concat (map (\<lambda>e. case e of Report (Flow ev) \<Rightarrow> [ev] | _ \<Rightarrow> []) es)"

definition reported_logs :: "app_event list \<Rightarrow> (int \<times> string \<times> string) list" where
  "reported_logs es = concat (map (\<lambda>e. case e of Report (Log_line l c m) \<Rightarrow> [(l, c, m)] | _ \<Rightarrow> []) es)"

definition clear_inputs :: "user_input set" where
  "clear_inputs = {Alert_toolbar Clear_button, Activity_toolbar Clear_button, Log_toolbar Clear_button}"

definition never_cleared :: "app_event list \<Rightarrow> bool" where
  "never_cleared es =
     list_all (\<lambda>e. case e of Frame _ _ inputs \<Rightarrow> list_all (\<lambda>i. i \<notin> clear_inputs) inputs | _ \<Rightarrow> True) es"

definition log_source :: "log_entry \<Rightarrow> int \<times> string \<times> string" where
  "log_source e = (le_level e, le_component e, le_message e)"

text \<open>What a panel shows and what waits for the next frame, against what was reported.\<close>

definition delivered :: "nat \<Rightarrow> bool \<Rightarrow> 'a list \<Rightarrow> 'a list \<Rightarrow> 'a list \<Rightarrow> bool" where
  "delivered limit clean shown queued reported \<longleftrightarrow>
     suffix (shown @ queued) reported \<and> length shown \<le> limit \<and>
     (clean \<and> length reported \<le> limit \<longrightarrow> shown @ queued = reported)"

lemma delivered_report: "delivered n c shown queued rep \<Longrightarrow> delivered n c shown (queued @ xs) (rep @ xs)"
  by (auto simp: delivered_def suffix_def)

lemma delivered_frame:
  assumes "delivered n c shown queued rep"
  shows "delivered n c (drop (length shown + length queued - n) (shown @ queued)) [] rep"
  using assms suffix_order.trans[OF suffix_drop, of "shown @ queued" rep "length shown + length queued - n"]
  by (auto simp: delivered_def)

lemma delivered_input:
  assumes "delivered n c shown queued rep" and "shown' = shown \<or> shown' = [] \<and> \<not> c'" and "c' \<Longrightarrow> c"
  shows "delivered n c' shown' queued rep"
  using assms by (auto simp: delivered_def intro: suffix_order.trans suffix_appendI)

definition app_books :: "bool \<Rightarrow> app_event list \<Rightarrow> gui_app \<Rightarrow> bool" where
  "app_books clean es g \<longleftrightarrow>
     delivered max_alerts clean (ap_alerts (ga_alert_panel g)) (ga_pending_alerts g) (reported_alerts es) \<and>
     delivered max_events clean (vp_events (ga_activity_panel g)) (ga_pending_activity g) (reported_flows es) \<and>
     delivered max_entries clean (map log_source (lp_entries (ga_log_panel g))) (ga_pending_logs g) (reported_logs es)"

lemmas reported_defs = reported_alerts_def reported_flows_def reported_logs_def

lemma books_report: "app_books clean es g \<Longrightarrow> app_books clean (es @ [Report cb]) (report cb g)"
  using delivered_report[of _ _ _ _ _ "[]"]
  by (cases cb) (auto simp: app_books_def reported_defs intro: delivered_report)

lemma log_source_make [simp]: "log_source (make_entry l c m) = (l, c, m)"
  by (simp add: log_source_def make_entry_def)

lemma books_process:
  assumes "app_books clean es g"
  shows "app_books clean es (process_pending_data g)"
proof -
  let ?p = "process_pending_data g"
  have render: "map (log_source \<circ> (\<lambda>(l, c, m). make_entry l c m)) ls = ls" for ls by (induction ls) auto
  from assms have a: "length (ap_alerts (ga_alert_panel g)) \<le> max_alerts"
      and v: "length (vp_events (ga_activity_panel g)) \<le> max_events"
      and l: "length (lp_entries (ga_log_panel g)) \<le> max_entries"
    by (simp_all add: app_books_def delivered_def)
  have "ap_alerts (ga_alert_panel ?p) =
      drop (length (ap_alerts (ga_alert_panel g)) + length (ga_pending_alerts g) - max_alerts)
        (ap_alerts (ga_alert_panel g) @ ga_pending_alerts g)"
    by (simp add: process_pending_data_def Let_def alert_list.fold_items[OF a])
  moreover have "vp_events (ga_activity_panel ?p) =
      drop (length (vp_events (ga_activity_panel g)) + length (ga_pending_activity g) - max_events)
        (vp_events (ga_activity_panel g) @ ga_pending_activity g)"
    by (simp add: process_pending_data_def Let_def event_list.fold_items[OF v])
  moreover have "map log_source (lp_entries (ga_log_panel ?p)) =
      drop (length (map log_source (lp_entries (ga_log_panel g))) + length (ga_pending_logs g) - max_entries)
        (map log_source (lp_entries (ga_log_panel g)) @ ga_pending_logs g)"
    by (simp add: process_pending_data_def Let_def entry_list.fold_items[OF l] drop_map render)
  moreover have "ga_pending_alerts ?p = []" "ga_pending_activity ?p = []" "ga_pending_logs ?p = []"
    by (simp_all add: process_pending_data_def Let_def)
  ultimately show ?thesis
    using assms unfolding app_books_def by (simp only: delivered_frame simp_thms)
qed

text \<open>The input of a frame leaves the buffers alone and changes the lists only to clear them.\<close>

lemma clear_only:
  "ap_alerts (alert_toolbar t p) = ap_alerts p \<or> t = Clear_button \<and> ap_alerts (alert_toolbar t p) = []"
  "vp_events (activity_toolbar t v) = vp_events v \<or> t = Clear_button \<and> vp_events (activity_toolbar t v) = []"
  "lp_entries (log_toolbar t l) = lp_entries l \<or> t = Clear_button \<and> lp_entries (log_toolbar t l) = []"
  by (cases t; simp)+

lemma click_keeps_alerts: "ap_alerts (click_row row p) = ap_alerts p"
  by (simp add: click_row_def split: option.split)

lemma press_keeps_buffers:
  "ga_pending_alerts (press_pipeline_button st g) = ga_pending_alerts g"
  "ga_pending_activity (press_pipeline_button st g) = ga_pending_activity g"
  "ga_pending_logs (press_pipeline_button st g) = ga_pending_logs g"
  "ga_alert_panel (press_pipeline_button st g) = ga_alert_panel g"
  "ga_activity_panel (press_pipeline_button st g) = ga_activity_panel g"
  "ga_log_panel (press_pipeline_button st g) = ga_log_panel g"
  by (simp_all add: press_pipeline_button_def Let_def split: prod.split)

lemma books_input:
  assumes "app_books c es g"
  shows "app_books (c \<and> i \<notin> clear_inputs) es (handle_input compiled listed st i g)"
proof -
  have keep: "app_books c' es g'"
    if "c' \<Longrightarrow> c" "ga_pending_alerts g' = ga_pending_alerts g" "ga_pending_activity g' = ga_pending_activity g"
      "ga_pending_logs g' = ga_pending_logs g"
      "ap_alerts (ga_alert_panel g') = ap_alerts (ga_alert_panel g) \<or> ap_alerts (ga_alert_panel g') = [] \<and> \<not> c'"
      "vp_events (ga_activity_panel g') = vp_events (ga_activity_panel g) \<or> vp_events (ga_activity_panel g') = [] \<and> \<not> c'"
      "lp_entries (ga_log_panel g') = lp_entries (ga_log_panel g) \<or> lp_entries (ga_log_panel g') = [] \<and> \<not> c'" for c' g'
    using assms that unfolding app_books_def by (auto elim!: delivered_input)
  show ?thesis
  proof (cases i)
    case (Alert_toolbar t)
    then show ?thesis using clear_only(1)[of t "ga_alert_panel g"] by (intro keep) (auto simp: clear_inputs_def)
  next
    case (Activity_toolbar t)
    then show ?thesis using clear_only(2)[of t "ga_activity_panel g"] by (intro keep) (auto simp: clear_inputs_def)
  next
    case (Log_toolbar t)
    then show ?thesis using clear_only(3)[of t "ga_log_panel g"] by (intro keep) (auto simp: clear_inputs_def)
  qed (intro keep, auto simp: press_keeps_buffers click_keeps_alerts go_to_def pick_min_level_def split: prod.split)+
qed

lemma books_inputs:
  "app_books c es g \<Longrightarrow>
   app_books (c \<and> list_all (\<lambda>i. i \<notin> clear_inputs) inputs) es (fold (handle_input compiled listed st) inputs g)"
proof (induction inputs arbitrary: c g)
  case (Cons i inputs)
  from Cons.IH[OF books_input[OF Cons.prems]] show ?case by (simp add: conj_assoc)
qed simp

lemma books_frame:
  assumes "app_books c es g"
  shows "app_books (c \<and> list_all (\<lambda>i. i \<notin> clear_inputs) inputs) (es @ [Frame compiled listed inputs])
    (render_frame compiled listed inputs g)"
proof -
  have more: "app_books c' (es @ [Frame compiled listed inputs]) g' = app_books c' es g'" for c' g'
    by (simp add: app_books_def reported_defs)
  have panel: "app_books c' es (g'\<lparr>ga_config_panel := p\<rparr>) = app_books c' es g'" for c' g' p
    by (simp add: app_books_def)
  from books_inputs[OF books_process[OF assms], of inputs compiled listed] show ?thesis
    by (simp add: render_frame_def Let_def more panel)
qed

lemma books_run: "app_books (never_cleared es) es (fold app_step es new_app)"
proof (induction es rule: rev_induct)
  case Nil
  show ?case
    by (simp add: app_books_def delivered_def reported_defs new_app_def new_alert_panel_def new_activity_panel_def new_log_panel_def)
next
  case (snoc e es)
  show ?case
  proof (cases e)
    case (Report cb)
    with books_report[OF snoc.IH, of cb] show ?thesis by (simp add: never_cleared_def)
  next
    case (Frame compiled listed inputs)
    with books_frame[OF snoc.IH, of inputs compiled listed] show ?thesis by (simp add: never_cleared_def)
  qed
qed

text \<open>
  C26: Whatever the pipeline reports and whenever frames are drawn, each of the three lists shows, followed by what
  waits for the next frame, the newest part of what was reported, in order, and never more than its limit; and as
  long as nothing was cleared and no more items of a kind were reported than its limit, nothing of it is missing.
\<close>

theorem frames_show_what_was_reported:
  "let g = fold app_step es new_app in
     suffix (ap_alerts (ga_alert_panel g) @ ga_pending_alerts g) (reported_alerts es) \<and>
     suffix (vp_events (ga_activity_panel g) @ ga_pending_activity g) (reported_flows es) \<and>
     suffix (map log_source (lp_entries (ga_log_panel g)) @ ga_pending_logs g) (reported_logs es) \<and>
     length (ap_alerts (ga_alert_panel g)) \<le> 10000 \<and> length (vp_events (ga_activity_panel g)) \<le> 5000 \<and>
     length (lp_entries (ga_log_panel g)) \<le> 50000 \<and>
     (never_cleared es \<longrightarrow>
        (length (reported_alerts es) \<le> 10000 \<longrightarrow> ap_alerts (ga_alert_panel g) @ ga_pending_alerts g = reported_alerts es) \<and>
        (length (reported_flows es) \<le> 5000 \<longrightarrow> vp_events (ga_activity_panel g) @ ga_pending_activity g = reported_flows es) \<and>
        (length (reported_logs es) \<le> 50000 \<longrightarrow>
           map log_source (lp_entries (ga_log_panel g)) @ ga_pending_logs g = reported_logs es))"
  using books_run[of es] by (simp add: app_books_def delivered_def Let_def max_alerts_def max_events_def max_entries_def)

theorem frames_show_what_was_reported_witness:
  "let g = fold app_step [Report (Log_line 1 ''main'' ''up''), Frame True [] [Navigate Log_page], Report (Log_line 2 ''llm'' ''slow'')] new_app
   in map log_source (lp_entries (ga_log_panel g)) @ ga_pending_logs g = [(1, ''main'', ''up''), (2, ''llm'', ''slow'')]"
proof -
  let ?es = "[Report (Log_line 1 ''main'' ''up''), Frame True [] [Navigate Log_page], Report (Log_line 2 ''llm'' ''slow'')]"
  have "never_cleared ?es" by (simp add: never_cleared_def clear_inputs_def)
  moreover have "reported_logs ?es = [(1, ''main'', ''up''), (2, ''llm'', ''slow'')]" by (simp add: reported_logs_def)
  ultimately show ?thesis using frames_show_what_was_reported[of ?es] by (simp add: Let_def)
qed

lemma frame_empties_buffers:
  "ga_pending_alerts (render_frame compiled listed inputs g) = [] \<and> ga_pending_activity (render_frame compiled listed inputs g) = [] \<and>
   ga_pending_logs (render_frame compiled listed inputs g) = []"
proof -
  have "ga_pending_alerts (fold (handle_input compiled listed st) inputs g') = ga_pending_alerts g' \<and>
      ga_pending_activity (fold (handle_input compiled listed st) inputs g') = ga_pending_activity g' \<and>
      ga_pending_logs (fold (handle_input compiled listed st) inputs g') = ga_pending_logs g'" for st g'
  proof (induction inputs arbitrary: g')
    case (Cons i inputs)
    then show ?case by (cases i) (auto simp: press_keeps_buffers go_to_def split: prod.split)
  qed simp
  then show ?thesis by (simp add: render_frame_def process_pending_data_def Let_def)
qed

section \<open>The pipeline button\<close>

lemma button_starts:
  assumes "ga_state g = ct_state (ga_controller g)" and "ga_state g \<in> {Stopped, Error}"
  shows "press_pipeline_button (ga_state g) g =
    (if config_valid (ga_config g)
     then g\<lparr>ga_log_level := log_level (ga_config g), ga_controller := snd (start_pipeline (ga_config g) (ga_controller g)),
            ga_state := Starting\<rparr>
     else g)"
    and "config_valid (ga_config g) \<Longrightarrow> ct_state (ga_controller (press_pipeline_button (ga_state g) g)) = Starting \<and>
      ga_state (press_pipeline_button (ga_state g) g) = Starting \<and> \<not> ct_shutdown (ga_controller (press_pipeline_button (ga_state g) g))"
  using assms by (auto simp: press_pipeline_button_def start_pipeline_def set_state_def Let_def)

lemma button_frame:
  assumes "ga_state g = Stopped" and "ct_state (ga_controller g) = Stopped" and "config_valid (ga_config g)"
  shows "ga_config (app_step (Frame compiled listed [Pipeline_button]) g) = ga_config g"
    and "ct_state (ga_controller (app_step (Frame compiled listed [Pipeline_button]) g)) = Starting"
  using assms
  by (simp_all add: render_frame_def process_pending_data_def press_pipeline_button_def start_pipeline_def set_state_def Let_def)

lemma button_idle_between: "st \<in> {Starting, Stopping} \<Longrightarrow> press_pipeline_button st g = g"
  by (auto simp: press_pipeline_button_def)

section \<open>The sparkline of an idle pipeline\<close>

definition idle_frame :: app_event where
  "idle_frame = Frame False [] []"

lemma idle_frame_stats:
  "ga_latest_stats (app_step idle_frame g) = ga_latest_stats g \<and>
   ga_stats_panel (app_step idle_frame g) = update_stats (ga_latest_stats g) (ga_stats_panel g)"
  by (simp add: idle_frame_def render_frame_def process_pending_data_def Let_def)

lemma idle_frames_stats:
  "ga_stats_panel (fold app_step (replicate n idle_frame) g) =
   fold update_stats (replicate n (ga_latest_stats g)) (ga_stats_panel g)"
  by (induction n arbitrary: g) (simp_all add: idle_frame_stats)

text \<open>
  The line is meant to cover a minute at two samples a second, but the window samples at every frame: 121 frames
  without a report, two seconds on a usual display, make it flat whatever happened before.
\<close>

lemma idle_window_flat:
  assumes "ring_ok (ga_stats_panel g)"
  shows "sparkline (ga_stats_panel (fold app_step (replicate 121 idle_frame) g)) = replicate 120 0"
proof -
  have "replicate 121 x = x # replicate 120 x" for x :: pipeline_stats by (simp flip: replicate_Suc)
  then show ?thesis using idle_frames_flatten[OF assms] by (simp only: idle_frames_stats fold_simps)
qed

section \<open>A token budget below zero\<close>

text \<open>
  C27: The panel takes any number as the token budget: with an input and a model entered, a negative budget leaves the
  configuration valid and the button starts the pipeline; and then every prompt that fits the window and that the
  library allocates a batch for is written past the end of that batch.
\<close>

theorem panel_token_budget_unchecked:
  assumes "n < 0" and "path \<noteq> []" and "CHR 0x00 \<notin> set path" and "model \<noteq> []" and "CHR 0x00 \<notin> set model"
    and "prompt \<noteq> []" and "ll_tokenize m prompt = Some tokens" and "tokens \<noteq> []" and "length tokens \<le> 7000"
  shows "let edits = [Config_widget (Pcap_path path), Config_widget (Llama_path model), Config_widget (Max_tokens n)];
             g = fold app_step [Frame compiled listed edits, Frame compiled listed [Pipeline_button]] new_app in
     ct_state (ga_controller g) = Starting \<and> config_valid (ga_config g) \<and> max_tokens (ga_config g) = n \<and>
     generate_response m (ga_config g) prompt = (if ll_batch_ok m (int (length tokens) + n) then None else Some ''{}'')"
proof -
  let ?edits = "[Config_widget (Pcap_path path), Config_widget (Llama_path model), Config_widget (Max_tokens n)]"
  let ?g1 = "app_step (Frame compiled listed ?edits) new_app"
  let ?c = "default_config\<lparr>interface := c_string (take 511 path), llama_model_path := c_string (take 511 model), max_tokens := n\<rparr>"
  have shown: "c_string (take 511 s) \<noteq> []" if "s \<noteq> []" "CHR 0x00 \<notin> set s" for s
    using that by (cases s) (auto simp: c_string_def)
  have c: "ga_config ?g1 = ?c" and st: "ga_state ?g1 = Stopped" "ga_controller ?g1 = new_controller"
    by (simp_all add: render_frame_def process_pending_data_def new_app_def config_panel_drawn_def draw_config_def Let_def)
  have valid: "config_valid ?c"
    using shown[OF assms(2,3)] shown[OF assms(4,5)] by (simp add: config_valid_def default_config_def)
  let ?g2 = "app_step (Frame compiled listed [Pipeline_button]) ?g1"
  have "ga_config ?g2 = ?c" "ct_state (ga_controller ?g2) = Starting"
    using button_frame[of ?g1 compiled listed] c st valid by (simp_all add: new_controller_def del: app_step.simps)
  moreover have "generate_response m ?c prompt = (if ll_batch_ok m (int (length tokens) + n) then None else Some ''{}'')"
    using assms by (simp add: generate_response_def trim_tokens_def default_config_def)
  ultimately show ?thesis using valid by (simp add: Let_def del: app_step.simps)
qed

theorem panel_token_budget_unchecked_witness:
  "\<exists>g :: gui_app. ct_state (ga_controller g) = Starting \<and> max_tokens (ga_config g) = - 1 \<and>
     generate_response silent_llama (ga_config g) ''GET /'' = None"
proof -
  have a: "(- 1 :: int) < 0" "''eth0'' \<noteq> []" "CHR 0x00 \<notin> set ''eth0''" "''m.gguf'' \<noteq> []" "CHR 0x00 \<notin> set ''m.gguf''"
    "''GET /'' \<noteq> []" by simp_all
  have b: "ll_tokenize silent_llama ''GET /'' = Some (map of_char ''GET /'')" "map of_char ''GET /'' \<noteq> ([] :: int list)"
    "length (map of_char ''GET /'' :: int list) \<le> 7000" "ll_batch_ok silent_llama k" for k
    by (simp_all add: silent_llama_def)
  from panel_token_budget_unchecked[OF a b(1-3), of True "[]"] b(4) show ?thesis
    by (simp only: Let_def if_True) (elim conjE, intro exI conjI; assumption)
qed

section \<open>Closing the window of a running pipeline\<close>

lemma close_replicate:
  "ct_shutdown (ga_controller (gc_app t)) \<Longrightarrow> gc_alive t \<Longrightarrow> k < length (gc_callbacks t) \<Longrightarrow>
   close_run (replicate k Pipeline_callback @ [Destroy_buffers, Pipeline_callback]) t = Use_after_free"
proof (induction k arbitrary: t)
  case 0
  then show ?case by (cases "gc_callbacks t") auto
next
  case (Suc k)
  then obtain cb rest where cb: "gc_callbacks t = cb # rest" by (cases "gc_callbacks t") auto
  have "ct_shutdown (ga_controller (report cb (gc_app t)))" using Suc.prems(1) by (cases cb) auto
  with Suc cb show ?case by simp
qed

text \<open>
  As long as the pipeline has not made its last callback, destroying the window lets a callback use a destroyed
  buffer or mutex; once the pipeline has ended, closing is safe.
\<close>

theorem closing_destroys_buffers_in_use:
  assumes "\<not> ct_shutdown (ga_controller g)" and "k < length (gc_callbacks (begin_close in_flight g))"
  shows "close_run (Ask_stop # replicate k Pipeline_callback @ [Destroy_buffers, Pipeline_callback]) (begin_close in_flight g)
    = Use_after_free"
proof -
  let ?t = "(begin_close in_flight g)\<lparr>gc_app := g\<lparr>ga_controller := stop_pipeline (ga_controller g)\<rparr>\<rparr>"
  have "close_run (replicate k Pipeline_callback @ [Destroy_buffers, Pipeline_callback]) ?t = Use_after_free"
    by (rule close_replicate) (use assms in \<open>simp_all add: begin_close_def stop_pipeline_def Let_def\<close>)
  then show ?thesis using assms(1) by (simp add: begin_close_def Let_def)
qed

lemma closing_stopped_step:
  "gc_callbacks t = [] \<Longrightarrow> close_step e t \<noteq> Use_after_free \<and> (\<forall>t'. close_step e t = Next t' \<longrightarrow> gc_callbacks t' = [])"
  by (cases e) auto

lemma closing_stopped_safe:
  assumes "ct_state (ga_controller g) \<in> {Stopped, Error}"
  shows "close_run es (begin_close in_flight g) \<noteq> Use_after_free"
proof -
  have "close_run es t \<noteq> Use_after_free" if "gc_callbacks t = []" for t
    using that
  proof (induction es arbitrary: t)
    case (Cons e es)
    show ?case
    proof (cases "close_step e t")
      case (Next t')
      with closing_stopped_step[OF Cons.prems, of e] have "gc_callbacks t' = []" by simp
      with Cons.IH[of t'] Next show ?thesis by simp
    next
      case Use_after_free
      with closing_stopped_step[OF Cons.prems, of e] show ?thesis by simp
    qed simp
  qed simp
  then show ?thesis using assms by (auto simp: begin_close_def)
qed

end
