(* ===== verification/Gui_Shell.thy ===== *)
theory Gui_Shell
  imports Gui_App
begin

text \<open>
  \<^verbatim>\<open>gui/main_gui.cpp\<close>: the Windows shell around the window.  Direct3D and the message queue are parameters: what the
  library answers to a call is a function of the calls made so far, and every round of the main loop is given the
  messages that wait and what the user and the pipeline do.  Using a pointer that was never set is \<open>None\<close>.  The lemmas
  show that the calls of every run follow the protocol of the library and that everything acquired is released.
\<close>

section \<open>The graphics library\<close>

datatype hresult = S_ok | Unsupported | Failed

datatype gpu_call =
  Create_device hresult | Get_buffer | Create_view | Release_buffer | Release_view | Resize_buffers u32 u32 | Set_targets | Clear_view
  | Draw_data | Present | Release_chain | Release_context | Release_device

record gpu_lib =
  gl_hardware :: hresult
  gl_warp :: hresult
  gl_buffer :: "gpu_call list \<Rightarrow> bool"
  gl_view :: "gpu_call list \<Rightarrow> bool"

section \<open>The globals\<close>

record shell =
  sh_device :: bool
  sh_context :: bool
  sh_chain :: bool
  sh_view :: bool
  sh_width :: u32
  sh_height :: u32
  sh_quit :: bool
  sh_calls :: "gpu_call list"
  sh_app :: gui_app

definition new_shell :: shell where
  "new_shell = \<lparr>sh_device = False, sh_context = False, sh_chain = False, sh_view = False, sh_width = 0, sh_height = 0,
     sh_quit = False, sh_calls = [], sh_app = new_app\<rparr>"

definition gpu :: "gpu_call \<Rightarrow> shell \<Rightarrow> shell" where
  "gpu c s = s\<lparr>sh_calls := sh_calls s @ [c]\<rparr>"

text \<open>The result of \<open>GetBuffer\<close> is not looked at: when it fails, the pointer used next was never set.\<close>

definition create_render_target :: "gpu_lib \<Rightarrow> shell \<Rightarrow> shell option" where
  "create_render_target lib s =
     (let s = gpu Get_buffer s in
      if \<not> gl_buffer lib (sh_calls s) then None
      else (let s = gpu Create_view s in Some (gpu Release_buffer (s\<lparr>sh_view := gl_view lib (sh_calls s)\<rparr>))))"

definition cleanup_render_target :: "shell \<Rightarrow> shell" where
  "cleanup_render_target s = (if sh_view s then (gpu Release_view s)\<lparr>sh_view := False\<rparr> else s)"

definition create_device :: "gpu_lib \<Rightarrow> shell \<Rightarrow> (bool \<times> shell) option" where
  "create_device lib s =
     (let res = gl_hardware lib; s = gpu (Create_device res) s;
          (res, s) = (if res = Unsupported then (gl_warp lib, gpu (Create_device (gl_warp lib)) s) else (res, s))
      in if res \<noteq> S_ok then Some (False, s)
         else map_option (Pair True) (create_render_target lib (s\<lparr>sh_device := True, sh_context := True, sh_chain := True\<rparr>)))"

definition cleanup_device :: "shell \<Rightarrow> shell" where
  "cleanup_device s =
     (let s = cleanup_render_target s;
          s = (if sh_chain s then (gpu Release_chain s)\<lparr>sh_chain := False\<rparr> else s);
          s = (if sh_context s then (gpu Release_context s)\<lparr>sh_context := False\<rparr> else s)
      in if sh_device s then (gpu Release_device s)\<lparr>sh_device := False\<rparr> else s)"

section \<open>Messages\<close>

datatype message = Wm_size u64 u64 | Wm_syscommand u64 | Wm_destroy | Wm_other

datatype answer = Answer_true | Answer_zero | Answer_default

text \<open>
  The window procedure; \<open>grabbed\<close> when ImGui takes the message.  The second word of a size message holds the width in
  its low and the height in its next 16 bits.
\<close>

definition wnd_proc :: "bool \<Rightarrow> message \<Rightarrow> shell \<Rightarrow> answer \<times> shell" where
  "wnd_proc grabbed m s =
     (if grabbed then (Answer_true, s)
      else (case m of
        Wm_size wparam lparam \<Rightarrow>
          if wparam = 1 then (Answer_zero, s)
          else (Answer_zero, s\<lparr>sh_width := ucast (ucast lparam :: u16), sh_height := ucast (ucast (drop_bit 16 lparam) :: u16)\<rparr>)
      | Wm_syscommand wparam \<Rightarrow> if wparam AND 0xfff0 = 0xF100 then (Answer_zero, s) else (Answer_default, s)
      | Wm_destroy \<Rightarrow> (Answer_zero, s\<lparr>sh_quit := True\<rparr>)
      | Wm_other \<Rightarrow> (Answer_default, s)))"

section \<open>The main loop\<close>

text \<open>What happens between two frames, and in the second of them.\<close>

record round_input =
  ri_messages :: "(bool \<times> message) list"
  ri_reports :: "callback list"
  ri_listed :: "(string \<times> string) list"
  ri_inputs :: "user_input list"

definition handle_messages :: "round_input \<Rightarrow> shell \<Rightarrow> shell" where
  "handle_messages ri s = fold (\<lambda>(grabbed, m) s. snd (wnd_proc grabbed m s)) (ri_messages ri) s"

definition handle_resize :: "gpu_lib \<Rightarrow> shell \<Rightarrow> shell option" where
  "handle_resize lib s =
     (if sh_width s \<noteq> 0 \<and> sh_height s \<noteq> 0 then
        (let s = cleanup_render_target s; s = gpu (Resize_buffers (sh_width s) (sh_height s)) s
         in create_render_target lib (s\<lparr>sh_width := 0, sh_height := 0\<rparr>))
      else Some s)"

text \<open>Clearing a view that does not exist is \<open>None\<close>.\<close>

definition draw_frame :: "bool \<Rightarrow> round_input \<Rightarrow> shell \<Rightarrow> shell option" where
  "draw_frame compiled ri s =
     (let s = s\<lparr>sh_app := render_frame compiled (ri_listed ri) (ri_inputs ri) (fold report (ri_reports ri) (sh_app s))\<rparr>;
          s = gpu Set_targets s
      in if \<not> sh_view s then None else Some (gpu Present (gpu Draw_data (gpu Clear_view s))))"

text \<open>
  The loop over the rounds: whether it was left, and the shell.  \<open>WM_QUIT\<close> comes out of the queue after all other
  messages.
\<close>

fun main_loop :: "gpu_lib \<Rightarrow> bool \<Rightarrow> round_input list \<Rightarrow> shell \<Rightarrow> (bool \<times> shell) option" where
  "main_loop lib compiled [] s = Some (False, s)"
| "main_loop lib compiled (ri # ris) s =
     (let s = handle_messages ri s in
      if sh_quit s then Some (True, s)
      else (case handle_resize lib s of None \<Rightarrow> None
            | Some s \<Rightarrow>
                (case draw_frame compiled ri s of None \<Rightarrow> None | Some s \<Rightarrow> main_loop lib compiled ris s)))"

text \<open>\<open>WinMain\<close>: its return value, once it returns, and the shell.  \<open>early\<close> are the messages of the window's creation.\<close>

definition win_main :: "gpu_lib \<Rightarrow> bool \<Rightarrow> round_input \<Rightarrow> round_input list \<Rightarrow> (int option \<times> shell) option" where
  "win_main lib compiled early ris =
     (case create_device lib new_shell of None \<Rightarrow> None
      | Some (ok, s) \<Rightarrow>
          if \<not> ok then Some (Some 1, cleanup_device s)
          else (case main_loop lib compiled ris (handle_messages early s) of None \<Rightarrow> None
                | Some (left, s) \<Rightarrow> if left then Some (Some 0, cleanup_device s) else Some (None, s)))"

section \<open>The protocol of the library\<close>

datatype resource = Device | Device_context | Swap_chain | Back_buffer | Target_view

text \<open>
  What may be called when what is held: the buffers are not resized while a pointer to one or a view exists, only an existing view
  is cleared and drawn to, and nothing is released twice or overwritten while held.
\<close>

fun protocol_step :: "gpu_call \<Rightarrow> resource set \<Rightarrow> resource set option" where
  "protocol_step (Create_device r) held =
     (if held = {} then Some (if r = S_ok then {Device, Device_context, Swap_chain} else {}) else None)"
| "protocol_step Get_buffer held =
     (if Swap_chain \<in> held \<and> Back_buffer \<notin> held then Some (insert Back_buffer held) else None)"
| "protocol_step Create_view held =
     (if Device \<in> held \<and> Back_buffer \<in> held \<and> Target_view \<notin> held then Some (insert Target_view held) else None)"
| "protocol_step Release_buffer held = (if Back_buffer \<in> held then Some (held - {Back_buffer}) else None)"
| "protocol_step Release_view held = (if Target_view \<in> held then Some (held - {Target_view}) else None)"
| "protocol_step (Resize_buffers w h) held =
     (if Swap_chain \<in> held \<and> Back_buffer \<notin> held \<and> Target_view \<notin> held \<and> w \<noteq> 0 \<and> h \<noteq> 0 then Some held else None)"
| "protocol_step Set_targets held = (if Device_context \<in> held \<and> Target_view \<in> held then Some held else None)"
| "protocol_step Clear_view held = (if Device_context \<in> held \<and> Target_view \<in> held then Some held else None)"
| "protocol_step Draw_data held = (if Device_context \<in> held \<and> Target_view \<in> held then Some held else None)"
| "protocol_step Present held = (if Swap_chain \<in> held then Some held else None)"
| "protocol_step Release_chain held =
     (if Swap_chain \<in> held \<and> Back_buffer \<notin> held \<and> Target_view \<notin> held then Some (held - {Swap_chain}) else None)"
| "protocol_step Release_context held = (if Device_context \<in> held then Some (held - {Device_context}) else None)"
| "protocol_step Release_device held = (if held = {Device} then Some {} else None)"

fun protocol :: "gpu_call list \<Rightarrow> resource set \<Rightarrow> resource set option" where
  "protocol [] held = Some held"
| "protocol (c # cs) held = (case protocol_step c held of None \<Rightarrow> None | Some held' \<Rightarrow> protocol cs held')"

definition follows :: "resource set \<Rightarrow> shell \<Rightarrow> bool" where
  "follows held s \<longleftrightarrow> protocol (sh_calls s) {} = Some held \<and>
     (sh_device s \<longleftrightarrow> Device \<in> held) \<and> (sh_context s \<longleftrightarrow> Device_context \<in> held) \<and> (sh_chain s \<longleftrightarrow> Swap_chain \<in> held) \<and>
     (sh_view s \<longleftrightarrow> Target_view \<in> held)"

abbreviation all_held :: "resource set" where
  "all_held \<equiv> {Device, Device_context, Swap_chain, Target_view}"

definition lib_delivers :: "gpu_lib \<Rightarrow> bool" where
  "lib_delivers lib \<longleftrightarrow> gl_buffer lib = (\<lambda>cs. True) \<and> gl_view lib = (\<lambda>cs. True)"

lemma protocol_append: "protocol (cs @ ds) held = Option.bind (protocol cs held) (protocol ds)"
  by (induction cs arbitrary: held) (auto split: option.split)

lemma follows_messages: "follows held s \<Longrightarrow> follows held (handle_messages ri s)"
proof -
  have step: "follows held s \<Longrightarrow> follows held (snd (wnd_proc t m s))" for t m s
    by (cases m) (auto simp: wnd_proc_def follows_def)
  have "follows held s \<Longrightarrow> follows held (fold (\<lambda>(grabbed, m) s. snd (wnd_proc grabbed m s)) ms s)" for ms s
    by (induction ms arbitrary: s) (auto simp: step)
  then show "follows held s \<Longrightarrow> follows held (handle_messages ri s)" by (simp add: handle_messages_def)
qed

lemma follows_same: "follows held s \<Longrightarrow> protocol_step c held = Some held \<Longrightarrow> follows held (gpu c s)"
  by (simp add: follows_def gpu_def protocol_append)

lemma follows_create:
  assumes "follows (all_held - {Target_view}) s" and "lib_delivers lib"
  shows "\<exists>s'. create_render_target lib s = Some s' \<and> follows all_held s'"
proof -
  have b: "all_held - {Target_view} = {Device, Device_context, Swap_chain}" by auto
  show ?thesis
    using assms by (auto simp: create_render_target_def lib_delivers_def Let_def follows_def gpu_def protocol_append b)
qed

lemma follows_cleanup_view: "follows all_held s \<Longrightarrow> follows (all_held - {Target_view}) (cleanup_render_target s)"
  by (auto simp: cleanup_render_target_def follows_def gpu_def protocol_append)

lemma follows_cleanup: "follows all_held s \<Longrightarrow> follows {} (cleanup_device s)"
  by (auto simp: cleanup_device_def cleanup_render_target_def follows_def gpu_def protocol_append Let_def insert_Diff_if)

lemma follows_resize:
  assumes "follows all_held s" and "lib_delivers lib"
  shows "\<exists>s'. handle_resize lib s = Some s' \<and> follows all_held s'"
proof (cases "sh_width s \<noteq> 0 \<and> sh_height s \<noteq> 0")
  case True
  let ?r = "gpu (Resize_buffers (sh_width (cleanup_render_target s)) (sh_height (cleanup_render_target s))) (cleanup_render_target s)"
  have "sh_width (cleanup_render_target s) = sh_width s" "sh_height (cleanup_render_target s) = sh_height s"
    by (simp_all add: cleanup_render_target_def gpu_def)
  with True follows_same[OF follows_cleanup_view[OF assms(1)], of "Resize_buffers (sh_width s) (sh_height s)"]
  have "follows (all_held - {Target_view}) (?r\<lparr>sh_width := 0, sh_height := 0\<rparr>)" by (simp add: follows_def)
  from follows_create[OF this assms(2)] True show ?thesis
    unfolding handle_resize_def Let_def by auto
qed (use assms in \<open>auto simp: handle_resize_def\<close>)

lemma follows_draw:
  assumes "follows all_held s"
  shows "\<exists>s'. draw_frame compiled ri s = Some s' \<and> follows all_held s'"
  using assms by (auto simp: draw_frame_def follows_def gpu_def protocol_append Let_def)

lemma follows_loop:
  assumes "lib_delivers lib"
  shows "follows all_held s \<Longrightarrow> \<exists>left s'. main_loop lib compiled ris s = Some (left, s') \<and> follows all_held s'"
proof (induction ris arbitrary: s)
  case (Cons ri ris)
  have m: "follows all_held (handle_messages ri s)" by (rule follows_messages[OF Cons.prems])
  show ?case
  proof (cases "sh_quit (handle_messages ri s)")
    case False
    obtain s1 where s1: "handle_resize lib (handle_messages ri s) = Some s1" "follows all_held s1"
      using follows_resize[OF m assms] by blast
    obtain s2 where s2: "draw_frame compiled ri s1 = Some s2" "follows all_held s2" using follows_draw[OF s1(2)] by blast
    from Cons.IH[OF s2(2)] s1(1) s2(1) False show ?thesis by (simp add: Let_def)
  qed (use m in \<open>auto simp: Let_def\<close>)
qed auto

lemma follows_create_device:
  assumes "lib_delivers lib"
  shows "\<exists>ok s. create_device lib new_shell = Some (ok, s) \<and> follows (if ok then all_held else {}) s"
proof -
  have start: "follows {} new_shell" by (simp add: follows_def new_shell_def)
  have made: "\<exists>s'. create_render_target lib (s\<lparr>sh_device := True, sh_context := True, sh_chain := True\<rparr>) = Some s' \<and> follows all_held s'"
    if "protocol (sh_calls s) {} = Some (all_held - {Target_view})" "\<not> sh_view s" for s
    using that by (intro follows_create assms) (auto simp: follows_def)
  show ?thesis
    using made[of "gpu (Create_device S_ok) new_shell"]
      made[of "gpu (Create_device S_ok) (gpu (Create_device Unsupported) new_shell)"]
    by (cases "gl_hardware lib"; cases "gl_warp lib")
      (auto simp: create_device_def Let_def follows_def gpu_def new_shell_def insert_Diff_if)
qed

text \<open>
  C22: When the library delivers the buffers and views it is asked for, every run of the shell, with any messages,
  reports and input, follows the protocol of the library and never uses a pointer that was not set: the buffers are
  resized only while nothing refers to them, every frame is drawn to an existing view, nothing is released twice;
  and when the program returns, everything it acquired has been released, also when no device could be created.
\<close>

theorem shell_follows_protocol:
  assumes "lib_delivers lib"
  shows "\<exists>code s held. win_main lib compiled early ris = Some (code, s) \<and> protocol (sh_calls s) {} = Some held \<and>
    held = (if code = None then {Device, Device_context, Swap_chain, Target_view} else {})"
proof -
  obtain ok s where s: "create_device lib new_shell = Some (ok, s)" "follows (if ok then all_held else {}) s"
    using follows_create_device[OF assms] by blast
  show ?thesis
  proof (cases ok)
    case True
    have m: "follows all_held (handle_messages early s)" by (rule follows_messages) (use s(2) True in simp)
    obtain left s' where l: "main_loop lib compiled ris (handle_messages early s) = Some (left, s')" "follows all_held s'"
      using follows_loop[OF assms m] by blast
    have "protocol (sh_calls s') {} = Some all_held" "protocol (sh_calls (cleanup_device s')) {} = Some {}"
      using l(2) follows_cleanup[OF l(2)] by (simp_all add: follows_def)
    with s(1) True l(1) show ?thesis by (cases left) (simp_all add: win_main_def)
  next
    case False
    with s have "follows {} s" by simp
    then have "cleanup_device s = s" by (simp add: follows_def cleanup_device_def cleanup_render_target_def)
    moreover have "protocol (sh_calls s) {} = Some {}" using \<open>follows {} s\<close> by (simp add: follows_def)
    ultimately show ?thesis using s(1) False by (simp add: win_main_def)
  qed
qed

definition good_lib :: gpu_lib where
  "good_lib = \<lparr>gl_hardware = Unsupported, gl_warp = S_ok, gl_buffer = (\<lambda>cs. True), gl_view = (\<lambda>cs. True)\<rparr>"

definition quiet :: round_input where
  "quiet = \<lparr>ri_messages = [], ri_reports = [], ri_listed = [], ri_inputs = []\<rparr>"

theorem shell_follows_protocol_witness:
  "\<exists>code s. win_main good_lib True quiet
       [quiet\<lparr>ri_messages := [(False, Wm_size 0 0x02580320)]\<rparr>, quiet\<lparr>ri_messages := [(False, Wm_destroy)]\<rparr>] = Some (code, s) \<and>
     protocol (sh_calls s) {} \<noteq> None"
proof -
  have "lib_delivers good_lib" by (simp add: lib_delivers_def good_lib_def)
  from shell_follows_protocol[OF this, of True quiet
      "[quiet\<lparr>ri_messages := [(False, Wm_size 0 0x02580320)]\<rparr>, quiet\<lparr>ri_messages := [(False, Wm_destroy)]\<rparr>]"]
  show ?thesis by blast
qed

text \<open>When a buffer is not delivered, after a resize say, because the device was removed, the next use is of a stray pointer.\<close>

theorem missing_buffer_not_handled:
  assumes "sh_width s \<noteq> 0" and "sh_height s \<noteq> 0" and "gl_buffer lib = (\<lambda>cs. False)"
  shows "handle_resize lib s = None"
  using assms by (simp add: handle_resize_def create_render_target_def Let_def)

end
