(* ===== verification/Bench_Score.thy ===== *)
theory Bench_Score
  imports Pipeline_Controller Trainer
begin

text \<open>
  The measuring tools: \<^verbatim>\<open>bench/bench_common.hpp\<close>, \<^verbatim>\<open>bench/benchmark.cpp\<close> (the whole pipeline against a labelled capture),
  \<^verbatim>\<open>bench/probe.cpp\<close> (the sensor alone), \<^verbatim>\<open>tool/ipscan.cpp\<close> (the hosts of a capture) and
  \<^verbatim>\<open>tools/export_states/export_states.cpp\<close>.  Files are their contents, \<open>None\<close> when they cannot be opened; what the
  pipeline reports in a run is an argument, as are the rounds of the capture loop; a \<^verbatim>\<open>std::set\<close> is a list without
  duplicates, put in order where the code prints it.  The lemmas show that the confusion matrix is the one of the
  labelled host pairs whatever direction rows and alerts have, that both tools compute the same F1 score, what the
  reported filter recall counts, and that the pairs the scan prints are read back as labels.
\<close>

section \<open>Shared helpers\<close>

definition make_pair_key :: "u32 \<Rightarrow> u32 \<Rightarrow> u64" where
  "make_pair_key a b = (let lo = min a b; hi = max a b in push_bit 32 (ucast lo) OR ucast hi)"

definition bench_parse_ip :: "string \<Rightarrow> u32" where
  "bench_parse_ip s =
     (case scan_quad s of None \<Rightarrow> 0
      | Some (o0, o1, o2, o3) \<Rightarrow>
          word_of_nat o0 OR push_bit 8 (word_of_nat o1) OR push_bit 16 (word_of_nat o2) OR push_bit 24 (word_of_nat o3))"

definition blanks :: "char list" where
  "blanks = [CHR '' '', CHR 0x09, CHR 0x0D, CHR 0x0A]"

definition bench_trim :: "string \<Rightarrow> string" where
  "bench_trim s = trim_chars blanks s"

definition bench_div :: "real \<Rightarrow> real \<Rightarrow> real" where
  "bench_div a b = (if 0 < b then a / b else 0)"

section \<open>Ground truth\<close>

record ground_truth =
  gt_labels :: "(u64 \<times> string) list"
  gt_malicious :: "u64 list"
  gt_benign :: "u64 list"

definition no_truth :: ground_truth where
  "no_truth = \<lparr>gt_labels = [], gt_malicious = [], gt_benign = []\<rparr>"

definition label_field :: "string \<Rightarrow> nat \<Rightarrow> string" where
  "label_field line i =
     (case rd (getline_split (CHR '','') line) i of None \<Rightarrow> [] | Some s \<Rightarrow> bench_trim s)"

text \<open>The two addresses and the label of a line, when it is a row.\<close>

definition label_row :: "string \<Rightarrow> (u32 \<times> u32 \<times> string) option" where
  "label_row l =
     (let line = bench_trim l in
      if line = [] \<or> hd line = CHR ''#'' then None
      else
        (let a = label_field line 0; b = label_field line 1; label = label_field line 2 in
         if a = [] \<or> b = [] then None else Some (bench_parse_ip a, bench_parse_ip b, label)))"

definition benign_label :: "string \<Rightarrow> bool" where
  "benign_label label = (let lc = to_lower label in lc = ''benign'' \<or> lc = [])"

definition load_label :: "string \<Rightarrow> ground_truth \<Rightarrow> ground_truth" where
  "load_label l gt =
     (case label_row l of None \<Rightarrow> gt
      | Some (a, b, label) \<Rightarrow>
          (let k = make_pair_key a b in
           if benign_label label then gt\<lparr>gt_benign := List.insert k (gt_benign gt)\<rparr>
           else gt\<lparr>gt_malicious := List.insert k (gt_malicious gt), gt_labels := al_put k label (gt_labels gt)\<rparr>))"

definition load_labels :: "string \<Rightarrow> ground_truth" where
  "load_labels contents = fold load_label (getline_split (CHR 0x0A) contents) no_truth"

section \<open>What a run reports\<close>

record observed =
  ob_alerted :: "u64 list"
  ob_types :: "(string \<times> nat) list"
  ob_flows :: nat
  ob_mal_flows :: nat
  ob_mal_passed :: nat
  ob_reached :: "(u64 \<times> bool) list"

definition nothing_observed :: observed where
  "nothing_observed =
     \<lparr>ob_alerted = [], ob_types = [], ob_flows = 0, ob_mal_flows = 0, ob_mal_passed = 0, ob_reached = []\<rparr>"

definition bump :: "'k \<Rightarrow> ('k \<times> nat) list \<Rightarrow> ('k \<times> nat) list" where
  "bump k m = al_put k ((case map_of m k of None \<Rightarrow> 0 | Some n \<Rightarrow> n) + 1) m"

definition observe_alert :: "threat_alert \<Rightarrow> observed \<Rightarrow> observed" where
  "observe_alert a ob =
     (let k = make_pair_key (src_ip (al_connection a)) (dst_ip (al_connection a)) in
      ob\<lparr>ob_alerted := List.insert k (ob_alerted ob), ob_types := bump (al_threat_type a) (ob_types ob)\<rparr>)"

definition observe_flow :: "ground_truth \<Rightarrow> flow_event \<Rightarrow> observed \<Rightarrow> observed" where
  "observe_flow gt ev ob =
     (let ob = ob\<lparr>ob_flows := ob_flows ob + 1\<rparr>;
          k = make_pair_key (src_ip (ev_connection ev)) (dst_ip (ev_connection ev)) in
      if k \<in> set (gt_malicious gt) then
        (let ob = ob\<lparr>ob_mal_flows := ob_mal_flows ob + 1\<rparr> in
         if ev_action ev = PassedToLLM \<or> ev_action ev = LLMCleared
         then ob\<lparr>ob_mal_passed := ob_mal_passed ob + 1, ob_reached := al_put k True (ob_reached ob)\<rparr>
         else ob)
      else ob)"

definition observe_all :: "ground_truth \<Rightarrow> (threat_alert + flow_event) list \<Rightarrow> observed" where
  "observe_all gt reports =
     fold (\<lambda>r ob. case r of Inl a \<Rightarrow> observe_alert a ob | Inr ev \<Rightarrow> observe_flow gt ev ob) reports nothing_observed"

section \<open>Scoring\<close>

record scores =
  sc_tp :: nat
  sc_fp :: nat
  sc_fn :: nat
  sc_tn :: nat
  sc_per_type :: "(string \<times> nat \<times> nat) list"

definition no_scores :: scores where
  "no_scores = \<lparr>sc_tp = 0, sc_fp = 0, sc_fn = 0, sc_tn = 0, sc_per_type = []\<rparr>"

definition score_malicious :: "ground_truth \<Rightarrow> u64 list \<Rightarrow> u64 \<Rightarrow> scores \<Rightarrow> scores" where
  "score_malicious gt alerted k s =
     (let detected = k \<in> set alerted;
          s = (if detected then s\<lparr>sc_tp := sc_tp s + 1\<rparr> else s\<lparr>sc_fn := sc_fn s + 1\<rparr>);
          t = (case map_of (gt_labels gt) k of None \<Rightarrow> [] | Some l \<Rightarrow> l);
          (found, all) = (case map_of (sc_per_type s) t of None \<Rightarrow> (0, 0) | Some p \<Rightarrow> p)
      in s\<lparr>sc_per_type := al_put t (if detected then found + 1 else found, all + 1) (sc_per_type s)\<rparr>)"

definition score_benign :: "u64 list \<Rightarrow> u64 \<Rightarrow> scores \<Rightarrow> scores" where
  "score_benign alerted k s = (if k \<in> set alerted then s\<lparr>sc_fp := sc_fp s + 1\<rparr> else s\<lparr>sc_tn := sc_tn s + 1\<rparr>)"

definition score_run :: "ground_truth \<Rightarrow> u64 list \<Rightarrow> scores" where
  "score_run gt alerted =
     fold (score_benign alerted) (gt_benign gt) (fold (score_malicious gt alerted) (gt_malicious gt) no_scores)"

definition precision :: "scores \<Rightarrow> real" where
  "precision s = bench_div (real (sc_tp s)) (real (sc_tp s + sc_fp s))"

definition recall :: "scores \<Rightarrow> real" where
  "recall s = bench_div (real (sc_tp s)) (real (sc_tp s + sc_fn s))"

definition benchmark_f1 :: "scores \<Rightarrow> real" where
  "benchmark_f1 s = bench_div (2 * precision s * recall s) (precision s + recall s)"

definition probe_f1 :: "scores \<Rightarrow> real" where
  "probe_f1 s = bench_div (2 * real (sc_tp s)) (2 * real (sc_tp s) + real (sc_fp s) + real (sc_fn s))"

definition accuracy :: "scores \<Rightarrow> real" where
  "accuracy s = bench_div (real (sc_tp s + sc_tn s)) (real (sc_tp s + sc_tn s + sc_fp s + sc_fn s))"

definition filter_recall :: "observed \<Rightarrow> real" where
  "filter_recall ob = bench_div (real (ob_mal_passed ob)) (real (ob_mal_flows ob))"

definition filter_warning :: "observed \<Rightarrow> bool" where
  "filter_warning ob = (filter_recall ob < 95 / 100 \<and> 0 < ob_mal_flows ob)"

section \<open>The tools\<close>

fun bench_options :: "string list \<Rightarrow> wirewolf_config \<Rightarrow> wirewolf_config" where
  "bench_options [] cfg = cfg"
| "bench_options [a] cfg = cfg"
| "bench_options (a # v # rest) cfg =
     (if a = ''--openvino'' then bench_options rest (cfg\<lparr>openvino_model_path := v, openvino_enabled := True\<rparr>)
      else bench_options (v # rest) cfg)"

definition bench_config :: "string list \<Rightarrow> wirewolf_config" where
  "bench_config argv =
     (let cfg = bench_options (drop 4 argv)
            (default_config\<lparr>interface := argv ! 1, llama_model_path := argv ! 3, openvino_model_path := []\<rparr>)
      in if openvino_model_path cfg = [] then cfg\<lparr>openvino_model_path := ''none''\<rparr> else cfg)"

datatype bench_exit =
  Bench_usage | No_labels_file | No_usable_labels | Start_failed | Pipeline_error | Uncaught | Report observed scores

text \<open>An uncaught exception ends the process without a return from \<open>main\<close>.\<close>

definition exit_code :: "bench_exit \<Rightarrow> int option" where
  "exit_code e = (case e of Report _ _ \<Rightarrow> Some 0 | Uncaught \<Rightarrow> None | _ \<Rightarrow> Some 1)"

text \<open>The run: what was reported until the pipeline left its starting and running states, and the state it was then in.\<close>

definition benchmark ::
    "(string \<Rightarrow> string option) \<Rightarrow> (threat_alert + flow_event) list \<times> pipeline_state \<Rightarrow> string list \<Rightarrow> bench_exit" where
  "benchmark files pipeline_run argv =
     (if length argv < 4 then Bench_usage
      else (case files (argv ! 2) of None \<Rightarrow> No_labels_file
        | Some contents \<Rightarrow>
            (let gt = load_labels contents in
             if gt_malicious gt = [] \<and> gt_benign gt = [] then No_usable_labels
             else if \<not> fst (start_pipeline (bench_config argv) new_controller) then Start_failed
             else (case pipeline_run of (reports, st) \<Rightarrow>
               if st = Error then Pipeline_error
               else (let ob = observe_all gt reports in Report ob (score_run gt (ob_alerted ob)))))))"

definition probe_config :: "string list \<Rightarrow> real \<Rightarrow> wirewolf_config" where
  "probe_config argv beh_thr =
     default_config\<lparr>interface := argv ! 1, use_windivert := False, analysis_mode_of := Forensic,
       threat_proxy_db := ''flutter_app/assets/geo/proxy.bin'',
       behavioral_models_dir := (if 3 < length argv then argv ! 3 else []), behavioral_threshold := beh_thr\<rparr>"

definition probe ::
    "(string \<Rightarrow> string option) \<Rightarrow> conv_lib \<Rightarrow> platform \<Rightarrow> std_hash \<Rightarrow> dispatch list \<Rightarrow> string list \<Rightarrow> bench_exit" where
  "probe files lib pf hash rounds argv =
     (if length argv < 3 then Bench_usage
      else (case (if 4 < length argv then stod lib (argv ! 4) else Inr 0) of Inl _ \<Rightarrow> Uncaught
        | Inr beh_thr \<Rightarrow>
        (case files (argv ! 2) of None \<Rightarrow> No_labels_file
        | Some contents \<Rightarrow>
            (let gt = load_labels contents; cfg = probe_config argv beh_thr in
             case create_reassembler pf cfg of Inl _ \<Rightarrow> Uncaught
             | Inr r \<Rightarrow>
                 (let r = run_pcap \<lparr>se_cfg = cfg, se_hash = hash, se_callback = True\<rparr> rounds r;
                      ob = fold observe_alert (alerts_out r) nothing_observed
                  in Report ob (score_run gt (ob_alerted ob)))))))"

text \<open>The report of the benchmark, without the running time; the lists by type in the order of their names.\<close>

definition pad24 :: "string \<Rightarrow> string" where
  "pad24 s = s @ replicate (24 - length s) (CHR '' '')"

definition bench_report :: "observed \<Rightarrow> scores \<Rightarrow> string list" where
  "bench_report ob s =
     [nat_to_string (ob_flows ob) @ '' flow events observed'',
      ''Confusion matrix (per host pair):'',
      ''  TP='' @ nat_to_string (sc_tp s) @ ''  FP='' @ nat_to_string (sc_fp s) @ ''  FN='' @ nat_to_string (sc_fn s) @
        ''  TN='' @ nat_to_string (sc_tn s),
      ''  Precision : '' @ fmt_fixed 3 (precision s), ''  Recall    : '' @ fmt_fixed 3 (recall s),
      ''  F1 score  : '' @ fmt_fixed 3 (benchmark_f1 s), ''  Accuracy  : '' @ fmt_fixed 3 (accuracy s),
      ''Filter recall (did malicious flows reach the LLM?):'',
      ''  '' @ nat_to_string (ob_mal_passed ob) @ '' / '' @ nat_to_string (ob_mal_flows ob) @
        '' malicious flows passed the pre-filter = '' @ fmt_fixed 3 (filter_recall ob)] @
     (if filter_warning ob
      then [''  WARNING: the pre-filter dropped some malicious flows before the LLM saw them.''] else []) @
     [''Per-attack-type detection:''] @
     map (\<lambda>(t, found, all). ''  '' @ pad24 (c_string t) @ '' '' @ nat_to_string found @ '' / '' @ nat_to_string all @ ''  ('' @
       fmt_fixed 0 (100 * bench_div (real found) (real all)) @ ''%)'') (by_name (sc_per_type s)) @
     [''Alerts raised by type:''] @
     map (\<lambda>(t, n). ''  '' @ pad24 (c_string t) @ '' '' @ nat_to_string n) (by_name (ob_types ob))"

text \<open>The exporter: the lines of its output file, or \<open>None\<close> when it does not get that far.\<close>

definition export_states :: "platform \<Rightarrow> std_hash \<Rightarrow> dispatch list \<Rightarrow> string list \<Rightarrow> string list option" where
  "export_states pf hash rounds argv =
     (if length argv < 3 then None
      else (let cfg = default_config\<lparr>interface := argv ! 1, use_windivert := False\<rparr> in
            case create_reassembler pf cfg of Inl _ \<Rightarrow> None
            | Inr r \<Rightarrow>
                Some (dump_behavioral_states
                  (run_pcap \<lparr>se_cfg = cfg, se_hash = hash, se_callback = False\<rparr> rounds (r\<lparr>beh_export := True\<rparr>)))))"

section \<open>The address scan\<close>

definition scan_private :: "u32 \<Rightarrow> bool" where
  "scan_private net =
     (ip_byte net 0 = 10 \<or> ip_byte net 0 = 127 \<or> ip_byte net 0 = 0 \<or>
      ip_byte net 0 = 172 \<and> ip_byte net 1 div 16 * 16 = 16 \<or>
      ip_byte net 0 = 192 \<and> ip_byte net 1 = 168 \<or> ip_byte net 0 = 169 \<and> ip_byte net 1 = 254)"

record ip_scan =
  is_internal :: "u32 list"
  is_external :: "u32 list"
  is_hits :: "(u32 \<times> nat) list"
  is_pairs :: "(u32 \<times> u32) list"
  is_pkts :: nat
  is_ipv4 :: nat

definition empty_scan :: ip_scan where
  "empty_scan = \<lparr>is_internal = [], is_external = [], is_hits = [], is_pairs = [], is_pkts = 0, is_ipv4 = 0\<rparr>"

definition scan_host :: "u32 \<Rightarrow> ip_scan \<Rightarrow> ip_scan" where
  "scan_host ip s =
     (if scan_private ip then s\<lparr>is_internal := List.insert ip (is_internal s)\<rparr>
      else s\<lparr>is_external := List.insert ip (is_external s), is_hits := bump ip (is_hits s)\<rparr>)"

text \<open>The addresses of a captured frame, when it is long enough and IPv4.\<close>

definition frame_hosts :: "bytes \<Rightarrow> (u32 \<times> u32) option" where
  "frame_hosts data =
     (if length data < 34 then None
      else if unat (data ! 12) * 256 + unat (data ! 13) \<noteq> 0x0800 then None
      else (case (u32_at data (14 + 12), u32_at data (14 + 16)) of (Some src, Some dst) \<Rightarrow> Some (src, dst) | _ \<Rightarrow> None))"

definition scan_frame :: "bool \<Rightarrow> bytes \<Rightarrow> ip_scan \<Rightarrow> ip_scan" where
  "scan_frame pairs_mode data s =
     (let s = s\<lparr>is_pkts := is_pkts s + 1\<rparr> in
      case frame_hosts data of None \<Rightarrow> s
      | Some (src, dst) \<Rightarrow>
          (let s = s\<lparr>is_ipv4 := is_ipv4 s + 1\<rparr>;
               s = (if pairs_mode \<and> src \<noteq> dst then s\<lparr>is_pairs := List.insert (min src dst, max src dst) (is_pairs s)\<rparr> else s)
           in scan_host dst (scan_host src s)))"

definition ip_scan_of :: "bool \<Rightarrow> bytes list \<Rightarrow> ip_scan" where
  "ip_scan_of pairs_mode frames = fold (scan_frame pairs_mode) frames empty_scan"

definition pair_line :: "u32 \<times> u32 \<Rightarrow> string" where
  "pair_line hp = dotted_quad (fst hp) @ '','' @ dotted_quad (snd hp)"

definition scan_output :: "bool \<Rightarrow> ip_scan \<Rightarrow> string list" where
  "scan_output pairs_mode s =
     (if pairs_mode then map pair_line (sort_key (\<lambda>(lo, hi). unat lo * 2 ^ 32 + unat hi) (is_pairs s))
      else
        [''packets='' @ nat_to_string (is_pkts s) @ ''  ipv4='' @ nat_to_string (is_ipv4 s),
         ''distinct INTERNAL (private) IPs: '' @ nat_to_string (length (is_internal s)),
         ''distinct EXTERNAL (public)  IPs: '' @ nat_to_string (length (is_external s)),
         ''top external IPs by packets:''] @
        map (\<lambda>(ip, n).
            ''  '' @ replicate (3 - length (nat_to_string (ip_byte ip 0))) (CHR '' '') @ dotted_quad ip @ ''  '' @
            nat_to_string n @ '' pkts'')
          (take 15 (rev (sort_key (\<lambda>(ip, n). n * 2 ^ 32 + unat ip) (is_hits s)))))"

section \<open>Pair keys name unordered pairs of hosts\<close>

lemma pair_key_halves:
  "ucast (make_pair_key a b) = max a b" "ucast (drop_bit 32 (make_pair_key a b)) = min a b"
proof -
  have hi: "\<not> bit x n" if "32 \<le> n" for x :: u32 and n using that bit_imp_le_length[of x n] by auto
  show "ucast (make_pair_key a b) = max a b" "ucast (drop_bit 32 (make_pair_key a b)) = min a b"
    by (rule bit_word_eqI; simp add: make_pair_key_def Let_def bit_simps hi)+
qed

lemma pair_key_eq: "make_pair_key a b = make_pair_key c d \<longleftrightarrow> {a, b} = {c, d}"
proof
  assume "make_pair_key a b = make_pair_key c d"
  then have "min a b = min c d \<and> max a b = max c d" by (metis pair_key_halves)
  then show "{a, b} = {c, d}" by (simp add: min_max_pair)
next
  assume "{a, b} = {c, d}"
  then have "min a b = min c d \<and> max a b = max c d" by (simp add: min_max_pair)
  then show "make_pair_key a b = make_pair_key c d" by (simp add: make_pair_key_def)
qed

section \<open>The sets behind the matrix\<close>

definition label_rows :: "string \<Rightarrow> (u32 \<times> u32 \<times> string) list" where
  "label_rows contents = List.map_filter label_row (getline_split (CHR 0x0A) contents)"

definition row_key :: "u32 \<times> u32 \<times> string \<Rightarrow> u64" where
  "row_key r = make_pair_key (fst r) (fst (snd r))"

definition benign_row :: "u32 \<times> u32 \<times> string \<Rightarrow> bool" where
  "benign_row r = benign_label (snd (snd r))"

definition truth_ok :: "(u32 \<times> u32 \<times> string) list \<Rightarrow> ground_truth \<Rightarrow> bool" where
  "truth_ok rows gt \<longleftrightarrow>
     distinct (gt_malicious gt) \<and> distinct (gt_benign gt) \<and>
     set (gt_malicious gt) = row_key ` set (filter (\<lambda>r. \<not> benign_row r) rows) \<and>
     set (gt_benign gt) = row_key ` set (filter benign_row rows)"

lemma truth_ok_load:
  "truth_ok rows gt \<Longrightarrow> truth_ok (rows @ (case label_row l of None \<Rightarrow> [] | Some r \<Rightarrow> [r])) (load_label l gt)"
proof (cases "label_row l")
  case (Some r)
  assume ok: "truth_ok rows gt"
  obtain a b k where r: "r = (a, b, k)" by (cases r)
  show ?thesis
    using ok Some by (cases "benign_label k") (auto simp: r truth_ok_def load_label_def Let_def row_key_def benign_row_def)
qed (simp add: load_label_def)

lemma truth_ok_labels: "truth_ok (label_rows contents) (load_labels contents)"
proof -
  have "truth_ok (rows @ List.map_filter label_row ls) (fold load_label ls gt)" if "truth_ok rows gt" for rows gt ls
    using that
  proof (induction ls arbitrary: rows gt)
    case (Cons l ls)
    from Cons.IH[OF truth_ok_load[OF Cons.prems, of l]] show ?case
      by (cases "label_row l") (simp_all add: List.map_filter_simps)
  qed (simp add: List.map_filter_simps)
  from this[of "[]" no_truth "getline_split (CHR 0x0A) contents"] show ?thesis
    by (simp add: label_rows_def load_labels_def truth_ok_def no_truth_def)
qed

text \<open>The host pairs of the labels and of the alerts, as sets of hosts.\<close>

definition labelled_hosts :: "bool \<Rightarrow> string \<Rightarrow> u32 set set" where
  "labelled_hosts benign contents =
     (\<lambda>r. {fst r, fst (snd r)}) ` set (filter (\<lambda>r. benign_row r = benign) (label_rows contents))"

definition alerted_hosts :: "threat_alert list \<Rightarrow> u32 set set" where
  "alerted_hosts as = (\<lambda>a. {src_ip (al_connection a), dst_ip (al_connection a)}) ` set as"

definition host_key :: "u32 set \<Rightarrow> u64" where
  "host_key H = make_pair_key (Min H) (Max H)"

lemma host_key_pair: "host_key {a, b} = make_pair_key a b"
  by (simp add: host_key_def pair_key_eq) (auto simp: min_def max_def)

lemma min_max_key: "make_pair_key (min a b) (max a b) = make_pair_key a b"
  by (simp add: pair_key_eq) (auto simp: min_def max_def)

lemma host_key_inj: "host_key {a, b} = host_key {c, d} \<longleftrightarrow> {a, b} = {c, d}"
  by (simp add: host_key_pair pair_key_eq)

lemma observe_alerts:
  "ob_alerted (fold (\<lambda>r ob. case r of Inl a \<Rightarrow> observe_alert a ob | Inr ev \<Rightarrow> observe_flow gt ev ob) reports ob) =
   fold (\<lambda>a. List.insert (make_pair_key (src_ip (al_connection a)) (dst_ip (al_connection a))))
     (List.map_filter (\<lambda>r. case r of Inl a \<Rightarrow> Some a | Inr _ \<Rightarrow> None) reports) (ob_alerted ob)"
  by (induction reports arbitrary: ob)
    (auto simp: List.map_filter_simps observe_alert_def observe_flow_def Let_def split: sum.split)

lemma set_fold_insert: "set (fold (\<lambda>a. List.insert (f a)) xs ys) = f ` set xs \<union> set ys"
  by (induction xs arbitrary: ys) auto

definition alerts_of :: "(threat_alert + flow_event) list \<Rightarrow> threat_alert list" where
  "alerts_of reports = List.map_filter (\<lambda>r. case r of Inl a \<Rightarrow> Some a | Inr _ \<Rightarrow> None) reports"

lemma alerted_keys: "set (ob_alerted (observe_all gt reports)) = host_key ` alerted_hosts (alerts_of reports)"
  by (simp add: observe_all_def observe_alerts set_fold_insert nothing_observed_def alerts_of_def alerted_hosts_def
      image_image host_key_pair)

lemma labelled_keys:
  "set (gt_malicious (load_labels contents)) = host_key ` labelled_hosts False contents"
  "set (gt_benign (load_labels contents)) = host_key ` labelled_hosts True contents"
  using truth_ok_labels[of contents]
  by (simp_all add: truth_ok_def labelled_hosts_def row_key_def[abs_def] host_key_pair image_image)

section \<open>The confusion matrix\<close>

lemma score_benign_fold:
  "fold (score_benign alerted) ks s =
   s\<lparr>sc_fp := sc_fp s + length (filter (\<lambda>k. k \<in> set alerted) ks), sc_tn := sc_tn s + length (filter (\<lambda>k. k \<notin> set alerted) ks)\<rparr>"
  by (induction ks arbitrary: s) (simp_all add: score_benign_def)

lemma score_malicious_counts:
  "sc_tp (score_malicious gt alerted k s) = sc_tp s + (if k \<in> set alerted then 1 else 0)"
  "sc_fn (score_malicious gt alerted k s) = sc_fn s + (if k \<in> set alerted then 0 else 1)"
  "sc_fp (score_malicious gt alerted k s) = sc_fp s" "sc_tn (score_malicious gt alerted k s) = sc_tn s"
  by (simp_all add: score_malicious_def Let_def split: prod.split option.split)

lemma score_malicious_fold:
  "sc_tp (fold (score_malicious gt alerted) ks s) = sc_tp s + length (filter (\<lambda>k. k \<in> set alerted) ks)"
  "sc_fn (fold (score_malicious gt alerted) ks s) = sc_fn s + length (filter (\<lambda>k. k \<notin> set alerted) ks)"
  "sc_fp (fold (score_malicious gt alerted) ks s) = sc_fp s" "sc_tn (fold (score_malicious gt alerted) ks s) = sc_tn s"
  by (induction ks arbitrary: s) (simp_all add: score_malicious_counts)

text \<open>The breakdown by attack type adds up to the row of the malicious pairs.\<close>

definition per_type_total :: "(string \<times> nat \<times> nat) list \<Rightarrow> nat \<times> nat" where
  "per_type_total m = (sum_list (map (fst \<circ> snd) m), sum_list (map (snd \<circ> snd) m))"

lemma per_type_put:
  "keys_distinct m \<Longrightarrow> (case map_of m t of None \<Rightarrow> (0, 0) | Some p \<Rightarrow> p) = (found, all) \<Longrightarrow>
   per_type_total (al_put t (found + d, all + e) m) = (fst (per_type_total m) + d, snd (per_type_total m) + e)"
proof (induction m)
  case (Cons x m)
  then show ?case by (cases x) (auto simp: per_type_total_def split: if_splits)
qed (simp add: per_type_total_def)

definition breakdown_ok :: "scores \<Rightarrow> bool" where
  "breakdown_ok s \<longleftrightarrow> keys_distinct (sc_per_type s) \<and> per_type_total (sc_per_type s) = (sc_tp s, sc_tp s + sc_fn s)"

lemma breakdown_malicious:
  assumes "breakdown_ok s" shows "breakdown_ok (score_malicious gt alerted k s)"
proof -
  obtain found all where e: "(case map_of (sc_per_type s) (case map_of (gt_labels gt) k of None \<Rightarrow> [] | Some l \<Rightarrow> l)
      of None \<Rightarrow> (0, 0) | Some p \<Rightarrow> p) = (found, all)" by fastforce
  from assms per_type_put[OF _ e, of 1 1] per_type_put[OF _ e, of 0 1] show ?thesis
    by (simp add: breakdown_ok_def score_malicious_def Let_def e keys_distinct_al_put)
qed

lemma breakdown_run: "breakdown_ok (score_run gt alerted)"
proof -
  have "breakdown_ok (fold (score_malicious gt alerted) ks s)" if "breakdown_ok s" for ks s
    using that by (induction ks arbitrary: s) (simp_all add: breakdown_malicious)
  then have "breakdown_ok (fold (score_malicious gt alerted) (gt_malicious gt) no_scores)"
    by (simp add: breakdown_ok_def no_scores_def per_type_total_def)
  then show ?thesis by (simp add: score_run_def score_benign_fold breakdown_ok_def)
qed

lemma host_key_card:
  assumes "distinct ks" "set ks = host_key ` H" "set alerted = host_key ` A"
    and "H \<union> A \<subseteq> range (\<lambda>(a, b). {a, b})"
  shows "length (filter (\<lambda>k. k \<in> set alerted) ks) = card (H \<inter> A)" "length (filter (\<lambda>k. k \<notin> set alerted) ks) = card (H - A)"
proof -
  have inj: "inj_on host_key (H \<union> A)"
  proof (rule inj_onI)
    fix X Y assume XY: "X \<in> H \<union> A" "Y \<in> H \<union> A" and eq: "host_key X = host_key Y"
    have "X \<in> range (\<lambda>(a, b). {a, b})" "Y \<in> range (\<lambda>(a, b). {a, b})" by (rule subsetD[OF assms(4)], fact XY)+
    then obtain p q where "X = (\<lambda>(a, b). {a, b}) p" "Y = (\<lambda>(a, b). {a, b}) q" by (elim imageE)
    then obtain a b c d where X: "X = {a, b}" and Y: "Y = {c, d}" by (cases p; cases q) simp
    from eq have "{a, b} = {c, d}" by (simp only: X Y host_key_inj)
    then show "X = Y" by (simp only: X Y)
  qed
  have "length (filter (\<lambda>k. k \<in> set alerted) ks) = card (host_key ` H \<inter> host_key ` A)"
      "length (filter (\<lambda>k. k \<notin> set alerted) ks) = card (host_key ` H - host_key ` A)"
  proof -
    have "card (set (filter P ks)) = length (filter P ks)" for P by (rule distinct_card) (simp add: assms(1))
    moreover have "set (filter (\<lambda>k. k \<in> set alerted) ks) = set ks \<inter> set alerted"
      "set (filter (\<lambda>k. k \<notin> set alerted) ks) = set ks - set alerted" by auto
    ultimately show "length (filter (\<lambda>k. k \<in> set alerted) ks) = card (host_key ` H \<inter> host_key ` A)"
      "length (filter (\<lambda>k. k \<notin> set alerted) ks) = card (host_key ` H - host_key ` A)"
      unfolding assms(2,3) by metis+
  qed
  moreover have "host_key ` H \<inter> host_key ` A = host_key ` (H \<inter> A)" "host_key ` H - host_key ` A = host_key ` (H - A)"
    using inj_on_image_Int[OF inj, of H A] inj_on_image_set_diff[OF inj, of H A] by (simp_all add: le_supI1)
  moreover have "card (host_key ` (H \<inter> A)) = card (H \<inter> A)" "card (host_key ` (H - A)) = card (H - A)"
    by (auto intro!: card_image inj_on_subset[OF inj])
  ultimately show "length (filter (\<lambda>k. k \<in> set alerted) ks) = card (H \<inter> A)"
      "length (filter (\<lambda>k. k \<notin> set alerted) ks) = card (H - A)" by simp_all
qed

lemma hosts_are_pairs:
  "labelled_hosts b contents \<union> alerted_hosts as \<subseteq> range (\<lambda>(a, b). {a, b})"
  by (auto simp: labelled_hosts_def alerted_hosts_def image_iff)

text \<open>
  C28: The confusion matrix is the one of the labelled host pairs: a pair of hosts labelled with an attack counts as
  found exactly when some alert of the run has these two hosts as its ends, in either direction and however often
  and in whatever direction the pair is listed; the same for the pairs labelled benign; and the breakdown by attack
  type adds up to the matrix.
\<close>

theorem confusion_matrix_of_host_pairs:
  "let gt = load_labels contents; s = score_run gt (ob_alerted (observe_all gt reports));
       M = labelled_hosts False contents; B = labelled_hosts True contents; A = alerted_hosts (alerts_of reports) in
     sc_tp s = card (M \<inter> A) \<and> sc_fn s = card (M - A) \<and> sc_fp s = card (B \<inter> A) \<and> sc_tn s = card (B - A) \<and>
     per_type_total (sc_per_type s) = (card (M \<inter> A), card M)"
proof -
  let ?gt = "load_labels contents" and ?A = "alerted_hosts (alerts_of reports)"
  let ?ks = "ob_alerted (observe_all ?gt reports)" and ?M = "labelled_hosts False contents"
  have d: "distinct (gt_malicious ?gt)" "distinct (gt_benign ?gt)" using truth_ok_labels[of contents] by (simp_all add: truth_ok_def)
  note mal = host_key_card[OF d(1) labelled_keys(1) alerted_keys hosts_are_pairs, of ?gt]
    and ben = host_key_card[OF d(2) labelled_keys(2) alerted_keys hosts_are_pairs, of ?gt]
  have s: "sc_tp (score_run ?gt ?ks) = card (?M \<inter> ?A)" "sc_fn (score_run ?gt ?ks) = card (?M - ?A)"
      "sc_fp (score_run ?gt ?ks) = card (labelled_hosts True contents \<inter> ?A)"
      "sc_tn (score_run ?gt ?ks) = card (labelled_hosts True contents - ?A)"
    by (simp_all add: score_run_def score_benign_fold score_malicious_fold no_scores_def mal ben)
  have "finite ?M" by (simp add: labelled_hosts_def)
  then have "card (?M \<inter> ?A) + card (?M - ?A) = card ?M" by (metis card_Diff_subset_Int card_mono finite_Int inf_le1 le_add_diff_inverse)
  with s breakdown_run[of ?gt ?ks] show ?thesis by (simp add: Let_def breakdown_ok_def)
qed

section \<open>The derived figures\<close>

lemma harmonic_mean:
  fixes t a b :: real
  assumes "0 < t" "0 < a" "0 < b"
  shows "2 * (t / a) * (t / b) / (t / a + t / b) = 2 * t / (a + b)"
proof -
  have "2 * (t / a) * (t / b) = (2 * t) * (t / (a * b))" "t / a + t / b = (a + b) * (t / (a * b))"
    using assms by (simp_all add: field_simps)
  then show ?thesis using assms by (simp only: mult_divide_mult_cancel_right) simp
qed

text \<open>
  The F1 score of the benchmark, the harmonic mean of its precision and its recall, is the score the probe
  computes from the counts, for every confusion matrix, empty rows and columns included; and all rates lie between
  0 and 1.
\<close>

theorem f1_scores_agree:
  "benchmark_f1 s = probe_f1 s \<and> 0 \<le> probe_f1 s \<and> probe_f1 s \<le> 1 \<and> precision s \<le> 1 \<and> recall s \<le> 1 \<and> accuracy s \<le> 1"
proof (cases "sc_tp s = 0")
  case True
  then show ?thesis by (simp add: benchmark_f1_def probe_f1_def precision_def recall_def accuracy_def bench_div_def divide_le_eq_1)
next
  case False
  let ?t = "real (sc_tp s)" and ?p = "real (sc_fp s)" and ?n = "real (sc_fn s)"
  have t: "0 < ?t" using False by simp
  have pr: "precision s = ?t / (?t + ?p)" "recall s = ?t / (?t + ?n)" using t by (simp_all add: precision_def recall_def bench_div_def)
  have pos: "0 < ?t / (?t + ?p) + ?t / (?t + ?n)" using t by (simp add: add_pos_pos)
  have "benchmark_f1 s = 2 * (?t / (?t + ?p)) * (?t / (?t + ?n)) / (?t / (?t + ?p) + ?t / (?t + ?n))"
    using pos by (simp add: benchmark_f1_def bench_div_def pr)
  also have "\<dots> = 2 * ?t / (2 * ?t + ?p + ?n)"
    using harmonic_mean[of ?t "?t + ?p" "?t + ?n"] t by (simp add: algebra_simps)
  finally show ?thesis
    using t by (simp add: probe_f1_def precision_def recall_def accuracy_def bench_div_def divide_le_eq_1)
qed

section \<open>What the filter recall counts\<close>

text \<open>
  The figure is meant as the share of the malicious flows the filter let through, but it counts events: a flow that
  is passed and then cleared by the model is counted twice, in the numerator and in the denominator.
\<close>

definition malicious_events :: "ground_truth \<Rightarrow> flow_action \<Rightarrow> (threat_alert + flow_event) list \<Rightarrow> nat" where
  "malicious_events gt act reports =
     length (filter (\<lambda>r. case r of Inl _ \<Rightarrow> False | Inr ev \<Rightarrow>
       ev_action ev = act \<and> make_pair_key (src_ip (ev_connection ev)) (dst_ip (ev_connection ev)) \<in> set (gt_malicious gt)) reports)"

lemma observed_counts:
  "ob_mal_flows (observe_all gt reports) =
     malicious_events gt Filtered reports + malicious_events gt PassedToLLM reports + malicious_events gt LLMCleared reports"
  "ob_mal_passed (observe_all gt reports) =
     malicious_events gt PassedToLLM reports + malicious_events gt LLMCleared reports"
proof -
  let ?f = "\<lambda>r ob. case r of Inl a \<Rightarrow> observe_alert a ob | Inr ev \<Rightarrow> observe_flow gt ev ob"
  have "ob_mal_flows (fold ?f reports ob) = ob_mal_flows ob + malicious_events gt Filtered reports +
      malicious_events gt PassedToLLM reports + malicious_events gt LLMCleared reports \<and>
    ob_mal_passed (fold ?f reports ob) = ob_mal_passed ob + malicious_events gt PassedToLLM reports +
      malicious_events gt LLMCleared reports" for ob
  proof (induction reports arbitrary: ob)
    case (Cons r reports)
    show ?case
    proof (cases r)
      case (Inl a)
      with Cons[of "observe_alert a ob"] show ?thesis by (simp add: malicious_events_def observe_alert_def Let_def)
    next
      case (Inr ev)
      with Cons[of "observe_flow gt ev ob"] show ?thesis
        by (cases "ev_action ev") (simp_all add: malicious_events_def observe_flow_def Let_def)
    qed
  qed (simp add: malicious_events_def)
  from this[of nothing_observed] show
    "ob_mal_flows (observe_all gt reports) =
       malicious_events gt Filtered reports + malicious_events gt PassedToLLM reports + malicious_events gt LLMCleared reports"
    "ob_mal_passed (observe_all gt reports) =
       malicious_events gt PassedToLLM reports + malicious_events gt LLMCleared reports"
    by (simp_all add: observe_all_def nothing_observed_def)
qed

text \<open>
  When f malicious flows were dropped by the filter, p passed, and c of those cleared by the model, the tool
  reports (p + c) / (f + p + c) as the filter recall: by exactly c f / ((f + p) (f + p + c)) more than the share
  p / (f + p) of the flows that reached the model.
\<close>

theorem filter_recall_counts_cleared_twice:
  assumes "0 < malicious_events gt Filtered reports + malicious_events gt PassedToLLM reports"
  shows "let f = real (malicious_events gt Filtered reports); p = real (malicious_events gt PassedToLLM reports);
             c = real (malicious_events gt LLMCleared reports) in
     filter_recall (observe_all gt reports) = (p + c) / (f + p + c) \<and>
     filter_recall (observe_all gt reports) = p / (f + p) + c * f / ((f + p) * (f + p + c))"
proof -
  let ?f = "real (malicious_events gt Filtered reports)" and ?p = "real (malicious_events gt PassedToLLM reports)"
    and ?c = "real (malicious_events gt LLMCleared reports)"
  have pos: "0 < ?f + ?p" "0 < ?f + ?p + ?c" using assms by linarith+
  have "(?p + ?c) / (?f + ?p + ?c) = ?p / (?f + ?p) + ?c * ?f / ((?f + ?p) * (?f + ?p + ?c))"
    using pos by (simp add: divide_simps) (simp add: algebra_simps)
  then show ?thesis using pos by (simp add: filter_recall_def observed_counts bench_div_def Let_def)
qed

theorem filter_recall_counts_cleared_twice_witness:
  "filter_recall (observe_all (no_truth\<lparr>gt_malicious := [make_pair_key 1 2]\<rparr>)
     (map (\<lambda>act. Inr \<lparr>ev_connection = empty_id\<lparr>src_ip := 2, dst_ip := 1\<rparr>, ev_action = act, ev_reason = [], ev_payload_size = 9\<rparr>)
       [Filtered, PassedToLLM, LLMCleared])) = 1 / 2 + 1 / 6"
proof -
  let ?gt = "no_truth\<lparr>gt_malicious := [make_pair_key 1 2]\<rparr>"
  let ?rs = "map (\<lambda>act. Inr \<lparr>ev_connection = empty_id\<lparr>src_ip := 2, dst_ip := 1\<rparr>, ev_action = act, ev_reason = [], ev_payload_size = 9\<rparr>)
    [Filtered, PassedToLLM, LLMCleared]"
  have "make_pair_key 2 1 = make_pair_key 1 2" by (simp add: pair_key_eq insert_commute)
  then have n: "malicious_events ?gt Filtered ?rs = 1" "malicious_events ?gt PassedToLLM ?rs = 1" "malicious_events ?gt LLMCleared ?rs = 1"
    by (simp_all add: malicious_events_def)
  then show ?thesis using filter_recall_counts_cleared_twice[of ?gt ?rs] by (simp only: Let_def n) simp
qed

section \<open>A header row\<close>

text \<open>
  The header line that the comment of \<^verbatim>\<open>bench/benchmark.cpp\<close> shows as the first row of a labels file is not skipped:
  neither of its names is an address, so it counts as an attack between 0.0.0.0 and itself.
\<close>

lemma header_row_is_an_attack: "label_row ''src_ip,dst_ip,label'' = Some (0, 0, ''label'') \<and> \<not> benign_label ''label''"
  by (simp add: label_row_def bench_trim_def trim_chars_def blanks_def label_field_def getline_split_def rd_def bench_parse_ip_def
      scan_quad_def scan_unsigned_def is_space_def is_digit_def benign_label_def to_lower_def lower_char_def Let_def)

section \<open>Labels from a scan\<close>

lemma scan_private_sensor: "scan_private ip = intel_private ip"
  by (auto simp: scan_private_def intel_private_def local_range_def private_range_def)

lemma parse_ip_dotted: "bench_parse_ip (dotted_quad ip) = ip"
proof -
  have "bench_parse_ip (dotted_quad ip) = (ip AND 255) OR push_bit 8 (drop_bit 8 ip AND 255)
      OR push_bit 16 (drop_bit 16 ip AND 255) OR push_bit 24 (drop_bit 24 ip AND 255)"
    by (simp add: bench_parse_ip_def scan_quad_dotted ip_byte_def)
  also have "\<dots> = ip"
  proof (rule bit_word_eqI)
    fix n assume n: "n < LENGTH(32)"
    have m: "(255 :: u32) = mask 8" by (simp add: mask_eq_exp_minus_1)
    consider "n < 8" | "8 \<le> n" "n < 16" | "16 \<le> n" "n < 24" | "24 \<le> n" by linarith
    then show "bit ((ip AND 255) OR push_bit 8 (drop_bit 8 ip AND 255) OR push_bit 16 (drop_bit 16 ip AND 255)
        OR push_bit 24 (drop_bit 24 ip AND 255)) n = bit ip n"
      unfolding m using n by cases (auto simp: bit_simps)
  qed
  finally show ?thesis .
qed

text \<open>A labels file with a line for every scanned pair.\<close>

definition labels_file :: "string \<Rightarrow> string list \<Rightarrow> string" where
  "labels_file label ls = concat (map (\<lambda>l. l @ '','' @ label @ [CHR 0x0A]) ls)"

lemma getline_split_lines:
  "list_all (\<lambda>l. d \<notin> set l) ls \<Longrightarrow> getline_split d (concat (map (\<lambda>l. l @ [d]) ls)) = ls"
  by (induction ls) (simp_all add: getline_split_def getline_split_acc_field)

lemma trim_chars_clean:
  assumes "\<forall>c \<in> set s. c \<notin> set ws" shows "trim_chars ws s = s"
proof -
  have "dropWhile (\<lambda>c. c \<in> set ws) t = t" if "\<forall>c \<in> set t. c \<notin> set ws" for t :: string
    using that by (cases t) auto
  from this[of s] this[of "rev s"] show ?thesis using assms by (simp add: trim_chars_def)
qed

lemma dotted_quad_chars: "c \<in> set (dotted_quad ip) \<Longrightarrow> is_digit c \<or> c = CHR ''.''"
  using nat_to_string_digits by (auto simp: dotted_quad_def)

lemma dotted_not_blank: "c \<in> set (dotted_quad ip) \<Longrightarrow> c \<notin> set blanks \<and> c \<noteq> CHR '',''"
  by (drule dotted_quad_chars) (auto simp: blanks_def is_digit_def)

lemma dotted_quad_nonempty: "dotted_quad ip \<noteq> []"
  by (simp add: dotted_quad_def)

lemma label_row_pair:
  assumes "\<forall>c \<in> set label. c \<notin> set blanks \<and> c \<noteq> CHR '',''" and "label \<noteq> []"
  shows "label_row (pair_line (a, b) @ '','' @ label) = Some (a, b, label)"
proof -
  let ?l = "pair_line (a, b) @ '','' @ label"
  have comma: "CHR '','' \<notin> set blanks" by (simp add: blanks_def)
  have "\<forall>c \<in> set ?l. c \<notin> set blanks"
    using assms comma dotted_not_blank by (auto simp: pair_line_def)
  then have trim: "bench_trim ?l = ?l" unfolding bench_trim_def by (rule trim_chars_clean)
  have parts: "getline_split (CHR '','') ?l = [dotted_quad a, dotted_quad b, label]"
  proof -
    have "CHR '','' \<notin> set label" using assms(1) by blast
    moreover have "?l = dotted_quad a @ CHR '','' # dotted_quad b @ CHR '','' # label" by (simp add: pair_line_def)
    ultimately show ?thesis
      using assms(2) by (simp only: getline_split_def getline_split_acc_field[OF comma_free(2)]) (simp add: getline_split_acc_last)
  qed
  have clean: "bench_trim (dotted_quad ip) = dotted_quad ip" "bench_trim label = label" for ip
    using assms dotted_not_blank by (simp_all add: bench_trim_def trim_chars_clean)
  have "hd (dotted_quad a) \<noteq> CHR ''#''"
    using dotted_quad_chars[of "hd (dotted_quad a)" a] dotted_quad_nonempty[of a] by (auto simp: is_digit_def)
  then have "hd ?l \<noteq> CHR ''#''" using dotted_quad_nonempty[of a] by (simp add: pair_line_def)
  moreover have "?l \<noteq> []" by (simp add: pair_line_def)
  moreover have "label_field ?l 0 = dotted_quad a" "label_field ?l 1 = dotted_quad b" "label_field ?l 2 = label"
    by (simp_all only: label_field_def parts) (simp_all add: rd_def clean)
  ultimately show ?thesis
    unfolding label_row_def trim Let_def using dotted_quad_nonempty by (simp add: parse_ip_dotted)
qed

text \<open>The pairs of hosts that exchange IPv4 packets in a capture.\<close>

definition captured_pairs :: "bytes list \<Rightarrow> u32 set set" where
  "captured_pairs frames = {{s, d} | s d frame. frame \<in> set frames \<and> frame_hosts frame = Some (s, d) \<and> s \<noteq> d}"

lemma scan_host_pairs [simp]: "is_pairs (scan_host ip s) = is_pairs s"
  by (simp add: scan_host_def)

lemma scan_pairs:
  "set (is_pairs (fold (scan_frame True) frames s)) =
   set (is_pairs s) \<union> {(min a b, max a b) | a b frame. frame \<in> set frames \<and> frame_hosts frame = Some (a, b) \<and> a \<noteq> b}"
proof (induction frames arbitrary: s)
  case (Cons frame frames)
  show ?case
  proof (cases "frame_hosts frame")
    case None
    with Cons[of "scan_frame True frame s"] show ?thesis by (auto simp: scan_frame_def Let_def)
  next
    case (Some hosts)
    then obtain a b where h: "frame_hosts frame = Some (a, b)" by (cases hosts) auto
    then have "set (is_pairs (scan_frame True frame s)) = (if a \<noteq> b then {(min a b, max a b)} else {}) \<union> set (is_pairs s)"
      by (auto simp: scan_frame_def Let_def)
    with Cons[of "scan_frame True frame s"] h show ?thesis by auto
  qed
qed simp

lemma load_pair_lines:
  assumes "\<forall>c \<in> set label. c \<notin> set blanks \<and> c \<noteq> CHR '',''" and "label \<noteq> []" and "benign_label label"
  shows "load_labels (labels_file label (map pair_line ps)) =
    no_truth\<lparr>gt_benign := fold (\<lambda>(a, b). List.insert (make_pair_key a b)) ps []\<rparr>"
proof -
  let ?ls = "map (\<lambda>p. pair_line p @ '','' @ label) ps"
  have "CHR 0x0A \<notin> set (dotted_quad ip)" for ip using dotted_not_blank[of "CHR 0x0A" ip] by (auto simp: blanks_def)
  moreover have "CHR 0x0A \<notin> set label" using assms(1) by (auto simp: blanks_def)
  ultimately have "list_all (\<lambda>l. CHR 0x0A \<notin> set l) ?ls" by (simp add: list_all_iff pair_line_def)
  from getline_split_lines[OF this] have lines: "getline_split (CHR 0x0A) (labels_file label (map pair_line ps)) = ?ls"
    by (simp add: labels_file_def o_def)
  have "fold load_label ?ls gt = gt\<lparr>gt_benign := fold (\<lambda>(a, b). List.insert (make_pair_key a b)) ps (gt_benign gt)\<rparr>" for gt
    by (induction ps arbitrary: gt) (auto simp: load_label_def label_row_pair[OF assms(1,2), simplified] assms(3) Let_def)
  from this[of no_truth] show ?thesis by (simp add: load_labels_def lines no_truth_def)
qed

text \<open>
  C31: The pairs the scan prints, each completed with the label BENIGN, are a labels file of exactly the pairs of
  hosts that exchanged IPv4 packets in the capture: one key per pair, whichever of the two hosts sent, and no pair
  is taken for an attack.
\<close>

theorem scanned_pairs_reload:
  "let gt = load_labels (labels_file ''BENIGN'' (scan_output True (ip_scan_of True frames))) in
     set (gt_benign gt) = host_key ` captured_pairs frames \<and> distinct (gt_benign gt) \<and>
     card (captured_pairs frames) = length (gt_benign gt) \<and> gt_malicious gt = []"
proof -
  let ?ps = "sort_key (\<lambda>(lo, hi). unat lo * 2 ^ 32 + unat hi) (is_pairs (ip_scan_of True frames))"
  let ?gt = "load_labels (labels_file ''BENIGN'' (map pair_line ?ps))"
  have label: "\<forall>c \<in> set ''BENIGN''. c \<notin> set blanks \<and> c \<noteq> CHR '',''" "''BENIGN'' \<noteq> []" "benign_label ''BENIGN''"
    by (simp_all add: blanks_def) code_simp
  have gt: "?gt = no_truth\<lparr>gt_benign := fold (\<lambda>(a, b). List.insert (make_pair_key a b)) ?ps []\<rparr>"
    by (rule load_pair_lines[OF label])
  have keys: "set (fold (\<lambda>(a, b). List.insert (make_pair_key a b)) ps ks) = (\<lambda>(a, b). make_pair_key a b) ` set ps \<union> set ks"
    "distinct ks \<Longrightarrow> distinct (fold (\<lambda>(a, b). List.insert (make_pair_key a b)) ps ks)" for ps ks
    by (induction ps arbitrary: ks) auto
  have "(\<lambda>(a, b). make_pair_key a b) ` set ?ps = host_key ` captured_pairs frames"
    by (auto simp: ip_scan_of_def scan_pairs empty_scan_def captured_pairs_def image_iff)
      (metis host_key_pair min_max_key)+
  then have s: "set (gt_benign ?gt) = host_key ` captured_pairs frames" unfolding gt by (simp add: keys)
  moreover have d: "distinct (gt_benign ?gt)" unfolding gt by (simp add: keys)
  moreover have "card (captured_pairs frames) = length (gt_benign ?gt)"
  proof -
    have "inj_on host_key (captured_pairs frames)"
      by (rule inj_onI) (auto simp: captured_pairs_def host_key_inj)
    from card_image[OF this] distinct_card[OF d] show ?thesis unfolding s by linarith
  qed
  moreover have "gt_malicious ?gt = []" unfolding gt by (simp add: no_truth_def)
  ultimately show ?thesis unfolding scan_output_def if_True Let_def by blast
qed

end
