(* ===== verification/Command_Line.thy ===== *)
theory Command_Line
  imports Pipeline_Controller
begin

text \<open>
  \<^verbatim>\<open>cli/main.cpp\<close>: the command line front end.  What the program logs and prints and the code it returns, from its
  arguments and the states the controller reports each time it is asked.  The lemmas show that the exit code tells
  whether the pipeline failed, and that a stop request that arrives before the start has no effect.
\<close>

section \<open>Alerts on the console\<close>

definition cli_ip_str :: "u32 \<Rightarrow> string" where
  "cli_ip_str ip =
     nat_to_string (unat (ip AND 0xFF)) @ ''.'' @ nat_to_string (unat (drop_bit 8 ip AND 0xFF)) @ ''.'' @
     nat_to_string (unat (drop_bit 16 ip AND 0xFF)) @ ''.'' @ nat_to_string (unat (drop_bit 24 ip AND 0xFF))"

definition cli_port :: "u16 \<Rightarrow> string" where
  "cli_port p = nat_to_string (unat (drop_bit 8 p OR push_bit 8 p))"

definition cli_alert :: "threat_alert \<Rightarrow> string" where
  "cli_alert a =
     nl @ ''*** ALERT ***'' @ nl @
     ''  Type:     '' @ al_threat_type a @ nl @
     ''  Severity: '' @ severity_format (al_severity_info a) @ nl @
     ''  Source:   '' @ cli_ip_str (src_ip (al_connection a)) @ '':'' @ cli_port (src_port (al_connection a)) @ nl @
     ''  Dest:     '' @ cli_ip_str (dst_ip (al_connection a)) @ '':'' @ cli_port (dst_port (al_connection a)) @ nl @
     (if al_snippet a \<noteq> [] then ''  Snippet:  '' @ take 200 (al_snippet a) @ nl else [])"

section \<open>The main function\<close>

definition usage_lines :: "string list" where
  "usage_lines =
     [''Usage: wirewolf <interface|file.pcap> <openvino_model.xml> <llama_model.gguf> [options]'',
      ''  --log-level N       0=DEBUG 1=INFO 2=WARN 3=ERROR'',
      ''  --queue-capacity N  Max items per queue (default 1024)'',
      ''  --payload-limit N   Max chars sent to LLM (default 2048)'',
      ''  --max-tokens N      Max LLM output tokens (default 512)'',
      ''  --max-flow-size N   Flow size trigger in bytes (default 1MB)'',
      ''  --openvino          Enable OpenVINO model (default: statistical filter)'',
      ''  --entropy-high F    High entropy threshold (default 7.0)'',
      ''  --entropy-low F     Low entropy threshold (default 1.0)'',
      ''  --no-promisc        Disable promiscuous mode on capture interface'',
      ''  --mode M            live|forensic|auto (default auto: forensic for .pcap, live for interfaces)'',
      ''  --max-llm-flows N   Cap flows sent to the LLM (0=unlimited); bounds run time on big captures'']"

text \<open>The handler of the two signals, with the controller it knows of.\<close>

definition signal_handler :: "controller option \<Rightarrow> controller option" where
  "signal_handler g_controller = map_option stop_pipeline g_controller"

text \<open>
  The waiting loop, on the states the successive reads return: the condition reads once, and a second time when the
  first read is not Starting.  \<open>None\<close> is a loop that goes on; otherwise the reads that are left.
\<close>

fun wait_loop :: "pipeline_state list \<Rightarrow> pipeline_state list option" where
  "wait_loop [] = None"
| "wait_loop (s1 # reads) =
     (if s1 = Starting then wait_loop reads
      else (case reads of [] \<Rightarrow> None | s2 # reads' \<Rightarrow> if s2 = Running then wait_loop reads' else Some reads'))"

record cli_result =
  cli_log :: "string list"
  cli_exit :: "int option"

definition cli_main :: "conv_lib \<Rightarrow> string list \<Rightarrow> pipeline_state list \<Rightarrow> string \<Rightarrow> cli_result" where
  "cli_main lib argv reads last_error_text =
     (let cfg = parse_config lib argv in
      if \<not> config_valid cfg then
        \<lparr>cli_log = (if parse_error cfg \<noteq> [] then [parse_error cfg] else []) @ usage_lines, cli_exit = Some 1\<rparr>
      else if \<not> fst (start_pipeline cfg new_controller) then
        \<lparr>cli_log = [''Wirewolf starting...'', ''Failed to start pipeline''], cli_exit = Some 1\<rparr>
      else (case wait_loop reads of
              Some (s # _) \<Rightarrow>
                if s = Error
                then \<lparr>cli_log = [''Wirewolf starting...'', ''Pipeline entered error state'', ''Pipeline error: '' @ last_error_text], cli_exit = Some 1\<rparr>
                else \<lparr>cli_log = [''Wirewolf starting...''], cli_exit = Some 0\<rparr>
            | _ \<Rightarrow> \<lparr>cli_log = [''Wirewolf starting...''], cli_exit = None\<rparr>))"

section \<open>Lemmas\<close>

lemma cli_ip_dotted: "cli_ip_str ip = dotted_quad ip"
  by (simp add: cli_ip_str_def dotted_quad_def ip_byte_def)

lemma cli_port_swapped: "cli_port p = nat_to_string (unat (bswap16 p))"
  by (simp add: cli_port_def bswap16_def)

lemma wait_starting: "wait_loop (replicate n Starting @ reads) = wait_loop reads"
  by (induction n) auto

lemma wait_running: "\<exists>rest. wait_loop (replicate n Running @ reads) = wait_loop rest \<and> (rest = reads \<or> rest = Running # reads)"
proof (induction n rule: less_induct)
  case (less n)
  show ?case
  proof (cases "n < 2")
    case True
    then have "n = 0 \<or> n = 1" by auto
    then show ?thesis by auto
  next
    case False
    then obtain k where k: "n = Suc (Suc k)" by (metis less_2_cases_iff not0_implies_Suc One_nat_def less_Suc_eq_0_disj numeral_2_eq_2)
    with less[of k] show ?thesis by simp
  qed
qed

text \<open>
  However often the states of a run are sampled: a run that fails to come up ends the program with 1, and a run that
  comes up and ends, after the waiting loop has seen it end, with 0.
\<close>

theorem cli_exit_code:
  assumes "config_valid (parse_config lib argv)"
  shows "cli_exit (cli_main lib argv (replicate a Starting @ replicate (3 + b) Error) err) = Some 1"
    and "cli_exit (cli_main lib argv (replicate a Starting @ replicate b Running @ replicate c Stopping @ replicate (4 + d) Stopped) err) = Some 0"
proof -
  have ok: "fst (start_pipeline (parse_config lib argv) new_controller)"
    using assms by (simp add: start_pipeline_def new_controller_def)
  show "cli_exit (cli_main lib argv (replicate a Starting @ replicate (3 + b) Error) err) = Some 1"
    using assms ok by (simp add: cli_main_def wait_starting numeral_3_eq_3)
  let ?tail = "replicate c Stopping @ replicate (4 + d) Stopped"
  have tail: "\<exists>s rest. wait_loop ys = Some (s # rest) \<and> s \<noteq> Error" if "ys = ?tail \<or> ys = Running # ?tail" for ys
    using that by (cases c; cases "c - 1"; cases "c - 2") (auto simp: numeral_eq_Suc)
  obtain ys where ys: "wait_loop (replicate b Running @ ?tail) = wait_loop ys" "ys = ?tail \<or> ys = Running # ?tail"
    using wait_running[of b ?tail] by blast
  from tail[OF ys(2)] obtain s rest where "wait_loop ys = Some (s # rest)" "s \<noteq> Error" by blast
  with ys(1) show "cli_exit (cli_main lib argv (replicate a Starting @ replicate b Running @ replicate c Stopping @ replicate (4 + d) Stopped) err) = Some 0"
    using assms ok by (simp add: cli_main_def wait_starting)
qed

text \<open>The handlers are installed, and the controller made known to them, before the pipeline is started.\<close>

theorem early_signal_lost:
  assumes "config_valid cfg"
  shows "signal_handler None = None \<and>
    (\<exists>c. signal_handler (Some new_controller) = Some c \<and> ct_shutdown c \<and>
       \<not> ct_shutdown (snd (start_pipeline cfg c)) \<and> ct_state (snd (start_pipeline cfg c)) = Starting)"
  using assms by (simp add: signal_handler_def stop_pipeline_def start_pipeline_def new_controller_def set_state_def)

end
