(* ===== verification/Spec2Isabelle.thy ===== *)
theory Spec2Isabelle
  imports Wire_Prelude Wirewolf_Types Alert_Json Flow_Queue Payload_Normalizer Md5 Tls_Inspector Config
    Threat_Feed Proxy_Db Behavioral_Model Tcp_Stream Reassembler_State Anomaly_Detection Tcp_Reassembly
    Npu_Detectors Npu_Filter Llm_Prompt Llm_Inference Pipeline_Controller Offline_Pipe
    C_Api Trainer System_Prompt Few_Shot Gui_Panels Gui_App Gui_Shell Bench_Score Command_Line
begin

text \<open>
  A verification library for Wirewolf, a network intrusion detection pipeline in C++.  A capture thread
  reassembles TCP flows and runs connection detectors on every packet; a filter thread decides by signatures,
  TLS metadata, a threat feed and a statistical or neural anomaly score which flows are worth a closer look; a
  classifier thread names flows a detector has tagged and asks a language model about the others; a controller
  owns the three stages and the two queues between them, turns what they find into alerts and, in inline mode,
  into blocked sources.  Paths below are relative to the repository.

  Parts and theories, in the order of the data flow:
  \<^item> \<^verbatim>\<open>Wire_Prelude\<close>: checked reads, strings and substring search as \<^verbatim>\<open>std::string\<close> has them, byte order,
    association lists for the unordered maps, the loop \<open>run_stage\<close> of a worker and the locale \<open>stage\<close> of its contract.
  \<^item> \<^verbatim>\<open>Wirewolf_Types\<close> (\<^verbatim>\<open>include/wirewolf_types.hpp\<close>, \<^verbatim>\<open>include/packet_types.hpp\<close>): the records and enumerations, the
    CVSS table \<open>severity_for_threat\<close>, \<open>resolve_severity\<close>, \<open>confidence_for\<close>.  Severities are a linear order.
  \<^item> \<^verbatim>\<open>Alert_Json\<close> (\<^verbatim>\<open>src/alert_json.cpp\<close> and the field parser both consumers carry): what is written is read back.
  \<^item> \<^verbatim>\<open>Flow_Queue\<close> (\<^verbatim>\<open>include/thread_safe_queue.hpp\<close>): every member function as one atomic step, waits as outcomes,
    the interleavings of any number of threads as the step relation \<open>q_step\<close>; locale \<open>priority_bands\<close>.
  \<^item> \<^verbatim>\<open>Config\<close> (\<^verbatim>\<open>include/config.hpp\<close>): command line and validation.
  \<^item> \<^verbatim>\<open>Threat_Feed\<close>, \<^verbatim>\<open>Proxy_Db\<close> (\<^verbatim>\<open>include/threat_feed.hpp\<close>, \<^verbatim>\<open>include/proxy_db.hpp\<close>): the loaded feeds and their lookups.
  \<^item> \<^verbatim>\<open>Behavioral_Model\<close> (\<^verbatim>\<open>src/behavioral_model.cpp\<close>): encoder, Markov model, its file format.
  \<^item> \<^verbatim>\<open>Tcp_Stream\<close>, \<^verbatim>\<open>Reassembler_State\<close>, \<^verbatim>\<open>Anomaly_Detection\<close>, \<^verbatim>\<open>Tcp_Reassembly\<close> (\<^verbatim>\<open>src/tcp_reassembly.cpp\<close>): one
    connection and its segments on 32-bit sequence numbers; the members of the sensor, its block list and
    \<open>emit_alert\<close>; the detectors on source and beacon trackers (locales \<open>detector\<close>, \<open>deduplicating\<close>); the flow table, the
    completion, eviction and flush passes, and the pcap and WinDivert capture loops.
  \<^item> \<^verbatim>\<open>Payload_Normalizer\<close>, \<^verbatim>\<open>Md5\<close>, \<^verbatim>\<open>Tls_Inspector\<close> (\<^verbatim>\<open>include/payload_normalizer.hpp\<close>, \<^verbatim>\<open>include/tls_inspector.hpp\<close>):
    the canonical form of a payload, and the ClientHello parser whose reads are all checked.
  \<^item> \<^verbatim>\<open>Npu_Detectors\<close>, \<^verbatim>\<open>Npu_Filter\<close> (\<^verbatim>\<open>src/npu_filter.cpp\<close>): one predicate per detector; the decision \<open>decide\<close> of the worker
    loop for a flow and \<open>carry_out\<close> with its counters, events and output.
  \<^item> \<^verbatim>\<open>Llm_Prompt\<close>, \<^verbatim>\<open>Llm_Inference\<close> (\<^verbatim>\<open>src/llm_inference.cpp\<close>): sanitising, the context block, the rules on answers; token
    window and sampling, snippets of tagged flows, \<open>judge\<close> and the worker \<open>classify_flow\<close>.
  \<^item> \<^verbatim>\<open>System_Prompt\<close>, \<^verbatim>\<open>Few_Shot\<close> (\<^verbatim>\<open>src/llm_inference.cpp\<close>): the text of the system prompt as data, the chat it forms with
    the data of a flow (reader \<open>read_chat\<close>), and what \<open>judge\<close> makes of the answers its examples teach.
  \<^item> \<^verbatim>\<open>Pipeline_Controller\<close>, \<^verbatim>\<open>Offline_Pipe\<close> (\<^verbatim>\<open>src/pipeline_controller.cpp\<close>): the life cycle \<open>controller_reach\<close>, the alert
    handlers and the statistics; and the threads over the two queues, from capture to shutdown, as \<open>pipe_step\<close>.
  \<^item> \<^verbatim>\<open>C_Api\<close> (\<^verbatim>\<open>src/wirewolf_capi.cpp\<close>, \<^verbatim>\<open>include/logger.hpp\<close>): the handle, the guarded setters, the conversions and the
    bounded lists behind the poll functions, and the destruction of a handle as interleaved steps \<open>destroy_run\<close>.
  \<^item> \<^verbatim>\<open>Trainer\<close> (\<^verbatim>\<open>tools/train_behavioral/train.cpp\<close>): the offline trainer, from its arguments to the models and the
    threshold sweep, in both of its modes.
  \<^item> \<^verbatim>\<open>Gui_Panels\<close>, \<^verbatim>\<open>Gui_App\<close> (\<^verbatim>\<open>gui/panels/\<close>, \<^verbatim>\<open>gui/app.cpp\<close>): the graphical front end, without its looks.  What each
    panel keeps, the texts it shows and what its widgets do (locale \<open>bounded_list\<close> for the three lists); the buffers
    between the pipeline threads and the frames, the input of a frame, and the destruction of the window.
  \<^item> \<^verbatim>\<open>Gui_Shell\<close> (\<^verbatim>\<open>gui/main_gui.cpp\<close>): its main loop, window procedure and Direct3D objects, whose calls are
    checked against the automaton \<open>protocol\<close>.
  \<^item> \<^verbatim>\<open>Command_Line\<close> (\<^verbatim>\<open>cli/main.cpp\<close>): what the console front end prints and returns.
  \<^item> \<^verbatim>\<open>Bench_Score\<close> (\<^verbatim>\<open>bench/\<close>, \<^verbatim>\<open>tool/ipscan.cpp\<close>, \<^verbatim>\<open>tools/export_states/\<close>): the labels and scores of the benchmark and of
    the probe, on top of the pipeline's reports and of the sensor, the address scan and the state exporter.
  \<^item> this theory: a property that spans the filter, the classifier, the controller and the block list.

  What the lemmas show.  Safety of reads: the TLS and packet parsers stay inside the payload (with one exception,
  stated).  Invariants: queue, sensor state, filter and classifier accounting, controller life cycle, trained
  models.  Function: reassembly in any order, draining order of the queue, what is emitted, canonical forms, domain
  matching.  Equivalence and refinement: binary search against a linear scan, detectors against declarative rules,
  trackers against the packets a source sent, the offline pipeline against a lossless bag, the confusion matrix
  against sets of host pairs, the plotted ring buffer against a sliding window.  Liveness and
  termination: the offline pipeline drains, thresholds are reached, workers handle every sequence of flows.  Round
  trips: alert JSON, model files, exported state strings and scanned host pairs.  Errors: where the code does less
  than it says, as theorems about concrete
  families of inputs.

  Conventions.  \<^verbatim>\<open>size_t\<close> counters are natural numbers; sequence numbers, ports, addresses and hashes are words
  of their width; floats and doubles are exact reals; strings are lists of 8-bit characters; the iteration order of
  an unordered container is the order of its list; \<^verbatim>\<open>std::hash\<close> is a record of functions.  A read outside a buffer is
  \<open>None\<close>.  Recursion over a position terminates by a measure, so no fuel is used but in \<open>generate_loop\<close>, whose
  bound is the code's own \<^verbatim>\<open>max_tokens\<close>, in \<open>percent_decode\<close>, whose three passes are the code's, and in \<open>search_loop\<close> and
  \<open>ext_loop\<close>, which are shown not to run out.

  Not modelled: wall-clock time (\<^verbatim>\<open>system_clock\<close> stamps, sleeps), logging, \<^verbatim>\<open>list_interfaces\<close>, the threads' memory
  model (every member function under a mutex is one step), the capture library, OpenVINO, llama.cpp, Direct3D and the file
  system (parameters of the definitions), ImGui (reduced to the input it delivers), the looks of the graphical front
  end (theme, icon font, window set-up), the Flutter front end and the tests.
\<close>

section \<open>From the wire to the block list\<close>

lemma filter_flow_passes:
  assumes "decide np f = Some (Pass g r) \<or> decide np f = Some (Pass_once k g r) \<and> k \<notin> set (seen_payload_hashes st)"
    and "payload f \<noteq> []"
  shows "\<exists>st'. filter_flow np f st = Some st' \<and> filter_out st' = filter_out st @ [(flow_priority g, g)]"
  using assms by (auto simp: filter_flow_def carry_out_def pass_flow_def emit_flow_event_def Let_def)

lemma classify_tagged:
  assumes "payload g \<noteq> []" and "protocol_tag g \<noteq> []" and "lm_alert_callback lm"
  shows "classify_flow lm g ls = Some (ls\<lparr>llm_alerts := llm_alerts ls @
    [(build_alert_json (protocol_tag g) (fst (tag_snippet g)) (snd (tag_snippet g)), g, tag_payload (lm_cfg lm) g)]\<rparr>)"
  using assms by (simp add: classify_flow_def tagged_flow_def raise_alert_def split: prod.split)

lemma heartbleed_tags_clean:
  "t \<in> {''Malicious TLS Client'', ''C2 Beaconing'', ''Suspicious TLS'', ''Heartbleed''} \<Longrightarrow> \<forall>x \<in> set t. \<not> control_char x"
  by (elim insertE emptyE; hypsubst) code_simp+



end
